(* ===== verification/Prelude.thy ===== *)
theory Prelude
  imports Main "HOL-Library.Word" "HOL-Library.Multiset"
begin

section \<open>Prelude: outcomes of C++ code, pointers, fixed arrays\<close>

text \<open>
  What every component of the worker shares: the value of a computation that may leave
  the defined behaviour of C++ (a null or dangling pointer, an index out of range, a
  semaphore that is waited for by the thread that already holds it), and the generic
  lemmas on slots of fixed arrays and on lists that the component proofs use.
\<close>

subsection \<open>Outcomes\<close>

text \<open>
  A call either returns (\<open>Inr\<close>) or runs into one of these (\<open>Inl\<close>): nothing the source
  does after such a point is defined, so the model stops there.
\<close>

datatype fault =
    NullPointer
  | OutOfRange
  | UseAfterFree
  | Blocked
  | DivideByZero
  | BadIterator
  | UncaughtException
  | BadEnum
  | ShiftOverflow

type_synonym 'a result = "fault + 'a"

definition bindR :: "'a result \<Rightarrow> ('a \<Rightarrow> 'b result) \<Rightarrow> 'b result" where
  "bindR m f = (case m of Inl e \<Rightarrow> Inl e | Inr a \<Rightarrow> f a)"

named_theorems result_simps "rewriting of outcomes"

lemma bindR_Inl [simp, result_simps]: "bindR (Inl e) f = Inl e"
  by (simp add: bindR_def)

lemma bindR_Inr [simp, result_simps]: "bindR (Inr a) f = f a"
  by (simp add: bindR_def)

lemma bindR_eq_Inr [result_simps]: "bindR m f = Inr b \<longleftrightarrow> (\<exists>a. m = Inr a \<and> f a = Inr b)"
  by (cases m) auto

lemma bindR_eq_Inl [result_simps]:
  "bindR m f = Inl e \<longleftrightarrow> m = Inl e \<or> (\<exists>a. m = Inr a \<and> f a = Inl e)"
  by (cases m) auto

lemma bindR_assoc: "bindR (bindR m f) g = bindR m (\<lambda>a. bindR (f a) g)"
  by (cases m) auto

lemma bindR_cong [fundef_cong]:
  "m = m' \<Longrightarrow> (\<And>a. m' = Inr a \<Longrightarrow> f a = g a) \<Longrightarrow> bindR m f = bindR m' g"
  by (cases m') auto

text \<open>Reading through a pointer: \<open>None\<close> is the null pointer, a heap is a partial map.\<close>

type_synonym ptr = nat

definition deref :: "(ptr \<rightharpoonup> 'a) \<Rightarrow> ptr option \<Rightarrow> 'a result" where
  "deref h p = (case p of
     None \<Rightarrow> Inl NullPointer
   | Some a \<Rightarrow> (case h a of None \<Rightarrow> Inl UseAfterFree | Some v \<Rightarrow> Inr v))"

lemma deref_None [simp, result_simps]: "deref h None = Inl NullPointer"
  by (simp add: deref_def)

lemma deref_eq_Inr [simp]: "deref h p = Inr v \<longleftrightarrow> (\<exists>a. p = Some a \<and> h a = Some v)"
  by (auto simp: deref_def split: option.splits)

lemma deref_Some [simp, result_simps]: "h a = Some v \<Longrightarrow> deref h (Some a) = Inr v"
  by (simp add: deref_def)

lemma deref_dangling [simp, result_simps]: "h a = None \<Longrightarrow> deref h (Some a) = Inl UseAfterFree"
  by (simp add: deref_def)

subsection \<open>Slots of a fixed array\<close>

text \<open>
  A loop \<open>for (i = 0; i < n; i++) if (P i) ...; return\<close> that stops at the first index with
  a property. A fixed C array is a function on its indices; the loops never leave the
  bounds, so no other index is read.
\<close>

definition first_slot :: "(nat \<Rightarrow> bool) \<Rightarrow> nat \<Rightarrow> nat option" where
  "first_slot P n = List.find P [0..<n]"

definition slot_count :: "(nat \<Rightarrow> bool) \<Rightarrow> nat \<Rightarrow> nat" where
  "slot_count P n = length (filter P [0..<n])"

named_theorems slot_simps "facts on slots of fixed arrays"

lemma first_slot_None [slot_simps]: "first_slot P n = None \<longleftrightarrow> (\<forall>i<n. \<not> P i)"
  by (auto simp: first_slot_def find_None_iff)

lemma first_slot_SomeD: "first_slot P n = Some i \<Longrightarrow> i < n \<and> P i \<and> (\<forall>j<i. \<not> P j)"
  by (auto simp: first_slot_def find_Some_iff)

lemma first_slot_ex: "i < n \<Longrightarrow> P i \<Longrightarrow> \<exists>k. first_slot P n = Some k"
  by (metis first_slot_None not_None_eq)

lemma slot_count_le [slot_simps]: "slot_count P n \<le> n"
  by (metis slot_count_def length_filter_le length_upt diff_zero)

lemma slot_count_card: "slot_count P n = card {i. i < n \<and> P i}"
proof -
  have "slot_count P n = card (set (filter P [0..<n]))"
    by (simp add: slot_count_def distinct_card [symmetric])
  also have "set (filter P [0..<n]) = {i. i < n \<and> P i}" by auto
  finally show ?thesis .
qed

lemma slot_count_set:
  assumes "i < n" and "\<not> P i"
  shows "slot_count (P(i := True)) n = Suc (slot_count P n)"
proof -
  have "{j. j < n \<and> (P(i := True)) j} = insert i {j. j < n \<and> P j}"
    using assms(1) by auto
  then show ?thesis using assms(2) by (simp add: slot_count_card)
qed

lemma slot_count_clear:
  assumes "i < n" and "P i"
  shows "Suc (slot_count (P(i := False)) n) = slot_count P n"
proof -
  have "{j. j < n \<and> P j} = insert i {j. j < n \<and> (P(i := False)) j}"
    using assms by auto
  then show ?thesis by (simp add: slot_count_card)
qed

lemma slot_count_pos: "i < n \<Longrightarrow> P i \<Longrightarrow> 0 < slot_count P n"
  by (auto simp: slot_count_card card_gt_0_iff)

lemma slot_count_full: "slot_count P n = n \<Longrightarrow> i < n \<Longrightarrow> P i"
proof (rule ccontr)
  assume full: "slot_count P n = n" and i: "i < n" and "\<not> P i"
  then have "slot_count (P(i := True)) n = Suc n" by (simp add: slot_count_set)
  then show False using slot_count_le [of "P(i := True)" n] by simp
qed

lemma slot_count_0 [slot_simps]: "slot_count P n = 0 \<longleftrightarrow> (\<forall>i<n. \<not> P i)"
  by (auto simp: slot_count_card)

lemma slot_count_not: "slot_count (\<lambda>i. \<not> P i) n = n - slot_count P n"
proof -
  have "card {i. i < n \<and> \<not> P i} = card ({..<n} - {i. i < n \<and> P i})"
    by (rule arg_cong [where f = card]) auto
  also have "\<dots> = n - card {i. i < n \<and> P i}"
    by (subst card_Diff_subset) auto
  finally show ?thesis by (simp add: slot_count_card)
qed

subsection \<open>Lists\<close>

lemma count_image_ge: "count A x \<le> count (image_mset f A) (f x)"
  by (induction A) auto

lemma mset_takeWhile_dropWhile: "mset (takeWhile P xs) + mset (dropWhile P xs) = mset xs"
  by (metis mset_append takeWhile_dropWhile_id)

lemma sum_list_update2:
  fixes f :: "'x \<Rightarrow> 'y::comm_monoid_add"
  assumes "i < length xs" and "j < length xs" and "i \<noteq> j" and "f a + f b = f (xs ! i) + f (xs ! j)"
  shows "(\<Sum>x\<leftarrow>xs[i := a, j := b]. f x) = (\<Sum>x\<leftarrow>xs. f x)"
proof -
  let ?ys = "xs[i := a, j := b]" and ?N = "{0..<length xs}"
  have split: "(\<Sum>k\<in>?N. g k) = g i + g j + (\<Sum>k\<in>?N - {i} - {j}. g k)" for g :: "nat \<Rightarrow> 'y"
    using assms(1-3) by (simp add: sum.remove [of ?N i] sum.remove [of "?N - {i}" j] add.assoc)
  have "(\<Sum>k\<in>?N. f (?ys ! k)) = (\<Sum>k\<in>?N. f (xs ! k))"
    unfolding split using assms by (auto intro!: arg_cong2 [where f = "(+)"] sum.cong)
  then show ?thesis by (simp add: sum_list_sum_nth)
qed

subsection \<open>Machine integers\<close>

text \<open>
  \<open>int\<close> of the source is 32 bits wide. Conversions from a wider or unsigned type keep the
  low 32 bits, read as two's complement.
\<close>

definition int32 :: "int \<Rightarrow> int" where
  "int32 k = sint (word_of_int k :: 32 word)"

lemma int32_id: "- (2 ^ 31) \<le> k \<Longrightarrow> k < 2 ^ 31 \<Longrightarrow> int32 k = k"
  by (simp add: int32_def signed_of_int signed_take_bit_int_eq_self)

subsection \<open>Decimal numbers\<close>

definition digit :: "nat \<Rightarrow> char" where
  "digit d = char_of (48 + d)"

fun nat_string :: "nat \<Rightarrow> string" where
  "nat_string n = (if n < 10 then [digit n] else nat_string (n div 10) @ [digit (n mod 10)])"

declare nat_string.simps [simp del]

text \<open>\<open>std::to_string\<close> of an \<open>int\<close>.\<close>

definition int_string :: "int \<Rightarrow> string" where
  "int_string k = (if k < 0 then CHR ''-'' # nat_string (nat (- k)) else nat_string (nat k))"

lemma nat_string_ne [simp]: "nat_string n \<noteq> []"
  by (subst nat_string.simps) simp

subsection \<open>Strings for C functions\<close>

text \<open>\<open>std::string::c_str\<close> handed to a C function: it ends at the first null character.\<close>

definition c_str :: "string \<Rightarrow> string" where
  "c_str s = takeWhile (\<lambda>c. c \<noteq> CHR 0x00) s"

end
