(* ===== verification/Process_Types.thy ===== *)
theory Process_Types
  imports Prelude
begin

section \<open>Types shared by the components: task.hpp, process.hpp, flag.h\<close>

text \<open>
  The enumerations and structs of \<open>include/task.hpp\<close>, \<open>include/process.hpp\<close> and
  \<open>include/flag.h\<close>, and the status word of a process table with the three operations
  \<open>scheduler/sched.hpp\<close> defines on it.
\<close>

unbundle bit_operations_syntax

subsection \<open>flag.h\<close>

type_synonym Flag = bool

definition initFlag :: "bool \<Rightarrow> Flag" where
  "initFlag state = (if state then True else False)"

definition setFlag :: "Flag \<Rightarrow> Flag" where
  [simp]: "setFlag b = True"

definition resetFlag :: "Flag \<Rightarrow> Flag" where
  [simp]: "resetFlag b = False"

definition isFlagSet :: "Flag \<Rightarrow> bool" where
  "isFlagSet b = (if b then True else False)"

lemma flag_simps [simp]: "initFlag b = b" "isFlagSet b = b"
  by (simp_all add: initFlag_def isFlagSet_def)

subsection \<open>task.hpp\<close>

datatype JobStatus =
    JOB_RUNNING
  | JOB_PENDING
  | JOB_WAITING
  | JOB_FAILED
  | JOB_FINALIZED
  | JOB_DONE

text \<open>The enumerators' values, one bit each (\<open>1 << 0\<close> to \<open>1 << 5\<close>).\<close>

fun job_status_value :: "JobStatus \<Rightarrow> nat" where
  "job_status_value JOB_RUNNING = 1"
| "job_status_value JOB_PENDING = 2"
| "job_status_value JOB_WAITING = 4"
| "job_status_value JOB_FAILED = 8"
| "job_status_value JOB_FINALIZED = 16"
| "job_status_value JOB_DONE = 32"

datatype TaskPriority =
    NON_PREEMTABLE
  | HIGH_PRIORITY
  | MEDIUM_PRIORITY
  | LOW_PRIORITY

abbreviation DEFAULT_PRIORITY :: TaskPriority where
  "DEFAULT_PRIORITY \<equiv> LOW_PRIORITY"

abbreviation NR_TASK_PRIORITY :: TaskPriority where
  "NR_TASK_PRIORITY \<equiv> DEFAULT_PRIORITY"

fun priority_value :: "TaskPriority \<Rightarrow> nat" where
  "priority_value NON_PREEMTABLE = 0"
| "priority_value HIGH_PRIORITY = 1"
| "priority_value MEDIUM_PRIORITY = 2"
| "priority_value LOW_PRIORITY = 3"

lemma priority_value_inject [simp]: "priority_value p = priority_value q \<longleftrightarrow> p = q"
  by (cases p; cases q) simp_all

text \<open>\<open><\<close> on the enumeration compares the values, so the most urgent priority is the least.\<close>

instantiation TaskPriority :: linorder
begin

definition less_eq_TaskPriority :: "TaskPriority \<Rightarrow> TaskPriority \<Rightarrow> bool" where
  "less_eq_TaskPriority p q \<longleftrightarrow> priority_value p \<le> priority_value q"

definition less_TaskPriority :: "TaskPriority \<Rightarrow> TaskPriority \<Rightarrow> bool" where
  "less_TaskPriority p q \<longleftrightarrow> priority_value p < priority_value q"

instance
  by standard (auto simp: less_eq_TaskPriority_def less_TaskPriority_def)

end

lemmas priority_order_defs = less_eq_TaskPriority_def less_TaskPriority_def

lemma NON_PREEMTABLE_least [simp]: "NON_PREEMTABLE \<le> p"
  by (simp add: priority_order_defs)

lemma not_less_NON_PREEMTABLE [simp]: "\<not> p < NON_PREEMTABLE"
  by (simp add: priority_order_defs)

lemma LOW_PRIORITY_greatest [simp]: "p \<le> LOW_PRIORITY"
  by (cases p) (simp_all add: priority_order_defs)

subsection \<open>process.hpp\<close>

text \<open>
  \<open>ProcessType\<close> is kept as its value: a struct whose initialiser leaves the field out holds
  0, which is no enumerator.
\<close>

definition RECEIVER_STAGE :: nat where [simp]: "RECEIVER_STAGE = 1"
definition DATAPROCESSOR_STAGE :: nat where [simp]: "DATAPROCESSOR_STAGE = 2"
definition COMPUTE_STAGE :: nat where [simp]: "COMPUTE_STAGE = 4"
definition NR_PROCESS :: nat where [simp]: "NR_PROCESS = 5"

text \<open>
  The four function pointers of a stage, \<open>None\<close> for a null pointer. A stage function gets
  its argument bundle (\<open>'a\<close>, what the \<open>void *\<close> points to is part of the world \<open>'w\<close>) and
  the world, and returns the new one. The handlers that end a stage may submit further
  stages; the calls of \<open>scheduleTask\<close> they make are returned in order, as
  (stage, argument bundle, priority), and made by the caller. \<open>'p\<close> identifies a stage
  struct, as its address does in the source.
\<close>

type_synonym ('p, 'a) submission = "'p option \<times> 'a option \<times> TaskPriority"

record ('p, 'a, 'w) ProcessStates =
  ps_type :: nat
  start_proc :: "('a option \<Rightarrow> 'w \<Rightarrow> (JobStatus \<times> 'w) result) option"
  pause_proc :: "('a option \<Rightarrow> 'w \<Rightarrow> (JobStatus \<times> 'w) result) option"
  end_proc :: "('a option \<Rightarrow> 'w \<Rightarrow> ('w \<times> ('p, 'a) submission list) result) option"
  fail_proc :: "('a option \<Rightarrow> 'w \<Rightarrow> ('w \<times> ('p, 'a) submission list) result) option"

record ('p, 'a) ProcessTable =
  pid :: "64 word"
  processState :: "'p option"
  pt_args :: "'a option"
  jobStatus :: "64 word"
  pt_priority :: TaskPriority

text \<open>\<open>new ProcessTable()\<close> value-initialises: every member is zero.\<close>

definition new_ProcessTable :: "('p, 'a) ProcessTable" where
  "new_ProcessTable = \<lparr>pid = 0, processState = None, pt_args = None, jobStatus = 0,
     pt_priority = NON_PREEMTABLE\<rparr>"

record TableMetadata =
  md_rows :: "64 word"
  md_columns :: "64 word"
  currentRow :: "64 word"
  currentColumn :: "64 word"

record TableData =
  metadata :: TableMetadata
  tableID :: string
  td_priority :: TaskPriority
  instanceType :: string

definition new_TableMetadata :: "64 word \<Rightarrow> 64 word \<Rightarrow> TableMetadata" where
  "new_TableMetadata row col = \<lparr>md_rows = row, md_columns = col, currentRow = 0, currentColumn = 0\<rparr>"

subsection \<open>The status word of a job (sched.hpp)\<close>

definition job_bit :: "JobStatus \<Rightarrow> 64 word" where
  "job_bit status = of_nat (job_status_value status)"

definition status_set :: "JobStatus \<Rightarrow> 64 word \<Rightarrow> 64 word" where
  "status_set status w = w OR job_bit status"

definition status_isset :: "JobStatus \<Rightarrow> 64 word \<Rightarrow> bool" where
  "status_isset status w = (if job_bit status AND w \<noteq> 0 then True else False)"

text \<open>
  \<open>jobStatus &= ~(1 << status)\<close> shifts by the enumerator's value, not by its bit number:
  shifting the 32-bit \<open>int\<close> 1 by 32 is undefined.
\<close>

definition status_reset :: "JobStatus \<Rightarrow> 64 word \<Rightarrow> (64 word) result" where
  "status_reset status w =
     (if job_status_value status \<ge> 32 then Inl ShiftOverflow
      else Inr (w AND NOT (push_bit (job_status_value status) 1)))"

lemma job_bit_simps [simp]:
  "job_bit JOB_RUNNING = 1" "job_bit JOB_PENDING = 2" "job_bit JOB_WAITING = 4"
  "job_bit JOB_FAILED = 8" "job_bit JOB_FINALIZED = 16" "job_bit JOB_DONE = 32"
  by (simp_all add: job_bit_def)

text \<open>The number of the one bit a status occupies.\<close>

fun job_bit_number :: "JobStatus \<Rightarrow> nat" where
  "job_bit_number JOB_RUNNING = 0"
| "job_bit_number JOB_PENDING = 1"
| "job_bit_number JOB_WAITING = 2"
| "job_bit_number JOB_FAILED = 3"
| "job_bit_number JOB_FINALIZED = 4"
| "job_bit_number JOB_DONE = 5"

lemma job_bit_number_inject [simp]: "job_bit_number s = job_bit_number t \<longleftrightarrow> s = t"
  by (cases s; cases t) simp_all

lemma job_bit_exp: "job_bit s = 2 ^ job_bit_number s"
  by (cases s) (simp_all add: job_bit_def)

lemma job_bit_number_less: "job_bit_number s < 64"
  by (cases s) simp_all

lemma bit_job_bit: "bit (job_bit s) n \<longleftrightarrow> n = job_bit_number s"
  using job_bit_number_less [of s] by (auto simp: job_bit_exp bit_exp_iff possible_bit_word)

lemma status_isset_bit: "status_isset s w \<longleftrightarrow> bit w (job_bit_number s)"
  by (simp add: status_isset_def job_bit_exp and_exp_eq_0_iff_not_bit and.commute [of "2 ^ _" w])

lemma status_isset_set [simp]: "status_isset s (status_set t w) \<longleftrightarrow> s = t \<or> status_isset s w"
  by (auto simp: status_isset_bit status_set_def bit_or_iff bit_job_bit)

lemma status_isset_0 [simp]: "\<not> status_isset s 0"
  by (simp add: status_isset_bit)

end
