(* ===== verification/Forward_Stack.thy ===== *)
theory Forward_Stack
  imports Process_Types
begin

section \<open>The outgoing packets: sender\_proc/forward\_stack.hpp and forward\_stack.cpp\<close>

text \<open>
  \<open>ForwardStack\<close> holds the packets that wait to be sent, \<open>AwaitStack\<close> the packets that were
  sent and that the server has to acknowledge. Both guard their state by a semaphore, and the
  await stack calls one guarded method from another, so the semaphores are part of the state:
  waiting for a semaphore that is 0 and that nobody else will post is \<open>Blocked\<close>.

  Packages are allocated by \<open>push\<close> and owned by one list or slot at a time, so they are kept
  by value; a slot of the await stack whose package has been deleted holds \<open>None\<close>.
\<close>

datatype SenderDataType =
    RECV_ERR | RESET_TIMER | DAT_ERR | DAT_RECVD | INTR_SEND | FRES_SEND | SEIZE | DAT_NULL

definition SP_INTR_ACK :: int where "SP_INTR_ACK = 4"
definition SP_FRES_ACK :: int where "SP_FRES_ACK = 8"

definition TOTAL_DIFFRED_PACKETS :: nat where [simp]: "TOTAL_DIFFRED_PACKETS = 6"

record ForwardStackPackage =
  fp_statusCode :: SenderDataType
  fp_priority :: int
  fp_tableID :: string
  fp_data :: string

record AwaitStackPackage =
  fwd_element :: "ForwardStackPackage option"
  itemAcked :: bool

record AwaitStack =
  aw_lock :: nat
  awaitSlot :: "nat \<Rightarrow> AwaitStackPackage option"
  aw_index :: "8 word"
  ackedPackets :: "8 word"

record ForwardStack =
  fs_lock :: nat
  senderStack :: "ForwardStackPackage list"
  awaitStack :: AwaitStack

subsection \<open>Semaphores\<close>

definition sem_wait :: "nat \<Rightarrow> nat result" where
  "sem_wait n = (if n = 0 then Inl Blocked else Inr (n - 1))"

definition sem_post :: "nat \<Rightarrow> nat" where
  "sem_post n = Suc n"

lemma sem_wait_simps [simp]: "sem_wait 0 = Inl Blocked" "sem_wait (Suc n) = Inr n"
  by (simp_all add: sem_wait_def)

lemma sem_post_simps [simp]: "sem_post n = Suc n"
  by (simp add: sem_post_def)

subsection \<open>Packages\<close>

definition new_package :: ForwardStackPackage where
  "new_package = \<lparr>fp_statusCode = DAT_NULL, fp_priority = int (priority_value DEFAULT_PRIORITY),
     fp_tableID = '''', fp_data = ''''\<rparr>"

definition copyPointerObject :: "ForwardStackPackage \<Rightarrow> ForwardStackPackage \<Rightarrow> ForwardStackPackage" where
  "copyPointerObject item p = p\<lparr>fp_statusCode := fp_statusCode item, fp_priority := fp_priority item,
     fp_tableID := fp_tableID item, fp_data := fp_data item\<rparr>"

definition package_isEmpty :: "ForwardStackPackage \<Rightarrow> bool" where
  "package_isEmpty p \<longleftrightarrow> fp_statusCode p = DAT_NULL"

lemma copyPointerObject_eq [simp]: "copyPointerObject item (p :: ForwardStackPackage) = item"
  by (simp add: copyPointerObject_def)

subsection \<open>The await stack\<close>

text \<open>The stack is a member of a global object, so its slots start as null pointers.\<close>

definition new_AwaitStack :: AwaitStack where
  "new_AwaitStack = \<lparr>aw_lock = 1, awaitSlot = (\<lambda>_. None), aw_index = 0, ackedPackets = 0\<rparr>"

definition await_push :: "ForwardStackPackage \<Rightarrow> AwaitStack \<Rightarrow> (int \<times> AwaitStack) result" where
  "await_push item s =
     (if unat (aw_index s) \<ge> TOTAL_DIFFRED_PACKETS then Inr (- 1, s)
      else bindR (sem_wait (aw_lock s)) (\<lambda>l.
        let awtItem = \<lparr>fwd_element = Some item, itemAcked = False\<rparr> in
        Inr (0, s\<lparr>awaitSlot := (awaitSlot s)(unat (aw_index s) := Some awtItem),
                  aw_index := aw_index s + 1, aw_lock := sem_post l\<rparr>)))"

text \<open>The loop of \<open>purge\<close>, over the indices up to and including \<open>TOTAL_DIFFRED_PACKETS\<close>.\<close>

fun purge_loop :: "nat list \<Rightarrow> AwaitStack \<Rightarrow> AwaitStack result" where
  "purge_loop [] s = Inr s"
| "purge_loop (i # is) s =
     (if i \<ge> TOTAL_DIFFRED_PACKETS then Inl OutOfRange
      else (case awaitSlot s i of
          None \<Rightarrow> Inl NullPointer
        | Some a \<Rightarrow>
            if fwd_element a = None then Inl UseAfterFree
            else purge_loop is (s\<lparr>awaitSlot := (awaitSlot s)(i \<mapsto> a\<lparr>fwd_element := None, itemAcked := False\<rparr>),
                   ackedPackets := 0, aw_index := 0\<rparr>)))"

definition purge :: "AwaitStack \<Rightarrow> AwaitStack result" where
  "purge s =
     bindR (sem_wait (aw_lock s)) (\<lambda>l.
     bindR (purge_loop [0..<TOTAL_DIFFRED_PACKETS + 1] (s\<lparr>aw_lock := l\<rparr>)) (\<lambda>s'.
       Inr (s'\<lparr>aw_lock := sem_post (aw_lock s')\<rparr>)))"

text \<open>How the search of \<open>matchItem\<close> ends.\<close>

datatype match_outcome = Acked nat | UnknownStatus | NoMatch

fun match_loop :: "int \<Rightarrow> string \<Rightarrow> AwaitStack \<Rightarrow> nat list \<Rightarrow> match_outcome result" where
  "match_loop statusCode tid s [] = Inr NoMatch"
| "match_loop statusCode tid s (i # is) =
     (case awaitSlot s i of
        None \<Rightarrow> match_loop statusCode tid s is
      | Some a \<Rightarrow>
          (case fwd_element a of
             None \<Rightarrow> Inl UseAfterFree
           | Some p \<Rightarrow>
               if fp_tableID p = tid
               then if statusCode = SP_INTR_ACK
                    then if fp_statusCode p = INTR_SEND \<and> \<not> itemAcked a then Inr (Acked i)
                         else match_loop statusCode tid s is
                    else if statusCode = SP_FRES_ACK
                    then if fp_statusCode p = FRES_SEND \<and> \<not> itemAcked a then Inr (Acked i)
                         else match_loop statusCode tid s is
                    else Inr UnknownStatus
               else match_loop statusCode tid s is))"

definition matchItem :: "int \<Rightarrow> string \<Rightarrow> AwaitStack \<Rightarrow> (int \<times> AwaitStack) result" where
  "matchItem statusCode tid s =
     bindR (sem_wait (aw_lock s)) (\<lambda>l.
       let s1 = s\<lparr>aw_lock := l\<rparr> in
       bindR (match_loop statusCode tid s1 [0..<TOTAL_DIFFRED_PACKETS]) (\<lambda>r.
         (case r of
            UnknownStatus \<Rightarrow> Inr (- 1, s1\<lparr>aw_lock := sem_post l\<rparr>)
          | NoMatch \<Rightarrow> Inr (- 1, s1\<lparr>aw_lock := sem_post l\<rparr>)
          | Acked i \<Rightarrow>
              (let s2 = s1\<lparr>awaitSlot := (awaitSlot s1)(i := map_option (\<lambda>a. a\<lparr>itemAcked := True\<rparr>) (awaitSlot s1 i)),
                           ackedPackets := ackedPackets s1 + 1\<rparr>
               in bindR (if unat (ackedPackets s2) = TOTAL_DIFFRED_PACKETS then purge s2 else Inr s2) (\<lambda>s3.
                  Inr (0, s3\<lparr>aw_lock := sem_post (aw_lock s3)\<rparr>))))))"

definition isFree :: "AwaitStack \<Rightarrow> bool" where
  "isFree s \<longleftrightarrow> unat (aw_index s) \<le> TOTAL_DIFFRED_PACKETS"

subsection \<open>The forward stack\<close>

definition new_ForwardStack :: ForwardStack where
  "new_ForwardStack = \<lparr>fs_lock = 1, senderStack = [], awaitStack = new_AwaitStack\<rparr>"

definition make_package :: "string \<Rightarrow> string \<Rightarrow> SenderDataType \<Rightarrow> int \<Rightarrow> ForwardStackPackage" where
  "make_package dat tid statusCode prio =
     new_package\<lparr>fp_statusCode := statusCode, fp_priority := prio, fp_data := dat, fp_tableID := tid\<rparr>"

definition push :: "string \<Rightarrow> string \<Rightarrow> SenderDataType \<Rightarrow> int \<Rightarrow> ForwardStack \<Rightarrow> (int \<times> ForwardStack) result" where
  "push dat tid statusCode prio fs =
     bindR (sem_wait (fs_lock fs)) (\<lambda>l.
       Inr (0, fs\<lparr>senderStack := senderStack fs @ [make_package dat tid statusCode prio], fs_lock := sem_post l\<rparr>))"

definition pushFront :: "string \<Rightarrow> string \<Rightarrow> SenderDataType \<Rightarrow> int \<Rightarrow> ForwardStack \<Rightarrow> (int \<times> ForwardStack) result" where
  "pushFront dat tid statusCode prio fs =
     bindR (sem_wait (fs_lock fs)) (\<lambda>l.
       Inr (0, fs\<lparr>senderStack := make_package dat tid statusCode prio # senderStack fs, fs_lock := sem_post l\<rparr>))"

text \<open>
  \<open>statusCode != INTR_SEND || statusCode != FRES_SEND\<close> is true for every item, so the loop
  of \<open>getNonackableItem\<close> takes the first one.
\<close>

fun nonackable_loop :: "ForwardStackPackage list \<Rightarrow> (ForwardStackPackage \<times> ForwardStackPackage list) option" where
  "nonackable_loop [] = None"
| "nonackable_loop (item # rest) =
     (if fp_statusCode item \<noteq> INTR_SEND \<or> fp_statusCode item \<noteq> FRES_SEND then Some (item, rest)
      else map_option (\<lambda>(x, r). (x, item # r)) (nonackable_loop rest))"

definition getNonackableItem :: "ForwardStack \<Rightarrow> (ForwardStackPackage option \<times> ForwardStack) result" where
  "getNonackableItem fs =
     bindR (sem_wait (fs_lock fs)) (\<lambda>l.
       (case nonackable_loop (senderStack fs) of
          Some (item, rest) \<Rightarrow> Inr (Some item, fs\<lparr>senderStack := rest, fs_lock := sem_post l\<rparr>)
        | None \<Rightarrow> Inr (None, fs\<lparr>fs_lock := sem_post l\<rparr>)))"

definition popForwardStack :: "ForwardStack \<Rightarrow> (ForwardStackPackage \<times> ForwardStack) result" where
  "popForwardStack fs =
     (case senderStack fs of
        [] \<Rightarrow> Inr (new_package, fs)
      | item # rest \<Rightarrow>
          bindR (sem_wait (fs_lock fs)) (\<lambda>l.
            let fs1 = fs\<lparr>fs_lock := l\<rparr> in
            if fp_statusCode item = INTR_SEND \<or> fp_statusCode item = FRES_SEND
            then if isFree (awaitStack fs1)
                 then bindR (await_push item (awaitStack fs1)) (\<lambda>(_, aw).
                        Inr (copyPointerObject item new_package,
                             fs1\<lparr>senderStack := rest, awaitStack := aw, fs_lock := sem_post l\<rparr>))
                 else bindR (getNonackableItem fs1) (\<lambda>(it, fs2).
                        (case it of
                           None \<Rightarrow> Inl NullPointer
                         | Some x \<Rightarrow> Inr (copyPointerObject x new_package, fs2\<lparr>fs_lock := sem_post (fs_lock fs2)\<rparr>)))
            else Inr (copyPointerObject item new_package, fs1\<lparr>senderStack := rest, fs_lock := sem_post l\<rparr>)))"

definition fwd_size :: "ForwardStack \<Rightarrow> nat" where
  "fwd_size fs = length (senderStack fs)"

text \<open>\<open>size() < 0\<close> on an unsigned type.\<close>

definition fwd_isEmpty :: "ForwardStack \<Rightarrow> int" where
  "fwd_isEmpty fs = (if (of_nat (length (senderStack fs)) :: 64 word) < 0 then 0 else 1)"

lemma fwd_isEmpty_1 [simp]: "fwd_isEmpty fs = 1"
  by (simp add: fwd_isEmpty_def)

subsection \<open>The invariant of the await stack\<close>

definition acked_slots :: "AwaitStack \<Rightarrow> nat set" where
  "acked_slots s = {i. i < 6 \<and> (\<exists>a. awaitSlot s i = Some a \<and> itemAcked a)}"

definition ackable :: "ForwardStackPackage \<Rightarrow> bool" where
  "ackable p \<longleftrightarrow> fp_statusCode p = INTR_SEND \<or> fp_statusCode p = FRES_SEND"

text \<open>The packages in the slots, in the order they were sent.\<close>

definition tracked :: "AwaitStack \<Rightarrow> ForwardStackPackage list" where
  "tracked s = map (\<lambda>i. the (fwd_element (the (awaitSlot s i)))) [0..<unat (aw_index s)]"

definition await_inv :: "AwaitStack \<Rightarrow> bool" where
  "await_inv s \<longleftrightarrow> aw_lock s = 1 \<and> unat (aw_index s) \<le> 6 \<and>
     (\<forall>i<6. i < unat (aw_index s) \<longrightarrow>
        (\<exists>a p. awaitSlot s i = Some a \<and> fwd_element a = Some p \<and> ackable p)) \<and>
     (\<forall>i<6. unat (aw_index s) \<le> i \<longrightarrow> awaitSlot s i = None) \<and>
     unat (ackedPackets s) = card (acked_slots s) \<and> card (acked_slots s) < 6"

lemma await_inv_new: "await_inv new_AwaitStack"
  by (simp add: await_inv_def new_AwaitStack_def acked_slots_def)

lemma await_slot:
  assumes "await_inv s" and "i < 6" and "awaitSlot s i = Some a"
  obtains p where "fwd_element a = Some p" and "ackable p" and "i < unat (aw_index s)"
  using assms unfolding await_inv_def by (metis not_le option.distinct(1) option.inject)

lemma finite_acked [simp]: "finite (acked_slots s)"
  by (simp add: acked_slots_def)

lemma aw_lock_same: "aw_lock s = 1 \<Longrightarrow> s\<lparr>aw_lock := Suc 0\<rparr> = (s :: AwaitStack)"
  by (cases s) simp

text \<open>Slot \<open>i\<close> waits for an acknowledgement of this kind for this table.\<close>

definition awaits :: "int \<Rightarrow> string \<Rightarrow> AwaitStack \<Rightarrow> nat \<Rightarrow> bool" where
  "awaits code tid s i =
     (case awaitSlot s i of
        None \<Rightarrow> False
      | Some a \<Rightarrow> (case fwd_element a of
            None \<Rightarrow> False
          | Some p \<Rightarrow> fp_tableID p = tid \<and> \<not> itemAcked a \<and>
              (code = SP_INTR_ACK \<and> fp_statusCode p = INTR_SEND \<or>
               code = SP_FRES_ACK \<and> fp_statusCode p = FRES_SEND)))"

lemma match_loop_spec:
  assumes "await_inv s" and "set is \<subseteq> {..<6}"
  shows "match_loop code tid (s\<lparr>aw_lock := l\<rparr>) is =
           Inr (case List.find (awaits code tid s) is of None \<Rightarrow> NoMatch | Some i \<Rightarrow> Acked i) \<or>
         match_loop code tid (s\<lparr>aw_lock := l\<rparr>) is = Inr UnknownStatus \<and>
           List.find (awaits code tid s) is = None"
  using assms(2)
proof (induction "is")
  case (Cons i "is")
  show ?case
  proof (cases "awaitSlot s i")
    case None
    then show ?thesis using Cons by (simp add: awaits_def)
  next
    case (Some a)
    then obtain p where p: "fwd_element a = Some p"
      using assms(1) Cons.prems by (auto elim: await_slot)
    have unknown: "List.find (awaits code tid s) is = None" if "code \<noteq> SP_INTR_ACK" "code \<noteq> SP_FRES_ACK"
      using that by (auto simp: find_None_iff awaits_def split: option.splits)
    have here: "awaits code tid s i \<longleftrightarrow> fp_tableID p = tid \<and> \<not> itemAcked a \<and>
        (code = SP_INTR_ACK \<and> fp_statusCode p = INTR_SEND \<or> code = SP_FRES_ACK \<and> fp_statusCode p = FRES_SEND)"
      using Some p by (simp add: awaits_def)
    have codes: "SP_INTR_ACK \<noteq> SP_FRES_ACK" by (simp add: SP_INTR_ACK_def SP_FRES_ACK_def)
    show ?thesis
      using Cons Some p unknown here codes by auto
  qed
qed simp

lemma awaits_slot:
  assumes "awaits code tid s i"
  obtains a where "awaitSlot s i = Some a" and "\<not> itemAcked a"
  using assms by (auto simp: awaits_def split: option.splits)

lemma purge_loop_fails: "j \<le> 6 \<Longrightarrow> \<exists>e. purge_loop [j..<7] s = Inl e"
proof (induction "7 - j" arbitrary: j s)
  case (Suc n)
  have "[j..<7] = j # [Suc j..<7]" using Suc.prems by (intro upt_conv_Cons) simp
  then show ?case
    using Suc.hyps(1) [of "Suc j"] Suc.hyps(2) Suc.prems by (auto split: option.split)
qed simp

text \<open>\<open>purge\<close>, which is meant to empty the await stack once all its packets are
  acknowledged, cannot return from any state: it waits for the semaphore its caller holds,
  and if it got past that, its loop would run over the end of the array.\<close>

theorem purge_never_returns: "\<exists>e. purge s = Inl e"
proof (cases "aw_lock s")
  case (Suc l)
  have "[0..<TOTAL_DIFFRED_PACKETS + 1] = [0..<7]" by simp
  then show ?thesis
    using purge_loop_fails [of 0 "s\<lparr>aw_lock := l\<rparr>"] Suc unfolding purge_def by auto
qed (simp add: purge_def)

lemma purge_blocked: "aw_lock s = 0 \<Longrightarrow> purge s = Inl Blocked"
  by (simp add: purge_def)

lemma acked_slots_ack:
  assumes "i < 6" and "awaitSlot s i = Some a"
    and "awaitSlot s' = (awaitSlot s)(i := Some (a\<lparr>itemAcked := True\<rparr>))"
  shows "acked_slots s' = insert i (acked_slots s)"
  using assms by (auto simp: acked_slots_def)

lemma ackedPackets_step:
  assumes "await_inv s"
  shows "unat (ackedPackets s + 1) = Suc (card (acked_slots s))"
proof -
  have "unat (ackedPackets s) < 6" using assms by (simp add: await_inv_def)
  then show ?thesis using assms by (simp add: unat_word_ariths await_inv_def)
qed

text \<open>The state after slot \<open>i\<close> has been acknowledged.\<close>

definition ack_slot :: "nat \<Rightarrow> AwaitStack \<Rightarrow> AwaitStack" where
  "ack_slot i s = s\<lparr>awaitSlot := (awaitSlot s)(i := map_option (\<lambda>a. a\<lparr>itemAcked := True\<rparr>) (awaitSlot s i)),
     ackedPackets := ackedPackets s + 1\<rparr>"

lemma matchItem_cases:
  assumes "await_inv s"
  shows "matchItem code tid s =
    (case first_slot (awaits code tid s) 6 of
       None \<Rightarrow> Inr (- 1, s)
     | Some i \<Rightarrow> if card (acked_slots s) = 5 then Inl Blocked else Inr (0, ack_slot i s))"
proof -
  have lock: "aw_lock s = Suc 0" using assms by (simp add: await_inv_def)
  note step = ackedPackets_step [OF assms]
  have loop: "match_loop code tid (s\<lparr>aw_lock := 0\<rparr>) [0..<6] =
        Inr (case first_slot (awaits code tid s) 6 of None \<Rightarrow> NoMatch | Some i \<Rightarrow> Acked i) \<or>
      match_loop code tid (s\<lparr>aw_lock := 0\<rparr>) [0..<6] = Inr UnknownStatus \<and>
        first_slot (awaits code tid s) 6 = None"
    unfolding first_slot_def using assms by (rule match_loop_spec) auto
  show ?thesis
  proof (cases "first_slot (awaits code tid s) 6")
    case None
    then show ?thesis using loop lock by (auto simp: matchItem_def aw_lock_same)
  next
    case (Some i)
    then show ?thesis
      using loop lock step by (auto simp: matchItem_def ack_slot_def purge_blocked aw_lock_same Let_def)
  qed
qed

text \<open>C30: On an await stack in order, \<open>matchItem\<close> answers -1 and changes nothing unless a
  sent packet of that table and kind is still unacknowledged; it acknowledges the first such
  packet and returns 0, except when this is the sixth acknowledgement: then it calls \<open>purge\<close>
  while holding the semaphore that \<open>purge\<close> waits for, and never returns.\<close>

theorem matchItem_outcome:
  assumes "await_inv s"
  shows "matchItem code tid s =
    (case first_slot (awaits code tid s) 6 of
       None \<Rightarrow> Inr (- 1, s)
     | Some i \<Rightarrow> if card (acked_slots s) = 5 then Inl Blocked else Inr (0, ack_slot i s))"
  using assms by (rule matchItem_cases)

lemma ack_slot_inv:
  assumes inv: "await_inv s" and slot: "first_slot (awaits code tid s) 6 = Some i"
    and few: "card (acked_slots s) \<noteq> 5"
  shows "await_inv (ack_slot i s)" and "card (acked_slots (ack_slot i s)) = Suc (card (acked_slots s))"
proof -
  have i: "i < 6" "awaits code tid s i" using first_slot_SomeD [OF slot] by auto
  then obtain a where a: "awaitSlot s i = Some a" "\<not> itemAcked a" by (auto elim: awaits_slot)
  have "acked_slots (ack_slot i s) = insert i (acked_slots s)"
    by (rule acked_slots_ack [OF i(1) a(1)]) (simp add: ack_slot_def a)
  moreover have "i \<notin> acked_slots s" using a by (simp add: acked_slots_def)
  ultimately show card: "card (acked_slots (ack_slot i s)) = Suc (card (acked_slots s))" by simp
  obtain p where "fwd_element a = Some p" "ackable p" "i < unat (aw_index s)"
    using inv i(1) a(1) by (rule await_slot)
  moreover have "unat (ackedPackets (ack_slot i s)) = Suc (card (acked_slots s))"
    using ackedPackets_step [OF inv] by (simp add: ack_slot_def)
  ultimately show "await_inv (ack_slot i s)"
    using inv card few a(1) unfolding await_inv_def by (auto simp: ack_slot_def)
qed

lemma tracked_ack_slot:
  assumes "await_inv s" shows "tracked (ack_slot i s) = tracked s"
proof -
  have "awaitSlot s k \<noteq> None" if "k < unat (aw_index s)" for k
  proof -
    have "k < 6" using assms that by (simp add: await_inv_def)
    then have "\<exists>a p. awaitSlot s k = Some a \<and> fwd_element a = Some p \<and> ackable p"
      using assms that unfolding await_inv_def by blast
    then show ?thesis by auto
  qed
  then have "\<forall>k \<in> set [0..<unat (aw_index s)]. awaitSlot s k \<noteq> None" by simp
  then show ?thesis by (cases "awaitSlot s i") (fastforce simp: tracked_def ack_slot_def)+
qed

lemma await_push_spec:
  assumes inv: "await_inv s" and p: "ackable p"
  shows "\<exists>rc s'. await_push p s = Inr (rc, s') \<and> await_inv s' \<and> acked_slots s' = acked_slots s \<and>
     (if length (tracked s) = 6 then rc = - 1 \<and> s' = s else rc = 0 \<and> tracked s' = tracked s @ [p])"
proof (cases "unat (aw_index s) \<ge> 6")
  case True
  then show ?thesis using inv by (auto simp: await_push_def tracked_def await_inv_def)
next
  case False
  let ?i = "unat (aw_index s)"
  let ?s = "s\<lparr>awaitSlot := (awaitSlot s)(?i := Some \<lparr>fwd_element = Some p, itemAcked = False\<rparr>),
      aw_index := aw_index s + 1\<rparr>"
  have push: "await_push p s = Inr (0, ?s)"
    using False inv aw_lock_same [of ?s] by (simp add: await_push_def await_inv_def)
  have index: "unat (aw_index ?s) = Suc ?i" using False by (simp add: unat_word_ariths)
  have none: "awaitSlot s ?i = None" using False inv by (simp add: await_inv_def)
  have acked: "acked_slots ?s = acked_slots s"
    using none by (auto simp: acked_slots_def)
  have "await_inv ?s"
    using inv index acked False p unfolding await_inv_def by (auto simp: less_Suc_eq)
  moreover have "tracked ?s = tracked s @ [p]"
    unfolding tracked_def index by simp
  ultimately show ?thesis using push acked False by (simp add: tracked_def)
qed

subsection \<open>The invariant of the forward stack\<close>

definition fs_inv :: "ForwardStack \<Rightarrow> bool" where
  "fs_inv fs \<longleftrightarrow> fs_lock fs = 1 \<and> await_inv (awaitStack fs)"

lemma fs_inv_new: "fs_inv new_ForwardStack"
  by (simp add: fs_inv_def new_ForwardStack_def await_inv_new)

lemma fs_lock_same: "fs_lock fs = 1 \<Longrightarrow> fs\<lparr>fs_lock := Suc 0\<rparr> = (fs :: ForwardStack)"
  by (cases fs) simp

lemma push_eq:
  "fs_inv fs \<Longrightarrow> push dat tid st prio fs = Inr (0, fs\<lparr>senderStack := senderStack fs @ [make_package dat tid st prio]\<rparr>)"
  "fs_inv fs \<Longrightarrow> pushFront dat tid st prio fs = Inr (0, fs\<lparr>senderStack := make_package dat tid st prio # senderStack fs\<rparr>)"
  using fs_lock_same [of "fs\<lparr>senderStack := xs\<rparr>" for xs]
  by (auto simp: fs_inv_def push_def pushFront_def)

lemma isFree_inv: "await_inv s \<Longrightarrow> isFree s"
  by (simp add: await_inv_def isFree_def)

text \<open>On a stack in order \<open>popForwardStack\<close> always returns and hands out the first waiting
  packet, a blank one when none waits. A result packet is recorded for acknowledgement, but
  only while fewer than six have been: the seventh and every later one is sent and forgotten,
  because \<open>isFree\<close> still reports a free slot. The branch for packets without acknowledgement
  is never taken.\<close>

theorem popForwardStack_outcome:
  assumes "fs_inv fs"
  shows "\<exists>p fs'. popForwardStack fs = Inr (p, fs') \<and> fs_inv fs' \<and>
     acked_slots (awaitStack fs') = acked_slots (awaitStack fs) \<and>
     (case senderStack fs of
        [] \<Rightarrow> p = new_package \<and> fs' = fs
      | item # rest \<Rightarrow> p = item \<and> senderStack fs' = rest \<and>
          tracked (awaitStack fs') = tracked (awaitStack fs) @
            (if ackable item \<and> length (tracked (awaitStack fs)) < 6 then [item] else []))"
proof (cases "senderStack fs")
  case Nil
  then show ?thesis using assms by (simp add: popForwardStack_def)
next
  case (Cons item rest)
  have inv: "await_inv (awaitStack fs)" and lock: "fs_lock fs = Suc 0"
    using assms by (simp_all add: fs_inv_def)
  have le: "length (tracked (awaitStack fs)) \<le> 6" using inv by (simp add: tracked_def await_inv_def)
  show ?thesis
  proof (cases "ackable item")
    case False
    then show ?thesis
      using Cons inv lock by (simp add: popForwardStack_def ackable_def fs_inv_def)
  next
    case True
    obtain rc aw where "await_push item (awaitStack fs) = Inr (rc, aw)" "await_inv aw"
        "acked_slots aw = acked_slots (awaitStack fs)"
        "if length (tracked (awaitStack fs)) = 6 then rc = - 1 \<and> aw = awaitStack fs
         else rc = 0 \<and> tracked aw = tracked (awaitStack fs) @ [item]"
      using await_push_spec [OF inv True] by blast
    then show ?thesis
      using Cons lock le True isFree_inv [OF inv]
      by (simp add: popForwardStack_def ackable_def fs_inv_def Let_def split: if_splits)
  qed
qed

subsection \<open>Concrete packets\<close>

definition result_packet :: ForwardStackPackage where
  "result_packet = make_package ''1,2'' ''T1'' FRES_SEND 1"

definition one_sent :: AwaitStack where
  "one_sent = new_AwaitStack\<lparr>awaitSlot := [0 \<mapsto> \<lparr>fwd_element = Some result_packet, itemAcked = False\<rparr>], aw_index := 1\<rparr>"

lemma one_sent_acked: "acked_slots one_sent = {}"
  by (auto simp: acked_slots_def one_sent_def new_AwaitStack_def split: if_splits)

lemma one_sent_inv: "await_inv one_sent"
  unfolding await_inv_def one_sent_acked
  by (auto simp: one_sent_def new_AwaitStack_def ackable_def result_packet_def make_package_def)

theorem popForwardStack_outcome_witness:
  "\<exists>fs'. popForwardStack (new_ForwardStack\<lparr>senderStack := [result_packet]\<rparr>) = Inr (result_packet, fs') \<and>
     senderStack fs' = [] \<and> tracked (awaitStack fs') = [result_packet]"
proof -
  let ?fs = "new_ForwardStack\<lparr>senderStack := [result_packet]\<rparr>"
  have inv: "fs_inv ?fs" using fs_inv_new by (simp add: fs_inv_def)
  have none: "tracked (awaitStack ?fs) = []"
    by (simp add: tracked_def new_ForwardStack_def new_AwaitStack_def)
  have "ackable result_packet" by (simp add: ackable_def result_packet_def make_package_def)
  with popForwardStack_outcome [OF inv] none show ?thesis by auto
qed

theorem matchItem_outcome_witness:
  "matchItem SP_FRES_ACK ''T1'' one_sent = Inr (0, ack_slot 0 one_sent)"
proof -
  have "awaits SP_FRES_ACK ''T1'' one_sent 0"
    by (simp add: awaits_def one_sent_def result_packet_def make_package_def new_package_def)
  then have "first_slot (awaits SP_FRES_ACK ''T1'' one_sent) 6 = Some 0"
    by (simp add: first_slot_def upt_rec)
  moreover have "card (acked_slots one_sent) \<noteq> 5"
    by (simp add: one_sent_acked)
  ultimately show ?thesis using matchItem_outcome [OF one_sent_inv, of SP_FRES_ACK "''T1''"] by simp
qed

end
