(* ===== verification/Socket_State.thy ===== *)
theory Socket_State
  imports Process_Types
begin

unbundle bit_operations_syntax

section \<open>The state of the socket: Socket of socket/socket.hpp and socket.cpp\<close>

text \<open>
  Five flags, set and reset one at a time under \<open>flagLock\<close>: every call is one step. The two
  modes \<open>SOC_NORMAL_MODE\<close> and \<open>SOC_QUICKSEND_MODE\<close> say that an exchange with the server is
  under way.
\<close>

datatype SocketStatus = SOC_DEFAULT | SOC_SEIZE | SOC_SETQS | SOC_NORMAL_MODE | SOC_QUICKSEND_MODE

fun socket_status_value :: "SocketStatus \<Rightarrow> int" where
  "socket_status_value SOC_DEFAULT = 1"
| "socket_status_value SOC_SEIZE = 2"
| "socket_status_value SOC_SETQS = 4"
| "socket_status_value SOC_NORMAL_MODE = 8"
| "socket_status_value SOC_QUICKSEND_MODE = 16"

record Socket =
  quickSendMode :: Flag
  seizeMode :: Flag
  inQSMode :: Flag
  wsLock :: Flag
  socketShouldStop :: Flag

definition new_Socket :: Socket where
  "new_Socket = \<lparr>quickSendMode = initFlag False, seizeMode = initFlag False, inQSMode = initFlag False,
     wsLock = initFlag False, socketShouldStop = initFlag False\<rparr>"

definition getSocketStatus :: "Socket \<Rightarrow> int" where
  "getSocketStatus s =
     (let status = socket_status_value SOC_DEFAULT;
          status = (if isFlagSet (seizeMode s) then status OR socket_status_value SOC_SEIZE else status);
          status = (if isFlagSet (quickSendMode s) then status OR socket_status_value SOC_SETQS else status);
          status = (if isFlagSet (wsLock s) then status OR socket_status_value SOC_NORMAL_MODE else status);
          status = (if isFlagSet (inQSMode s) then status OR socket_status_value SOC_QUICKSEND_MODE else status)
      in status)"

fun socket_setFlag :: "SocketStatus \<Rightarrow> Socket \<Rightarrow> Socket" where
  "socket_setFlag SOC_SEIZE s = s\<lparr>seizeMode := setFlag (seizeMode s)\<rparr>"
| "socket_setFlag SOC_SETQS s = s\<lparr>quickSendMode := setFlag (quickSendMode s)\<rparr>"
| "socket_setFlag SOC_NORMAL_MODE s = s\<lparr>wsLock := setFlag (wsLock s)\<rparr>"
| "socket_setFlag SOC_QUICKSEND_MODE s = s\<lparr>inQSMode := setFlag (inQSMode s)\<rparr>"
| "socket_setFlag SOC_DEFAULT s = s"

fun socket_resetFlag :: "SocketStatus \<Rightarrow> Socket \<Rightarrow> Socket" where
  "socket_resetFlag SOC_SEIZE s = s\<lparr>seizeMode := resetFlag (seizeMode s)\<rparr>"
| "socket_resetFlag SOC_SETQS s = s\<lparr>quickSendMode := resetFlag (quickSendMode s)\<rparr>"
| "socket_resetFlag SOC_NORMAL_MODE s = s\<lparr>wsLock := resetFlag (wsLock s)\<rparr>"
| "socket_resetFlag SOC_QUICKSEND_MODE s = s\<lparr>inQSMode := resetFlag (inQSMode s)\<rparr>"
| "socket_resetFlag SOC_DEFAULT s = s"

definition getSocketStopStatus :: "Socket \<Rightarrow> bool" where
  "getSocketStopStatus s = isFlagSet (socketShouldStop s)"

definition status_has :: "int \<Rightarrow> SocketStatus \<Rightarrow> bool" where
  "status_has status f \<longleftrightarrow> status AND socket_status_value f \<noteq> 0"

fun socket_flag :: "SocketStatus \<Rightarrow> Socket \<Rightarrow> bool" where
  "socket_flag SOC_SEIZE s = seizeMode s"
| "socket_flag SOC_SETQS s = quickSendMode s"
| "socket_flag SOC_NORMAL_MODE s = wsLock s"
| "socket_flag SOC_QUICKSEND_MODE s = inQSMode s"
| "socket_flag SOC_DEFAULT s = True"

lemma getSocketStatus_has: "status_has (getSocketStatus s) f = socket_flag f s"
proof -
  have "status_has (getSocketStatus s) f = socket_flag f s"
    if "seizeMode s = a" "quickSendMode s = b" "wsLock s = c" "inQSMode s = d" for a b c d
    using that by (cases f; cases a; cases b; cases c; cases d) (simp_all add: status_has_def getSocketStatus_def)
  then show ?thesis by blast
qed

lemma socket_flag_set: "f \<noteq> SOC_DEFAULT \<Longrightarrow> socket_flag g (socket_setFlag f s) = (g = f \<or> socket_flag g s)"
  by (cases f; cases g) simp_all

lemma socket_flag_reset:
  "f \<noteq> SOC_DEFAULT \<Longrightarrow> socket_flag g (socket_resetFlag f s) = (g = SOC_DEFAULT \<or> g \<noteq> f \<and> socket_flag g s)"
  by (cases f; cases g) simp_all

text \<open>After \<open>setFlag\<close> or \<open>resetFlag\<close> of one of the four socket flags, the word that
  \<open>getSocketStatus\<close> composes shows exactly that flag changed: bit for bit it is the old word
  with the one bit set or cleared, and the default bit always stays set.\<close>

theorem socket_status_word:
  "status_has (getSocketStatus (socket_setFlag f s)) g = (g = f \<or> status_has (getSocketStatus s) g) \<and>
   status_has (getSocketStatus (socket_resetFlag f s)) g =
     (g = SOC_DEFAULT \<or> (g \<noteq> f \<and> status_has (getSocketStatus s) g))"
  unfolding getSocketStatus_has by (cases f; cases g) simp_all

end
