(* ===== verification/Json.thy ===== *)
theory Json
  imports Complex_Main Prelude "HOL-Library.AList"
begin

section \<open>JSON values as the worker uses them\<close>

text \<open>
  The part of \<open>nlohmann::json\<close> the worker's own code relies on: building objects with
  \<open>operator[]\<close>, reading members, and the conversions that throw when the value has another
  type. \<open>JNum\<close> is an integer and \<open>JFloat\<close> a floating-point number, by its exact value. A conversion
  to \<open>int\<close> takes integers, cuts off the fraction of floating-point numbers, and reads booleans as
  0 and 1.
\<close>

datatype json =
    JNull
  | JBool bool
  | JNum int
  | JStr string
  | JFloat rat
  | JArr "json list"
  | JObj "(string \<times> json) list"

text \<open>\<open>j[k] = v\<close>: null becomes an object, any other value that is not an object throws.\<close>

definition json_put :: "string \<Rightarrow> json \<Rightarrow> json \<Rightarrow> json result" where
  "json_put k v j =
     (case j of
        JNull \<Rightarrow> Inr (JObj [(k, v)])
      | JObj kvs \<Rightarrow> Inr (JObj (AList.update k v kvs))
      | _ \<Rightarrow> Inl UncaughtException)"

text \<open>\<open>j[k]\<close> as a value: a missing member is inserted as null.\<close>

definition json_get :: "string \<Rightarrow> json \<Rightarrow> json result" where
  "json_get k j =
     (case j of
        JNull \<Rightarrow> Inr JNull
      | JObj kvs \<Rightarrow> Inr (case map_of kvs k of None \<Rightarrow> JNull | Some v \<Rightarrow> v)
      | _ \<Rightarrow> Inl UncaughtException)"

text \<open>\<open>j[k1][k2] = v\<close>.\<close>

definition json_put2 :: "string \<Rightarrow> string \<Rightarrow> json \<Rightarrow> json \<Rightarrow> json result" where
  "json_put2 k1 k2 v j = bindR (json_get k1 j) (\<lambda>inner. bindR (json_put k2 v inner) (\<lambda>inner'. json_put k1 inner' j))"

definition truncate_rat :: "rat \<Rightarrow> int" where
  "truncate_rat q = (if q < 0 then - floor (- q) else floor q)"

definition json_int :: "json \<Rightarrow> int result" where
  "json_int j =
     (case j of
        JNum n \<Rightarrow> Inr n
      | JFloat q \<Rightarrow> Inr (truncate_rat q)
      | JBool b \<Rightarrow> Inr (if b then 1 else 0)
      | _ \<Rightarrow> Inl UncaughtException)"

definition json_string :: "json \<Rightarrow> string result" where
  "json_string j = (case j of JStr s \<Rightarrow> Inr s | _ \<Rightarrow> Inl UncaughtException)"

definition json_empty :: "json \<Rightarrow> bool" where
  "json_empty j = (case j of JNull \<Rightarrow> True | JObj kvs \<Rightarrow> kvs = [] | JArr js \<Rightarrow> js = [] | _ \<Rightarrow> False)"

lemma json_get_obj [simp]: "json_get k (JObj kvs) = Inr (case map_of kvs k of None \<Rightarrow> JNull | Some v \<Rightarrow> v)"
  by (simp add: json_get_def)

lemma json_get_null [simp]: "json_get k JNull = Inr JNull"
  by (simp add: json_get_def)

lemma json_put_simps [simp]:
  "json_put k v JNull = Inr (JObj [(k, v)])"
  "json_put k v (JObj kvs) = Inr (JObj (AList.update k v kvs))"
  by (simp_all add: json_put_def)

lemma json_get_put: "json_put k v j = Inr j' \<Longrightarrow> json_get k' j' = (if k' = k then Inr v else json_get k' j)"
  by (auto simp: json_put_def json_get_def update_conv' split: json.splits)

lemma json_conv_simps [simp]:
  "json_int (JNum n) = Inr n" "json_string (JStr s) = Inr s"
  by (simp_all add: json_int_def json_string_def)

end
