(* ===== verification/Json_Schema.thy ===== *)
theory Json_Schema
  imports Json
begin

unbundle bit_operations_syntax

section \<open>The JSON-schema validator: lib/json-validator.cpp\<close>

text \<open>
  The packets of the server are checked against schemas by the validator in lib/. It works in two
  phases: \<open>schema::make\<close> builds a tree of validators from a schema, and \<open>validate\<close> runs the tree on
  a document and reports errors to a handler that throws, so a document is valid when no error is
  reported. Modelled are boolean schemas and object schemas with the keywords \<open>type\<close> (one name),
  the bounds of strings, numbers, objects and arrays, \<open>properties\<close>, \<open>additionalProperties\<close>,
  \<open>required\<close>, \<open>items\<close> (one schema), \<open>contains\<close>, \<open>not\<close>, \<open>allOf\<close>, \<open>anyOf\<close>, \<open>oneOf\<close> and
  \<open>if\<close>/\<open>then\<close>/\<open>else\<close>. A schema with another keyword of the source, such as \<open>$ref\<close> or
  \<open>pattern\<close>, is outside the model: \<open>make\<close> answers \<open>None\<close>, as it does where the source throws.
  Numbers are exact.
\<close>

subsection \<open>Validators\<close>

datatype value_t =
  value_null | value_object | value_array | value_string | value_boolean | number_integer | number_float

fun json_type :: "json \<Rightarrow> value_t" where
  "json_type JNull = value_null"
| "json_type (JBool b) = value_boolean"
| "json_type (JNum n) = number_integer"
| "json_type (JStr s) = value_string"
| "json_type (JFloat q) = number_float"
| "json_type (JArr xs) = value_array"
| "json_type (JObj kvs) = value_object"

datatype string_schema = StringSchema (minLength: "nat option") (maxLength: "nat option")

datatype numeric_schema =
  NumericSchema (num_maximum: "rat option") (exclusiveMaximum: bool) (num_minimum: "rat option") (exclusiveMinimum: bool)

text \<open>The tree of validators; \<open>type_schema\<close> holds one validator for each type that is allowed.\<close>

datatype schema =
    boolean_schema bool
  | type_schema "(value_t \<times> type_validator) list" "logic list" "(schema \<times> schema option \<times> schema option) option"
and type_validator =
    null_v
  | boolean_v
  | string_v string_schema
  | numeric_v numeric_schema
  | object_v "nat option" "nat option" "string list" "(string \<times> schema) list" "schema option"
  | array_v "nat option" "nat option" "schema option" "schema option"
and logic =
    logical_not schema
  | allOf "schema list"
  | anyOf "schema list"
  | oneOf "schema list"

subsection \<open>Validating a document\<close>

definition utf8_length :: "string \<Rightarrow> nat" where
  "utf8_length s = length (filter (\<lambda>c. of_char c AND (0xC0 :: 8 word) \<noteq> 0x80) s)"

fun validate_string :: "string_schema \<Rightarrow> json \<Rightarrow> bool" where
  "validate_string (StringSchema lo hi) (JStr s) \<longleftrightarrow>
     \<not> (case lo of None \<Rightarrow> False | Some n \<Rightarrow> utf8_length s < n) \<and>
     \<not> (case hi of None \<Rightarrow> False | Some n \<Rightarrow> utf8_length s > n)"
| "validate_string sch j \<longleftrightarrow> True"

fun number_value :: "json \<Rightarrow> rat" where
  "number_value (JNum n) = of_int n"
| "number_value (JFloat q) = q"
| "number_value j = 0"

fun validate_numeric :: "numeric_schema \<Rightarrow> rat \<Rightarrow> bool" where
  "validate_numeric (NumericSchema hi xhi lo xlo) value \<longleftrightarrow>
     \<not> (case hi of None \<Rightarrow> False | Some m \<Rightarrow> if xhi \<and> value \<ge> m then True else value > m) \<and>
     \<not> (case lo of None \<Rightarrow> False | Some m \<Rightarrow> if xlo \<and> value \<le> m then True else value < m)"

fun members :: "json \<Rightarrow> (string \<times> json) list" where
  "members (JObj kvs) = kvs"
| "members j = []"

fun elements :: "json \<Rightarrow> json list" where
  "elements (JArr xs) = xs"
| "elements j = []"

definition size_ok :: "nat option \<Rightarrow> nat option \<Rightarrow> nat \<Rightarrow> bool" where
  "size_ok hi lo n \<longleftrightarrow> \<not> (case hi of None \<Rightarrow> False | Some m \<Rightarrow> n > m) \<and> \<not> (case lo of None \<Rightarrow> False | Some m \<Rightarrow> n < m)"

fun validate :: "schema \<Rightarrow> json \<Rightarrow> bool"
  and validate_type :: "type_validator \<Rightarrow> json \<Rightarrow> bool"
  and validate_logic :: "logic \<Rightarrow> json \<Rightarrow> bool"
where
  "validate (boolean_schema b) instance = b"
| "validate (type_schema types logics cond) instance \<longleftrightarrow>
     list_ex (\<lambda>(t, v). t = json_type instance \<and> validate_type v instance) types \<and>
     list_all (\<lambda>l. validate_logic l instance) logics \<and>
     (case cond of
        None \<Rightarrow> True
      | Some (i, t, e) \<Rightarrow>
          if validate i instance then (case t of None \<Rightarrow> True | Some s \<Rightarrow> validate s instance)
          else (case e of None \<Rightarrow> True | Some s \<Rightarrow> validate s instance))"
| "validate_type null_v instance \<longleftrightarrow> instance = JNull"
| "validate_type boolean_v instance \<longleftrightarrow> True"
| "validate_type (string_v s) instance = validate_string s instance"
| "validate_type (numeric_v n) instance = validate_numeric n (number_value instance)"
| "validate_type (object_v hi lo required properties additional) instance \<longleftrightarrow>
     size_ok hi lo (length (members instance)) \<and>
     list_all (\<lambda>r. map_of (members instance) r \<noteq> None) required \<and>
     list_all (\<lambda>(k, s). case map_of (members instance) k of None \<Rightarrow> True | Some p \<Rightarrow> validate s p) properties \<and>
     (case additional of
        None \<Rightarrow> True
      | Some s \<Rightarrow> list_all (\<lambda>(k, p). map_of properties k \<noteq> None \<or> validate s p) (members instance))"
| "validate_type (array_v hi lo items contains) instance \<longleftrightarrow>
     size_ok hi lo (length (elements instance)) \<and>
     (case items of None \<Rightarrow> True | Some s \<Rightarrow> list_all (\<lambda>i. validate s i) (elements instance)) \<and>
     (case contains of None \<Rightarrow> True | Some s \<Rightarrow> list_ex (\<lambda>i. validate s i) (elements instance))"
| "validate_logic (logical_not s) instance \<longleftrightarrow> \<not> validate s instance"
| "validate_logic (allOf ss) instance \<longleftrightarrow> ss \<noteq> [] \<and> list_all (\<lambda>s. validate s instance) ss"
| "validate_logic (anyOf ss) instance \<longleftrightarrow> list_ex (\<lambda>s. validate s instance) ss"
| "validate_logic (oneOf ss) instance \<longleftrightarrow> length (filter (\<lambda>s. validate s instance) ss) = 1"

subsection \<open>Building the validators\<close>

text \<open>A keyword with a number of items; an absent one is \<open>Some None\<close>.\<close>

definition nat_keyword :: "(string \<times> json) list \<Rightarrow> string \<Rightarrow> nat option option" where
  "nat_keyword sch k =
     (case map_of sch k of
        None \<Rightarrow> Some None
      | Some (JNum n) \<Rightarrow> Some (Some (nat (n mod 2 ^ 64)))
      | Some _ \<Rightarrow> None)"

text \<open>A bound of a number: the validator of integers cuts the fraction off.\<close>

definition number_keyword :: "bool \<Rightarrow> (string \<times> json) list \<Rightarrow> string \<Rightarrow> rat option option" where
  "number_keyword integer sch k =
     (case map_of sch k of
        None \<Rightarrow> Some None
      | Some (JNum n) \<Rightarrow> Some (Some (of_int n))
      | Some (JFloat q) \<Rightarrow> Some (Some (if integer then of_int (truncate_rat q) else q))
      | Some _ \<Rightarrow> None)"

fun string_list :: "json list \<Rightarrow> string list option" where
  "string_list [] = Some []"
| "string_list (JStr s # js) = map_option ((#) s) (string_list js)"
| "string_list (j # js) = None"

definition required_keyword :: "(string \<times> json) list \<Rightarrow> string list option" where
  "required_keyword sch =
     (case map_of sch ''required'' of None \<Rightarrow> Some [] | Some (JArr js) \<Rightarrow> string_list js | Some _ \<Rightarrow> None)"

definition members_keyword :: "(string \<times> json) list \<Rightarrow> string \<Rightarrow> (string \<times> json) list option" where
  "members_keyword sch k =
     (case map_of sch k of None \<Rightarrow> Some [] | Some (JObj kvs) \<Rightarrow> Some kvs | Some _ \<Rightarrow> None)"

definition make_string :: "(string \<times> json) list \<Rightarrow> string_schema option" where
  "make_string sch =
     Option.bind (nat_keyword sch ''maxLength'') (\<lambda>hi.
     Option.bind (nat_keyword sch ''minLength'') (\<lambda>lo. Some (StringSchema lo hi)))"

text \<open>An exclusive bound replaces the plain one.\<close>

definition make_numeric :: "bool \<Rightarrow> (string \<times> json) list \<Rightarrow> numeric_schema option" where
  "make_numeric integer sch =
     Option.bind (number_keyword integer sch ''maximum'') (\<lambda>hi.
     Option.bind (number_keyword integer sch ''minimum'') (\<lambda>lo.
     Option.bind (number_keyword integer sch ''exclusiveMaximum'') (\<lambda>xhi.
     Option.bind (number_keyword integer sch ''exclusiveMinimum'') (\<lambda>xlo.
       Some (NumericSchema (if xhi \<noteq> None then xhi else hi) (xhi \<noteq> None)
                           (if xlo \<noteq> None then xlo else lo) (xlo \<noteq> None))))))"

definition schema_types :: "(string \<times> value_t) list" where
  "schema_types = [(''null'', value_null), (''object'', value_object), (''array'', value_array),
     (''string'', value_string), (''boolean'', value_boolean), (''integer'', number_integer), (''number'', number_float)]"

text \<open>Keywords of the source that are left out.\<close>

definition left_out :: "string list" where
  "left_out = [''$id'', ''$ref'', ''definitions'', ''enum'', ''const'', ''pattern'', ''patternProperties'', ''format'',
     ''contentEncoding'', ''contentMediaType'', ''dependencies'', ''propertyNames'', ''uniqueItems'', ''multipleOf'']"

lemma size_members: "map_of kvs k = Some j \<Longrightarrow> size j < size (JObj kvs)"
  by (induction kvs) (auto split: if_splits)

lemma size_keyword: "members_keyword sch k = Some kvs \<Longrightarrow> kvs = [] \<or> size (JObj kvs) < size (JObj sch)"
  by (auto simp: members_keyword_def split: option.splits json.splits dest: size_members)

text \<open>
  The constructors of the validators, on the members \<open>sch\<close> of a schema; \<open>mk\<close> is \<open>schema::make\<close>,
  which they call on subschemas.
\<close>

fun make_all :: "(json \<Rightarrow> schema option) \<Rightarrow> json list \<Rightarrow> schema list option" where
  "make_all mk [] = Some []"
| "make_all mk (j # js) = Option.bind (mk j) (\<lambda>s. map_option ((#) s) (make_all mk js))"

fun make_members :: "(json \<Rightarrow> schema option) \<Rightarrow> (string \<times> json) list \<Rightarrow> (string \<times> schema) list option" where
  "make_members mk [] = Some []"
| "make_members mk ((k, j) # kvs) = Option.bind (mk j) (\<lambda>s. map_option ((#) (k, s)) (make_members mk kvs))"

definition make_keyword :: "(json \<Rightarrow> schema option) \<Rightarrow> (string \<times> json) list \<Rightarrow> string \<Rightarrow> schema option option" where
  "make_keyword mk sch k = (case map_of sch k of None \<Rightarrow> Some None | Some j \<Rightarrow> map_option Some (mk j))"

definition make_list :: "(json \<Rightarrow> schema option) \<Rightarrow> (string \<times> json) list \<Rightarrow> string \<Rightarrow> schema list option" where
  "make_list mk sch k =
     (case map_of sch k of None \<Rightarrow> Some [] | Some (JArr js) \<Rightarrow> make_all mk js | Some _ \<Rightarrow> None)"

definition make_object :: "(json \<Rightarrow> schema option) \<Rightarrow> (string \<times> json) list \<Rightarrow> type_validator option" where
  "make_object mk sch =
     Option.bind (nat_keyword sch ''maxProperties'') (\<lambda>hi.
     Option.bind (nat_keyword sch ''minProperties'') (\<lambda>lo.
     Option.bind (required_keyword sch) (\<lambda>required.
     Option.bind (Option.bind (members_keyword sch ''properties'') (make_members mk)) (\<lambda>properties.
     Option.bind (make_keyword mk sch ''additionalProperties'') (\<lambda>additional.
       Some (object_v hi lo required properties additional))))))"

definition make_array :: "(json \<Rightarrow> schema option) \<Rightarrow> (string \<times> json) list \<Rightarrow> type_validator option" where
  "make_array mk sch =
     Option.bind (nat_keyword sch ''maxItems'') (\<lambda>hi.
     Option.bind (nat_keyword sch ''minItems'') (\<lambda>lo.
     Option.bind (make_keyword mk sch ''items'') (\<lambda>items.
     Option.bind (make_keyword mk sch ''contains'') (\<lambda>contains. Some (array_v hi lo items contains)))))"

fun make_type :: "(json \<Rightarrow> schema option) \<Rightarrow> value_t \<Rightarrow> (string \<times> json) list \<Rightarrow> type_validator option" where
  "make_type mk value_null sch = Some null_v"
| "make_type mk value_object sch = make_object mk sch"
| "make_type mk value_array sch = make_array mk sch"
| "make_type mk value_string sch = map_option string_v (make_string sch)"
| "make_type mk value_boolean sch = Some boolean_v"
| "make_type mk number_integer sch = map_option numeric_v (make_numeric True sch)"
| "make_type mk number_float sch = map_option numeric_v (make_numeric False sch)"

fun make_types ::
  "(json \<Rightarrow> schema option) \<Rightarrow> value_t list \<Rightarrow> (string \<times> json) list \<Rightarrow> (value_t \<times> type_validator) list option"
where
  "make_types mk [] sch = Some []"
| "make_types mk (t # ts) sch =
     Option.bind (make_type mk t sch) (\<lambda>v. map_option ((#) (t, v)) (make_types mk ts sch))"

text \<open>The validators by type: all types without \<open>type\<close>; \<open>number\<close> also allows integers.\<close>

definition type_keyword ::
  "(json \<Rightarrow> schema option) \<Rightarrow> (string \<times> json) list \<Rightarrow> (value_t \<times> type_validator) list option"
where
  "type_keyword mk sch =
     (case map_of sch ''type'' of
        None \<Rightarrow> make_types mk (map snd schema_types) sch
      | Some (JStr name) \<Rightarrow>
          (case map_of schema_types name of
             None \<Rightarrow> Some []
           | Some t \<Rightarrow> map_option (\<lambda>v. if t = number_float then [(t, v), (number_integer, v)] else [(t, v)])
               (make_type mk t sch))
      | Some (JArr _) \<Rightarrow> None
      | Some _ \<Rightarrow> Some [])"

definition make_logic :: "(json \<Rightarrow> schema option) \<Rightarrow> (string \<times> json) list \<Rightarrow> logic list option" where
  "make_logic mk sch =
     Option.bind (make_keyword mk sch ''not'') (\<lambda>n.
     Option.bind (make_list mk sch ''allOf'') (\<lambda>al.
     Option.bind (make_list mk sch ''anyOf'') (\<lambda>an.
     Option.bind (make_list mk sch ''oneOf'') (\<lambda>on.
       Some ((case n of None \<Rightarrow> [] | Some s \<Rightarrow> [logical_not s]) @
             (if map_of sch ''allOf'' = None then [] else [allOf al]) @
             (if map_of sch ''anyOf'' = None then [] else [anyOf an]) @
             (if map_of sch ''oneOf'' = None then [] else [oneOf on]))))))"

text \<open>\<open>if\<close> is looked at only beside \<open>then\<close> or \<open>else\<close>, and these only beside \<open>if\<close>.\<close>

definition make_cond ::
  "(json \<Rightarrow> schema option) \<Rightarrow> (string \<times> json) list \<Rightarrow> (schema \<times> schema option \<times> schema option) option option"
where
  "make_cond mk sch =
     (if map_of sch ''if'' = None \<or> map_of sch ''then'' = None \<and> map_of sch ''else'' = None then Some None
      else Option.bind (make_keyword mk sch ''if'') (\<lambda>i.
           Option.bind (make_keyword mk sch ''then'') (\<lambda>t.
           Option.bind (make_keyword mk sch ''else'') (\<lambda>e. Some (map_option (\<lambda>i. (i, t, e)) i)))))"

fun make_step :: "(json \<Rightarrow> schema option) \<Rightarrow> json \<Rightarrow> schema option" where
  "make_step mk (JBool b) = Some (boolean_schema b)"
| "make_step mk (JObj sch) =
     (if list_ex (\<lambda>k. map_of sch k \<noteq> None) left_out then None
      else Option.bind (type_keyword mk sch) (\<lambda>types.
           Option.bind (make_logic mk sch) (\<lambda>logics.
           Option.bind (make_cond mk sch) (\<lambda>cond. Some (type_schema types logics cond)))))"
| "make_step mk j = None"

text \<open>\<open>schema::make\<close> calls itself on parts of the schema only: its size is fuel enough.\<close>

primrec make_fuel :: "nat \<Rightarrow> json \<Rightarrow> schema option" where
  "make_fuel 0 j = None"
| "make_fuel (Suc n) j = make_step (make_fuel n) j"

definition schema_make :: "json \<Rightarrow> schema option" where
  "schema_make j = make_fuel (Suc (size j)) j"

lemma make_all_cong: "(\<And>j. j \<in> set js \<Longrightarrow> f j = g j) \<Longrightarrow> make_all f js = make_all g js"
  by (induction js) auto

lemma make_members_cong: "(\<And>k j. (k, j) \<in> set kvs \<Longrightarrow> f j = g j) \<Longrightarrow> make_members f kvs = make_members g kvs"
proof (induction kvs)
  case (Cons x kvs)
  obtain k j where x: "x = (k, j)" by fastforce
  have "f j = g j" using Cons.prems [of k j] by (simp add: x)
  moreover have "make_members f kvs = make_members g kvs" using Cons by (meson list.set_intros(2))
  ultimately show ?case by (simp add: x)
qed simp

lemma size_in_members: "(k, j) \<in> set kvs \<Longrightarrow> size j < size (JObj kvs)"
  by (induction kvs) auto

lemma size_in_elements: "j \<in> set js \<Longrightarrow> size j < size (JArr js)"
  by (induction js) auto

lemma make_step_cong:
  assumes "\<And>j'. size j' < size j \<Longrightarrow> f j' = g j'"
  shows "make_step f j = make_step g j"
proof (cases j)
  case (JObj sch)
  have sub: "f i = g i" if "map_of sch k = Some i" for k i
    using assms size_members [OF that] by (simp add: JObj)
  have kw: "make_keyword f sch k = make_keyword g sch k" for k
    using sub by (auto simp: make_keyword_def split: option.split)
  have li: "make_list f sch k = make_list g sch k" for k
  proof -
    have "make_all f js = make_all g js" if js: "map_of sch k = Some (JArr js)" for js
    proof (rule make_all_cong)
      fix i assume "i \<in> set js"
      then show "f i = g i" using assms size_members [OF js] size_in_elements [of i js] by (simp add: JObj)
    qed
    then show ?thesis by (auto simp: make_list_def split: option.split json.split)
  qed
  have "make_members f kvs = make_members g kvs" if kvs: "members_keyword sch k = Some kvs" for k kvs
  proof (rule make_members_cong)
    fix k i assume i: "(k, i) \<in> set kvs"
    then show "f i = g i" using assms size_keyword [OF kvs] size_in_members [OF i] by (auto simp: JObj)
  qed
  then have ob: "make_object f sch = make_object g sch"
    unfolding make_object_def kw by (auto intro!: bind_option_cong)
  have ar: "make_array f sch = make_array g sch" unfolding make_array_def kw ..
  have ty: "make_type f t sch = make_type g t sch" for t by (cases t) (simp_all add: ob ar)
  have tys: "make_types f ts sch = make_types g ts sch" for ts by (induction ts) (simp_all add: ty)
  have "type_keyword f sch = type_keyword g sch" unfolding type_keyword_def tys ty ..
  moreover have "make_logic f sch = make_logic g sch" unfolding make_logic_def kw li ..
  moreover have "make_cond f sch = make_cond g sch" unfolding make_cond_def kw ..
  ultimately show ?thesis by (simp add: JObj)
qed simp_all

lemma make_fuel_enough: "size j < n \<Longrightarrow> make_fuel n j = schema_make j"
proof (induction "size j" arbitrary: j n rule: less_induct)
  case less
  then obtain m where n: "n = Suc m" by (cases n) auto
  have "make_fuel m i = make_fuel (size j) i" if "size i < size j" for i
    using less.hyps [OF that, of m] less.hyps [OF that, of "size j"] less.prems that n by simp
  then show ?case unfolding n schema_make_def make_fuel.simps by (rule make_step_cong)
qed

lemma schema_make_rec: "schema_make j = make_step schema_make j"
  unfolding schema_make_def [of j] make_fuel.simps by (rule make_step_cong) (simp add: make_fuel_enough)

text \<open>A validator with a root schema: \<open>set_root_schema\<close> and \<open>validate\<close>.\<close>

definition schema_valid :: "json \<Rightarrow> json \<Rightarrow> bool" where
  "schema_valid sch instance = (case schema_make sch of None \<Rightarrow> False | Some s \<Rightarrow> validate s instance)"

end
