(* ===== verification/Queue_Interface.thy ===== *)
theory Queue_Interface
  imports Prelude
begin

section \<open>Interface: a queue that serves its elements in an order\<close>

text \<open>
  What a client of a task queue relies on. \<open>view\<close> is the queue as a list in service order,
  \<open>strip\<close> forgets what the queue may change in a waiting element, \<open>before\<close> is the order in
  which elements are served, \<open>same\<close> relates elements that are served in arrival order.
\<close>

primrec drainQ :: "('q \<Rightarrow> ('t \<times> 'q) option) \<Rightarrow> nat \<Rightarrow> 'q \<Rightarrow> 't list" where
  "drainQ pop 0 q = []"
| "drainQ pop (Suc n) q = (case pop q of None \<Rightarrow> [] | Some (t, q') \<Rightarrow> t # drainQ pop n q')"

locale task_queue =
  fixes inv :: "'q \<Rightarrow> bool"
    and empty :: 'q
    and push :: "'t \<Rightarrow> 'q \<Rightarrow> 'q"
    and pop :: "'q \<Rightarrow> ('t \<times> 'q) option"
    and view :: "'q \<Rightarrow> 'v list"
    and strip :: "'t \<Rightarrow> 'v"
    and before :: "'v \<Rightarrow> 'v \<Rightarrow> bool"
    and same :: "'v \<Rightarrow> 'v \<Rightarrow> bool"
  assumes inv_empty: "inv empty"
    and inv_push: "inv q \<Longrightarrow> inv (push t q)"
    and inv_pop: "inv q \<Longrightarrow> pop q = Some (t, q') \<Longrightarrow> inv q'"
    and view_empty: "view empty = []"
    and push_mset: "inv q \<Longrightarrow> mset (view (push t q)) = add_mset (strip t) (mset (view q))"
    and push_ordered: "inv q \<Longrightarrow> sorted_wrt before (view q) \<Longrightarrow> sorted_wrt before (view (push t q))"
    and push_fifo: "inv q \<Longrightarrow> sorted_wrt before (view q) \<Longrightarrow>
      filter (same k) (view (push t q)) = filter (same k) (view q @ [strip t])"
    and pop_None: "inv q \<Longrightarrow> pop q = None \<longleftrightarrow> view q = []"
    and pop_Some: "inv q \<Longrightarrow> pop q = Some (t, q') \<Longrightarrow> view q = strip t # view q'"
begin

lemma drain_view: "inv q \<Longrightarrow> map strip (drainQ pop (length (view q)) q) = view q"
proof (induction "view q" arbitrary: q)
  case Nil
  then show ?case by simp
next
  case (Cons v vs)
  then obtain t q' where pop: "pop q = Some (t, q')"
    by (metis list.distinct(1) not_None_eq pop_None surj_pair)
  then have "view q = strip t # view q'" and "inv q'"
    using Cons.prems pop_Some inv_pop by blast+
  with Cons pop show ?case by simp
qed

lemma fold_push_inv: "inv q \<Longrightarrow> inv (fold push ts q)"
  by (induction ts arbitrary: q) (simp_all add: inv_push)

lemma fold_push_ordered:
  "inv q \<Longrightarrow> sorted_wrt before (view q) \<Longrightarrow> sorted_wrt before (view (fold push ts q))"
  by (induction ts arbitrary: q) (simp_all add: push_ordered inv_push)

lemma fold_push_mset:
  "inv q \<Longrightarrow> mset (view (fold push ts q)) = mset (view q) + mset (map strip ts)"
  by (induction ts arbitrary: q) (simp_all add: push_mset inv_push)

lemma fold_push_fifo:
  "inv q \<Longrightarrow> sorted_wrt before (view q) \<Longrightarrow>
   filter (same k) (view (fold push ts q)) = filter (same k) (view q @ map strip ts)"
  by (induction ts arbitrary: q) (simp_all add: push_ordered push_fifo inv_push)

lemma fold_push_length: "length (view (fold push ts empty)) = length ts"
  by (metis fold_push_mset inv_empty length_map size_mset view_empty mset.simps(1) add_0)

text \<open>
  Filling an empty queue and draining it serves every element once, in the queue's order,
  and elements that are the same to the queue in the order they arrived.
\<close>

lemma fill_drain:
  fixes ts :: "'t list"
  defines "served \<equiv> map strip (drainQ pop (length ts) (fold push ts empty))"
  shows "sorted_wrt before served" and "mset served = mset (map strip ts)"
    and "filter (same k) served = filter (same k) (map strip ts)"
proof -
  have served: "served = view (fold push ts empty)"
    unfolding served_def using drain_view [of "fold push ts empty"]
    by (simp add: fold_push_length fold_push_inv inv_empty)
  show "sorted_wrt before served" by (simp add: served fold_push_ordered view_empty inv_empty)
  show "mset served = mset (map strip ts)" by (simp add: served fold_push_mset view_empty inv_empty)
  show "filter (same k) served = filter (same k) (map strip ts)"
    by (simp add: served fold_push_fifo view_empty inv_empty)
qed

end

section \<open>Interface: a bounded store of jobs\<close>

text \<open>
  What the scheduler relies on when it moves jobs between the queues of two threads. Taking a
  job may need to look at the job's status (\<open>'m\<close>) and may fail.
\<close>

locale job_store =
  fixes inv :: "'q \<Rightarrow> bool"
    and jobs :: "'q \<Rightarrow> 'j multiset"
    and capacity :: nat
    and add :: "'j \<Rightarrow> 'q \<Rightarrow> int \<times> 'q"
    and take :: "'m \<Rightarrow> 'q \<Rightarrow> ('j option \<times> 'q) result"
  assumes bounded: "size (jobs q) \<le> capacity"
    and add_accepts: "size (jobs q) < capacity \<Longrightarrow> fst (add j q) = 0"
    and add_refuses: "size (jobs q) = capacity \<Longrightarrow> add j q = (- 1, q)"
    and add_jobs: "add j q = (0, q') \<Longrightarrow> jobs q' = add_mset j (jobs q)"
    and add_inv: "inv q \<Longrightarrow> add j q = (0, q') \<Longrightarrow> inv q'"
    and take_jobs: "inv q \<Longrightarrow> take m q = Inr (Some j, q') \<Longrightarrow> jobs q = add_mset j (jobs q')"
    and take_inv: "inv q \<Longrightarrow> take m q = Inr (Some j, q') \<Longrightarrow> inv q'"
    and take_empty: "inv q \<Longrightarrow> take m q = Inr (None, q') \<Longrightarrow> q' = q"
begin

text \<open>Moving one job between two queues loses none and duplicates none.\<close>

lemma move_conserves:
  assumes "inv src" and "take m src = Inr (Some j, src')" and "add j dst = (0, dst')"
  shows "jobs src' + jobs dst' = jobs src + jobs dst"
  using take_jobs [OF assms(1,2)] add_jobs [OF assms(3)] by simp

lemma move_inv:
  assumes "inv src" and "inv dst" and "take m src = Inr (Some j, src')" and "add j dst = (0, dst')"
  shows "inv src'" and "inv dst'"
  using take_inv [OF assms(1,3)] add_inv [OF assms(2,4)] by auto

text \<open>A job that was taken finds a place as long as the other queue holds fewer than the
  capacity: only then is nothing dropped.\<close>

lemma move_succeeds:
  assumes "size (jobs dst) < capacity"
  obtains dst' where "add j dst = (0, dst')"
  using add_accepts [OF assms, of j] by (metis prod.collapse)

lemma add_result: "size (jobs q) < capacity \<or> add j q = (- 1, q)"
  using bounded [of q] add_refuses [of q j] by linarith

end

end
