(* ===== verification/Sender.thy ===== *)
theory Sender
  imports Forward_Stack Socket_State Json_Schema Queue_Interface
begin

section \<open>The sender sink: sender\_proc/sender.hpp and sender.cpp\<close>

text \<open>
  \<open>SenderSink\<close> wraps the forward stack, turns its packages into packets and performs the
  handshake. The worker's identifier is written by another thread while \<open>popPacket\<close> runs, so
  the calls of \<open>getWorkerId()\<close> are numbered and \<open>wid k\<close> is what the \<open>k\<close>-th call returns;
  \<open>stats\<close> is what \<open>statsEngine.toJson()\<close> returns (theory \<open>Stats_Engine\<close>).
\<close>

fun senderType_value :: "SenderDataType \<Rightarrow> int" where
  "senderType_value RECV_ERR = 0"
| "senderType_value RESET_TIMER = 1"
| "senderType_value DAT_ERR = 2"
| "senderType_value DAT_RECVD = 3"
| "senderType_value INTR_SEND = 4"
| "senderType_value FRES_SEND = 5"
| "senderType_value SEIZE = 6"
| "senderType_value DAT_NULL = 100"

definition P_RESET :: int where "P_RESET = 1"
definition P_HANDSHAKE :: int where "P_HANDSHAKE = 2"
definition P_DATA_ACK :: int where "P_DATA_ACK = 4"
definition P_INTR_RES :: int where "P_INTR_RES = 8"
definition P_FINAL_RES :: int where "P_FINAL_RES = 16"
definition P_ERR :: int where "P_ERR = 32"
definition P_QSEND :: int where "P_QSEND = 64"
definition P_SEIZE :: int where "P_SEIZE = 128"

lemmas packet_status = P_RESET_def P_HANDSHAKE_def P_DATA_ACK_def P_INTR_RES_def P_FINAL_RES_def
  P_ERR_def P_QSEND_def P_SEIZE_def

record SenderSink =
  fwdStack :: ForwardStack
  initSender :: Flag
  handshakeSent :: Flag

definition new_SenderSink :: SenderSink where
  "new_SenderSink = \<lparr>fwdStack = new_ForwardStack, initSender = initFlag False, handshakeSent = initFlag False\<rparr>"

definition pushPacket ::
  "string \<Rightarrow> string \<Rightarrow> SenderDataType \<Rightarrow> TaskPriority \<Rightarrow> SenderSink \<Rightarrow> (int \<times> SenderSink) result"
where
  "pushPacket dat tid statusCode prio sink =
     (if statusCode = SEIZE
      then bindR (pushFront dat tid statusCode (int (priority_value prio)) (fwdStack sink)) (\<lambda>(_, fs).
             Inr (0, sink\<lparr>fwdStack := fs\<rparr>))
      else bindR (push dat tid statusCode (int (priority_value prio)) (fwdStack sink)) (\<lambda>(_, fs).
             Inr (0, sink\<lparr>fwdStack := fs\<rparr>)))"

definition sink_size :: "SenderSink \<Rightarrow> nat" where "sink_size sink = fwd_size (fwdStack sink)"
definition sink_isEmpty :: "SenderSink \<Rightarrow> int" where "sink_isEmpty sink = fwd_isEmpty (fwdStack sink)"
definition isSenderInitilized :: "SenderSink \<Rightarrow> bool" where "isSenderInitilized sink = isFlagSet (initSender sink)"

text \<open>\<open>senderSchema\<close>: a number \<open>head\<close> and a string \<open>id\<close> are required.\<close>

definition senderSchema :: json where
  "senderSchema =
     JObj [(''$schema'', JStr ''http://json-schema.org/draft-07/schema#''), (''title'', JStr ''Data Body of packet''),
       (''properties'', JObj
         [(''head'', JObj [(''description'', JStr ''Packet identifier/info''), (''type'', JStr ''number'')]),
          (''id'', JObj [(''description'', JStr ''Worker identifier''), (''type'', JStr ''string'')])]),
       (''required'', JArr [JStr ''head'', JStr ''id'']), (''type'', JStr ''object'')]"

definition isValidPacket :: "json \<Rightarrow> bool" where
  "isValidPacket packet = schema_valid senderSchema packet"

definition matchItemInAwaitStack :: "int \<Rightarrow> string \<Rightarrow> SenderSink \<Rightarrow> (int \<times> SenderSink) result" where
  "matchItemInAwaitStack statusCode tid sink =
     bindR (matchItem statusCode tid (awaitStack (fwdStack sink))) (\<lambda>(rc, aw).
       Inr (rc, sink\<lparr>fwdStack := (fwdStack sink)\<lparr>awaitStack := aw\<rparr>\<rparr>))"

definition getPacketHead :: "SenderDataType \<Rightarrow> Socket \<Rightarrow> int \<times> Socket" where
  "getPacketHead status soc =
     (case status of
        RECV_ERR \<Rightarrow> (P_ERR, soc)
      | DAT_ERR \<Rightarrow> (P_ERR, soc)
      | DAT_RECVD \<Rightarrow> (P_DATA_ACK, soc)
      | INTR_SEND \<Rightarrow> (P_INTR_RES, soc)
      | FRES_SEND \<Rightarrow> (P_FINAL_RES, soc)
      | SEIZE \<Rightarrow> (P_SEIZE, socket_setFlag SOC_SEIZE soc)
      | _ \<Rightarrow> (P_RESET, soc))"

definition packet_head :: "SenderDataType \<Rightarrow> SenderSink \<Rightarrow> Socket \<Rightarrow> int \<times> Socket" where
  "packet_head statusCode sink soc =
     (let socketStatus = getSocketStatus soc in
      if status_has socketStatus SOC_SEIZE
      then (case getPacketHead statusCode soc of (h, soc') \<Rightarrow> (h OR P_SEIZE, soc'))
      else if sink_isEmpty sink = 0
      then (case getPacketHead statusCode soc of (h, soc') \<Rightarrow> (h OR P_QSEND, soc'))
      else getPacketHead statusCode soc)"

definition packet_body :: "ForwardStackPackage \<Rightarrow> Socket \<Rightarrow> json \<Rightarrow> (json \<times> Socket) result" where
  "packet_body item soc packet =
     (let statusCode = fp_statusCode item in
      if statusCode = RECV_ERR \<or> statusCode = DAT_ERR
      then bindR (json_put2 ''body'' ''id'' (JStr (fp_tableID item)) packet) (\<lambda>packet.
           bindR (json_put2 ''body'' ''data'' (JStr (fp_data item)) packet) (\<lambda>packet. Inr (packet, soc)))
      else if statusCode = RESET_TIMER \<or> statusCode = DAT_RECVD
      then bindR (json_put2 ''body'' ''id'' (JStr (fp_tableID item)) packet) (\<lambda>packet.
           bindR (json_put2 ''body'' ''priority'' (JNum (fp_priority item)) packet) (\<lambda>packet. Inr (packet, soc)))
      else if statusCode = INTR_SEND \<or> statusCode = FRES_SEND
      then bindR (json_put2 ''body'' ''id'' (JStr (fp_tableID item)) packet) (\<lambda>packet.
           bindR (json_put2 ''body'' ''data'' (JStr (fp_data item)) packet) (\<lambda>packet.
           bindR (json_put2 ''body'' ''priority'' (JNum (fp_priority item)) packet) (\<lambda>packet. Inr (packet, soc))))
      else Inr (packet, socket_setFlag SOC_NORMAL_MODE soc))"

definition create_packet ::
  "json \<Rightarrow> ForwardStackPackage \<Rightarrow> string \<Rightarrow> SenderSink \<Rightarrow> Socket \<Rightarrow> (json \<times> Socket) result"
where
  "create_packet stats item workerId sink soc =
     (case packet_head (fp_statusCode item) sink soc of (h, soc1) \<Rightarrow>
      bindR (json_put ''head'' (JNum h) JNull) (\<lambda>packet.
      bindR (json_put ''id'' (JStr workerId) packet) (\<lambda>packet.
      bindR (packet_body item soc1 packet) (\<lambda>(packet, soc2).
      bindR (json_put ''stats'' stats packet) (\<lambda>packet. Inr (packet, soc2))))))"

text \<open>\<open>while(globalConfigs.getWorkerId().empty());\<close> may run forever.\<close>

partial_function (option) wait_worker_id :: "(nat \<Rightarrow> string) \<Rightarrow> nat \<Rightarrow> nat option" where
  "wait_worker_id wid k = (if wid k = [] then wait_worker_id wid (Suc k) else Some k)"

definition send_next :: "json \<Rightarrow> string \<Rightarrow> SenderSink \<Rightarrow> Socket \<Rightarrow> (json \<times> SenderSink \<times> Socket) result" where
  "send_next stats workerId sink soc =
     bindR (popForwardStack (fwdStack sink)) (\<lambda>(item, fs).
     bindR (create_packet stats item workerId (sink\<lparr>fwdStack := fs\<rparr>) soc) (\<lambda>(packet, soc').
       Inr (packet, sink\<lparr>fwdStack := fs\<rparr>, soc')))"

text \<open>\<open>None\<close>: the call does not return.\<close>

definition popPacket ::
  "json \<Rightarrow> (nat \<Rightarrow> string) \<Rightarrow> SenderSink \<Rightarrow> Socket \<Rightarrow> ((json \<times> SenderSink \<times> Socket) result) option"
where
  "popPacket stats wid sink soc =
     (if wid 0 = []
      then if isFlagSet (handshakeSent sink)
           then (case wait_worker_id wid 1 of
                   None \<Rightarrow> None
                 | Some k \<Rightarrow>
                     if wid (k + 1) \<noteq> []
                     then Some (send_next stats (wid (k + 3)) (sink\<lparr>initSender := setFlag (initSender sink)\<rparr>) soc)
                     else Some (Inr (JNull, sink, soc)))
           else Some (bindR (json_put ''head'' (JNum P_HANDSHAKE) JNull) (\<lambda>packet.
                      bindR (json_put ''id'' (JStr ''W000'') packet) (\<lambda>packet.
                        Inr (packet, sink\<lparr>handshakeSent := setFlag (handshakeSent sink)\<rparr>, soc))))
      else Some (send_next stats (wid 1) sink soc))"

subsection \<open>Packets\<close>

text \<open>The fields of the body, by kind of package.\<close>

definition body_fields :: "ForwardStackPackage \<Rightarrow> (string \<times> json) list" where
  "body_fields item =
     (let i = (''id'', JStr (fp_tableID item)); d = (''data'', JStr (fp_data item));
          p = (''priority'', JNum (fp_priority item)) in
      case fp_statusCode item of
        RECV_ERR \<Rightarrow> [i, d] | DAT_ERR \<Rightarrow> [i, d]
      | RESET_TIMER \<Rightarrow> [i, p] | DAT_RECVD \<Rightarrow> [i, p]
      | INTR_SEND \<Rightarrow> [i, d, p] | FRES_SEND \<Rightarrow> [i, d, p]
      | _ \<Rightarrow> [])"

fun head_code :: "SenderDataType \<Rightarrow> int" where
  "head_code RECV_ERR = P_ERR"
| "head_code DAT_ERR = P_ERR"
| "head_code DAT_RECVD = P_DATA_ACK"
| "head_code INTR_SEND = P_INTR_RES"
| "head_code FRES_SEND = P_FINAL_RES"
| "head_code SEIZE = P_SEIZE"
| "head_code _ = P_RESET"

definition socket_after :: "SenderDataType \<Rightarrow> Socket \<Rightarrow> Socket" where
  "socket_after st soc =
     (if st = SEIZE then soc\<lparr>seizeMode := True, wsLock := True\<rparr>
      else if st = DAT_NULL then soc\<lparr>wsLock := True\<rparr> else soc)"

lemma packet_head_eq:
  "packet_head st sink soc =
     (if seizeMode soc then head_code st OR P_SEIZE else head_code st,
      if st = SEIZE then soc\<lparr>seizeMode := True\<rparr> else soc)"
  using getSocketStatus_has [of soc SOC_SEIZE]
  by (cases st) (simp_all add: packet_head_def getPacketHead_def sink_isEmpty_def)

lemma packet_body_eq:
  "packet_body item soc (JObj [(''head'', a), (''id'', b)]) =
     Inr (JObj ([(''head'', a), (''id'', b)] @ (if body_fields item = [] then [] else [(''body'', JObj (body_fields item))])),
          if fp_statusCode item \<in> {SEIZE, DAT_NULL} then soc\<lparr>wsLock := True\<rparr> else soc)"
  by (cases "fp_statusCode item") (simp_all add: packet_body_def body_fields_def json_put2_def)

text \<open>\<open>create_packet\<close> never throws. The packet carries the head code of its kind, with the
  seize bit added in seize mode and never the quick-send bit, the worker's identifier, the
  statistics, and exactly the fields of the package that belong to its kind; packets without
  a body also mark the socket's normal mode as busy.\<close>

theorem create_packet_outcome:
  "create_packet stats item workerId sink soc =
     Inr (JObj ([(''head'', JNum (if seizeMode soc then head_code (fp_statusCode item) OR P_SEIZE
                                   else head_code (fp_statusCode item))), (''id'', JStr workerId)]
            @ (if body_fields item = [] then [] else [(''body'', JObj (body_fields item))])
            @ [(''stats'', stats)]),
          socket_after (fp_statusCode item) soc)"
  by (cases "fp_statusCode item")
    (simp_all add: create_packet_def packet_head_eq packet_body_eq body_fields_def socket_after_def)

text \<open>No packet made by \<open>create_packet\<close> looks like a handshake.\<close>

definition packet_head_of :: "json \<Rightarrow> int option" where
  "packet_head_of j = (case bindR (json_get ''head'' j) json_int of Inl _ \<Rightarrow> None | Inr h \<Rightarrow> Some h)"

definition is_handshake :: "json \<Rightarrow> bool" where
  "is_handshake j \<longleftrightarrow> packet_head_of j = Some P_HANDSHAKE"

lemma send_next_outcome:
  assumes "fs_inv (fwdStack sink)"
  shows "\<exists>p sink' soc'. send_next stats w sink soc = Inr (p, sink', soc') \<and> \<not> is_handshake p \<and>
     (\<exists>item fs'. popForwardStack (fwdStack sink) = Inr (item, fs') \<and> sink' = sink\<lparr>fwdStack := fs'\<rparr> \<and>
        soc' = socket_after (fp_statusCode item) soc)"
proof -
  obtain item fs' where pop: "popForwardStack (fwdStack sink) = Inr (item, fs')"
    using popForwardStack_outcome [OF assms] by blast
  have "head_code st \<noteq> P_HANDSHAKE" "head_code st OR P_SEIZE \<noteq> P_HANDSHAKE" for st
    by (cases st; simp add: packet_status)+
  then show ?thesis
    by (simp add: send_next_def pop create_packet_outcome is_handshake_def packet_head_of_def)
qed

subsection \<open>Waiting for the identifier\<close>

lemma wait_worker_id_Some:
  assumes "wait_worker_id wid k = Some j" shows "k \<le> j \<and> wid j \<noteq> []"
proof (rule wait_worker_id.raw_induct [OF _ assms, where P = "\<lambda>wid k j. k \<le> j \<and> wid j \<noteq> []"])
  fix w :: "(nat \<Rightarrow> string) \<Rightarrow> nat \<Rightarrow> nat option" and f i m
  assume IH: "\<And>f i m. w f i = Some m \<Longrightarrow> i \<le> m \<and> f m \<noteq> []"
    and eq: "(if f i = [] then w f (Suc i) else Some i) = Some m"
  show "i \<le> m \<and> f m \<noteq> []"
    using IH [of f "Suc i" m] eq by (auto split: if_splits)
qed

lemma wait_worker_id_finds: "wid (k + n) \<noteq> [] \<Longrightarrow> \<exists>j. wait_worker_id wid k = Some j"
proof (induction n arbitrary: k)
  case 0
  then show ?case by (simp add: wait_worker_id.simps [of wid k])
next
  case (Suc n)
  then show ?case by (simp add: wait_worker_id.simps [of wid k])
qed

lemma wait_worker_id_None:
  assumes "\<And>n. wid (k + n) = []" shows "wait_worker_id wid k = None"
proof (cases "wait_worker_id wid k")
  case (Some j)
  then obtain n where "j = k + n" "wid j \<noteq> []" using wait_worker_id_Some by (metis le_iff_add)
  then show ?thesis using assms by simp
qed

text \<open>\<open>popPacket\<close> fails to return exactly when the handshake has been handed out before and
  no later call of \<open>getWorkerId\<close> ever sees an identifier: it then spins forever, and with it
  the socket thread.\<close>

theorem popPacket_spins:
  "popPacket stats wid sink soc = None \<longleftrightarrow> wid 0 = [] \<and> handshakeSent sink \<and> (\<forall>k. wid (Suc k) = [])"
proof -
  have "wait_worker_id wid 1 = None \<longleftrightarrow> (\<forall>k. wid (Suc k) = [])"
  proof
    assume none: "wait_worker_id wid 1 = None"
    have "wid (1 + n) = []" for n using wait_worker_id_finds [of wid 1 n] none by auto
    then show "\<forall>k. wid (Suc k) = []" by simp
  qed (simp add: wait_worker_id_None)
  then show ?thesis by (auto simp: popPacket_def split: option.split)
qed

subsection \<open>The sink as a queue\<close>

text \<open>Packets that announce \<open>SEIZE\<close> overtake all others; the others keep their order.\<close>

definition sink_push :: "ForwardStackPackage \<Rightarrow> SenderSink \<Rightarrow> SenderSink" where
  "sink_push p sink =
     (case pushPacket (fp_data p) (fp_tableID p) (fp_statusCode p)
             (if fp_priority p = 0 then NON_PREEMTABLE else if fp_priority p = 1 then HIGH_PRIORITY
              else if fp_priority p = 2 then MEDIUM_PRIORITY else LOW_PRIORITY) sink of
        Inl _ \<Rightarrow> sink | Inr (_, sink') \<Rightarrow> sink')"

definition sink_pop :: "SenderSink \<Rightarrow> (ForwardStackPackage \<times> SenderSink) option" where
  "sink_pop sink =
     (if sink_size sink = 0 then None
      else (case popForwardStack (fwdStack sink) of
          Inl _ \<Rightarrow> None | Inr (p, fs) \<Rightarrow> Some (p, sink\<lparr>fwdStack := fs\<rparr>)))"

definition sink_view :: "SenderSink \<Rightarrow> (SenderDataType \<times> string \<times> string) list" where
  "sink_view sink = map (\<lambda>p. (fp_statusCode p, fp_tableID p, fp_data p)) (senderStack (fwdStack sink))"

definition seize_first :: "SenderDataType \<times> string \<times> string \<Rightarrow> SenderDataType \<times> string \<times> string \<Rightarrow> bool" where
  "seize_first a b \<longleftrightarrow> (fst b = SEIZE \<longrightarrow> fst a = SEIZE)"

lemma pushPacket_eq:
  assumes "fs_inv (fwdStack sink)"
  shows "pushPacket dat tid st prio sink =
    Inr (0, sink\<lparr>fwdStack := (fwdStack sink)\<lparr>senderStack :=
      (if st = SEIZE then make_package dat tid st (int (priority_value prio)) # senderStack (fwdStack sink)
       else senderStack (fwdStack sink) @ [make_package dat tid st (int (priority_value prio))])\<rparr>\<rparr>)"
  by (simp add: pushPacket_def push_eq [OF assms])

lemma make_package_fields [simp]:
  "fp_statusCode (make_package d t st p) = st" "fp_tableID (make_package d t st p) = t"
  "fp_data (make_package d t st p) = d"
  by (simp_all add: make_package_def)

lemma fs_inv_stack [simp]: "fs_inv (fs\<lparr>senderStack := xs\<rparr>) = fs_inv fs"
  by (simp add: fs_inv_def)

lemma sink_push_eq:
  assumes "fs_inv (fwdStack sink)"
  shows "fs_inv (fwdStack (sink_push p sink))"
    and "sink_view (sink_push p sink) =
      (let v = (fp_statusCode p, fp_tableID p, fp_data p) in
       if fp_statusCode p = SEIZE then v # sink_view sink else sink_view sink @ [v])"
  using assms by (simp_all add: sink_push_def pushPacket_eq sink_view_def Let_def)

lemma sink_pop_eq:
  assumes "fs_inv (fwdStack sink)"
  shows "sink_pop sink = None \<longleftrightarrow> sink_view sink = []"
    and "sink_pop sink = Some (p, sink') \<Longrightarrow> fs_inv (fwdStack sink') \<and>
      sink_view sink = (fp_statusCode p, fp_tableID p, fp_data p) # sink_view sink'"
proof -
  obtain item fs' where pop: "popForwardStack (fwdStack sink) = Inr (item, fs')" "fs_inv fs'"
    and rest: "\<forall>x xs. senderStack (fwdStack sink) = x # xs \<longrightarrow> item = x \<and> senderStack fs' = xs"
    using popForwardStack_outcome [OF assms] by (fastforce split: list.splits)
  show "sink_pop sink = None \<longleftrightarrow> sink_view sink = []"
    by (simp add: sink_pop_def sink_size_def fwd_size_def sink_view_def pop)
  show "fs_inv (fwdStack sink') \<and> sink_view sink = (fp_statusCode p, fp_tableID p, fp_data p) # sink_view sink'"
    if "sink_pop sink = Some (p, sink')"
    using that pop rest
    by (cases "senderStack (fwdStack sink)") (auto simp: sink_pop_def sink_size_def fwd_size_def sink_view_def)
qed

interpretation sink: task_queue "\<lambda>s. fs_inv (fwdStack s)" new_SenderSink sink_push sink_pop sink_view
  "\<lambda>p. (fp_statusCode p, fp_tableID p, fp_data p)" seize_first
  "\<lambda>k s. fst s \<noteq> SEIZE \<and> fst k \<noteq> SEIZE"
proof unfold_locales
  show "fs_inv (fwdStack new_SenderSink)" by (simp add: new_SenderSink_def fs_inv_new)
  show "sink_view new_SenderSink = []" by (simp add: sink_view_def new_SenderSink_def new_ForwardStack_def)
  show "fs_inv (fwdStack (sink_push t q))" if "fs_inv (fwdStack q)" for t q
    using sink_push_eq(1) [OF that] .
  show "fs_inv (fwdStack q')" if "fs_inv (fwdStack q)" "sink_pop q = Some (t, q')" for q t q'
    using sink_pop_eq(2) [OF that] by simp
  show "mset (sink_view (sink_push t q)) =
      add_mset (fp_statusCode t, fp_tableID t, fp_data t) (mset (sink_view q))" if "fs_inv (fwdStack q)" for t q
    by (simp add: sink_push_eq(2) [OF that] Let_def)
  show "sorted_wrt seize_first (sink_view (sink_push t q))"
    if "fs_inv (fwdStack q)" "sorted_wrt seize_first (sink_view q)" for t q
    using that(2) by (auto simp: sink_push_eq(2) [OF that(1)] Let_def sorted_wrt_append seize_first_def)
  show "filter (\<lambda>s. fst s \<noteq> SEIZE \<and> fst k \<noteq> SEIZE) (sink_view (sink_push t q)) =
      filter (\<lambda>s. fst s \<noteq> SEIZE \<and> fst k \<noteq> SEIZE) (sink_view q @ [(fp_statusCode t, fp_tableID t, fp_data t)])"
    if "fs_inv (fwdStack q)" for t q k
    by (simp add: sink_push_eq(2) [OF that] Let_def)
  show "sink_pop q = None \<longleftrightarrow> sink_view q = []" if "fs_inv (fwdStack q)" for q
    using sink_pop_eq(1) [OF that] .
  show "sink_view q = (fp_statusCode t, fp_tableID t, fp_data t) # sink_view q'"
    if "fs_inv (fwdStack q)" "sink_pop q = Some (t, q')" for q t q'
    using sink_pop_eq(2) [OF that] by simp
qed


subsection \<open>Histories of a sink\<close>

text \<open>
  What can happen to a sink: packages are pushed, packages are popped, the server's
  acknowledgements are matched. \<open>sent\<close> are the packages popped so far, \<open>n\<close> counts the
  acknowledgements that were accepted.
\<close>

inductive sink_run :: "SenderSink \<Rightarrow> ForwardStackPackage list \<Rightarrow> nat \<Rightarrow> bool" where
  start: "sink_run new_SenderSink [] 0"
| pushed: "sink_run s sent n \<Longrightarrow> pushPacket dat tid st prio s = Inr (rc, s') \<Longrightarrow> sink_run s' sent n"
| popped: "sink_run s sent n \<Longrightarrow> popForwardStack (fwdStack s) = Inr (p, fs) \<Longrightarrow>
    sink_run (s\<lparr>fwdStack := fs\<rparr>) (sent @ [p]) n"
| matched: "sink_run s sent n \<Longrightarrow> matchItemInAwaitStack code tid s = Inr (rc, s') \<Longrightarrow>
    sink_run s' sent (if rc = 0 then Suc n else n)"

lemma tracked_le: "await_inv s \<Longrightarrow> length (tracked s) \<le> 6"
  by (simp add: tracked_def await_inv_def)

lemma sink_run_inv:
  assumes "sink_run s sent n"
  shows "fs_inv (fwdStack s) \<and> tracked (awaitStack (fwdStack s)) = take 6 (filter ackable sent) \<and>
     card (acked_slots (awaitStack (fwdStack s))) = n"
  using assms
proof induction
  case start
  then show ?case
    using fs_inv_new
    by (auto simp: new_SenderSink_def new_ForwardStack_def tracked_def new_AwaitStack_def acked_slots_def)
next
  case (pushed s sent n dat tid st prio rc s')
  then show ?case by (auto simp: pushPacket_eq)
next
  case (popped s sent n p fs)
  have le: "length (tracked (awaitStack (fwdStack s))) \<le> 6"
    using popped.IH by (intro tracked_le) (simp add: fs_inv_def)
  have new: "\<not> ackable new_package" by (simp add: ackable_def new_package_def)
  from popped popForwardStack_outcome [of "fwdStack s"] new le show ?case
    by (auto simp: split: list.splits if_splits)
next
  case (matched s sent n code tid rc s')
  let ?a = "awaitStack (fwdStack s)"
  have inv: "await_inv ?a" using matched.IH by (simp add: fs_inv_def)
  show ?case
  proof (cases "first_slot (awaits code tid ?a) 6")
    case None
    then have "s' = s \<and> rc = - 1"
      using matched.hyps(2) matchItem_cases [OF inv, of code tid] by (auto simp: matchItemInAwaitStack_def)
    then show ?thesis using matched.IH by simp
  next
    case (Some i)
    then have few: "card (acked_slots ?a) \<noteq> 5"
      and s': "rc = 0" "s' = s\<lparr>fwdStack := (fwdStack s)\<lparr>awaitStack := ack_slot i ?a\<rparr>\<rparr>"
      using matched.hyps(2) matchItem_cases [OF inv, of code tid]
      by (auto simp: matchItemInAwaitStack_def split: if_splits)
    show ?thesis
      using matched.IH s' ack_slot_inv [OF inv Some few] tracked_ack_slot [OF inv]
      by (simp add: fs_inv_def)
  qed
qed

text \<open>C38: In every history of the sink, pushing and popping return, and the packages that are
  tracked for acknowledgement are the first six results ever sent: no later result is ever
  tracked, and at most five acknowledgements are accepted.\<close>

theorem only_six_results_tracked:
  assumes "sink_run s sent n"
  shows "tracked (awaitStack (fwdStack s)) = take 6 (filter ackable sent) \<and> n \<le> 5 \<and>
     (\<exists>r. popForwardStack (fwdStack s) = Inr r) \<and> (\<exists>s'. pushPacket dat tid st prio s = Inr (0, s'))"
proof -
  have inv: "fs_inv (fwdStack s)" and n: "card (acked_slots (awaitStack (fwdStack s))) = n"
    and tr: "tracked (awaitStack (fwdStack s)) = take 6 (filter ackable sent)"
    using sink_run_inv [OF assms] by auto
  have "n \<le> 5" using inv n by (simp add: fs_inv_def await_inv_def)
  moreover have "\<exists>r. popForwardStack (fwdStack s) = Inr r" using popForwardStack_outcome [OF inv] by blast
  ultimately show ?thesis using tr by (simp add: pushPacket_eq [OF inv])
qed

text \<open>C37: In a history in which five results have been acknowledged, the acknowledgement of the
  sixth never returns: \<open>matchItem\<close> deadlocks with itself, and with it every task thread that
  later wants to match one.\<close>

theorem sixth_ack_deadlocks:
  assumes "sink_run s sent 5" and "awaits code tid (awaitStack (fwdStack s)) i" and "i < 6"
  shows "matchItemInAwaitStack code tid s = Inl Blocked"
proof -
  have inv: "await_inv (awaitStack (fwdStack s))" and five: "card (acked_slots (awaitStack (fwdStack s))) = 5"
    using sink_run_inv [OF assms(1)] by (auto simp: fs_inv_def)
  obtain k where "first_slot (awaits code tid (awaitStack (fwdStack s))) 6 = Some k"
    using first_slot_ex [where P = "awaits code tid (awaitStack (fwdStack s))", OF assms(3,2)] by auto
  then show ?thesis
    using matchItem_cases [OF inv, of code tid] five by (simp add: matchItemInAwaitStack_def)
qed

subsection \<open>A concrete history\<close>

datatype sink_op = Push string | Pop | Match string

text \<open>Runs operations on result packets of a table.\<close>

fun replay :: "sink_op list \<Rightarrow> SenderSink \<times> ForwardStackPackage list \<times> nat \<Rightarrow> (SenderSink \<times> ForwardStackPackage list \<times> nat) option" where
  "replay [] x = Some x"
| "replay (Push t # ops) (s, sent, n) =
     (case pushPacket ''1'' t FRES_SEND HIGH_PRIORITY s of
        Inl _ \<Rightarrow> None | Inr (rc, s') \<Rightarrow> replay ops (s', sent, n))"
| "replay (Pop # ops) (s, sent, n) =
     (case popForwardStack (fwdStack s) of
        Inl _ \<Rightarrow> None | Inr (p, fs) \<Rightarrow> replay ops (s\<lparr>fwdStack := fs\<rparr>, sent @ [p], n))"
| "replay (Match t # ops) (s, sent, n) =
     (case matchItemInAwaitStack SP_FRES_ACK t s of
        Inl _ \<Rightarrow> None | Inr (rc, s') \<Rightarrow> replay ops (s', sent, if rc = 0 then Suc n else n))"

lemma replay_run:
  "sink_run s sent n \<Longrightarrow> replay ops (s, sent, n) = Some (s', sent', n') \<Longrightarrow> sink_run s' sent' n'"
proof (induction ops arbitrary: s sent n)
  case (Cons a ops)
  show ?case
  proof (cases a)
    case (Push t)
    then show ?thesis
      using Cons.prems Cons.IH by (auto split: sum.splits dest: sink_run.pushed)
  next
    case Pop
    then show ?thesis
      using Cons.prems Cons.IH by (auto split: sum.splits dest: sink_run.popped)
  next
    case (Match t)
    then show ?thesis
      using Cons.prems Cons.IH by (auto split: sum.splits dest: sink_run.matched)
  qed
qed simp

definition seven_results :: "sink_op list" where
  "seven_results =
     [Push ''a'', Push ''b'', Push ''c'', Push ''d'', Push ''e'', Push ''f'', Push ''g'',
      Pop, Pop, Pop, Pop, Pop, Pop, Pop,
      Match ''a'', Match ''b'', Match ''c'', Match ''d'', Match ''e'']"

lemma seven_results_replay:
  obtains s sent where "sink_run s sent 5" and "length sent = 7"
    and "awaits SP_FRES_ACK ''f'' (awaitStack (fwdStack s)) 5"
    and "replay seven_results (new_SenderSink, [], 0) = Some (s, sent, 5)"
proof -
  have "case replay seven_results (new_SenderSink, [], 0) of None \<Rightarrow> False
     | Some (s, sent, n) \<Rightarrow> n = 5 \<and> length sent = 7 \<and> awaits SP_FRES_ACK ''f'' (awaitStack (fwdStack s)) 5"
    by code_simp
  then obtain s sent where r: "replay seven_results (new_SenderSink, [], 0) = Some (s, sent, 5)"
      "length sent = 7" "awaits SP_FRES_ACK ''f'' (awaitStack (fwdStack s)) 5"
    by (auto split: option.splits)
  with replay_run [OF sink_run.start r(1)] that show ?thesis by blast
qed

text \<open>Seven results were sent, six are tracked.\<close>

theorem only_six_results_tracked_witness:
  "\<exists>s sent. replay seven_results (new_SenderSink, [], 0) = Some (s, sent, 5) \<and> length sent = 7 \<and>
     length (tracked (awaitStack (fwdStack s))) \<le> 6"
proof -
  obtain s sent where r: "sink_run s sent 5" "length sent = 7"
      "replay seven_results (new_SenderSink, [], 0) = Some (s, sent, 5)"
    by (rule seven_results_replay)
  from only_six_results_tracked [OF r(1)] r(2,3) show ?thesis by auto
qed

theorem sixth_ack_deadlocks_witness:
  "\<exists>s sent. replay seven_results (new_SenderSink, [], 0) = Some (s, sent, 5) \<and>
     matchItemInAwaitStack SP_FRES_ACK ''f'' s = Inl Blocked"
proof -
  obtain s sent where r: "sink_run s sent 5" "awaits SP_FRES_ACK ''f'' (awaitStack (fwdStack s)) 5"
      "replay seven_results (new_SenderSink, [], 0) = Some (s, sent, 5)"
    by (rule seven_results_replay)
  from sixth_ack_deadlocks [OF r(1,2)] r(3) show ?thesis by auto
qed

end
