(* ===== verification/Doubles.thy ===== *)
theory Doubles
  imports Complex_Main Prelude "HOL-Library.Log_Nat"
begin

section \<open>Floating-point numbers by their exact values\<close>

text \<open>
  Where the program reads or divides a \<open>double\<close> the model keeps its exact value as a rational
  number. This theory holds the two functions of the standard library behind that: the double
  nearest to a number (the value of \<open>strtod\<close>, ties to even), and the gap to the next double
  towards zero (\<open>std::nextafter\<close>). Doubles have 53 significant bits and exponents up to 1023.
\<close>

text \<open>The exponent \<open>e\<close> with \<open>2 ^ e \<le> q < 2 ^ (e + 1)\<close>, for positive numbers.\<close>

definition binary_exponent :: "rat \<Rightarrow> int" where
  "binary_exponent q =
     (case quotient_of q of (a, b) \<Rightarrow>
        let e = int (floorlog 2 (nat a)) - int (floorlog 2 (nat b))
        in if 2 powi e \<le> q then e else e - 1)"

definition round_even :: "rat \<Rightarrow> int" where
  "round_even q =
     (let f = floor q; d = q - of_int f
      in if d < 1 / 2 \<or> d = 1 / 2 \<and> even f then f else f + 1)"

text \<open>The distance of neighbouring doubles around a positive number; below \<open>2 ^ (-1022)\<close> it is constant.\<close>

definition double_ulp :: "rat \<Rightarrow> rat" where
  "double_ulp q = 2 powi (max (binary_exponent q - 52) (- 1074))"

text \<open>The nearest double; \<open>None\<close> when it is infinite.\<close>

definition to_double :: "rat \<Rightarrow> rat option" where
  "to_double q =
     (if q = 0 then Some 0
      else let u = double_ulp \<bar>q\<bar>; d = of_int (round_even (q / u)) * u
           in if \<bar>d\<bar> < 2 ^ 1024 then Some d else None)"

text \<open>\<open>std::nextafter(x, 0) - x\<close>, without its sign.\<close>

definition step_to_zero :: "rat \<Rightarrow> rat" where
  "step_to_zero q =
     (let e = binary_exponent \<bar>q\<bar>
      in if q = 0 then 0 else 2 powi (max ((if \<bar>q\<bar> = 2 powi e then e - 1 else e) - 52) (- 1074)))"

subsection \<open>Small integers are exact\<close>

lemma round_even_int [simp]: "round_even (of_int n) = n"
  by (simp add: round_even_def)

lemma floorlog_powi:
  assumes "0 < n"
  shows "2 powi (int (floorlog 2 n) - 1) \<le> (of_nat n :: rat)" and "of_nat n < (2 :: rat) powi int (floorlog 2 n)"
proof -
  have b: "2 ^ (floorlog 2 n - 1) \<le> n" "n < 2 ^ floorlog 2 n" using floorlog_bounds [OF assms, of 2] by auto
  have "floorlog 2 n \<noteq> 0" using assms by (simp add: floorlog_eq_zero_iff)
  then have "(2 :: rat) powi (int (floorlog 2 n) - 1) = 2 ^ (floorlog 2 n - 1)"
    by (simp add: power_int_def nat_diff_distrib)
  also have "\<dots> \<le> of_nat n" using b(1) by (metis of_nat_le_iff of_nat_numeral of_nat_power)
  finally show "2 powi (int (floorlog 2 n) - 1) \<le> (of_nat n :: rat)" .
  have "(of_nat n :: rat) < 2 ^ floorlog 2 n" using b(2) by (metis of_nat_less_iff of_nat_numeral of_nat_power)
  then show "of_nat n < (2 :: rat) powi int (floorlog 2 n)" by (simp add: power_int_def)
qed

lemma binary_exponent_bounds:
  assumes "0 < q"
  shows "2 powi binary_exponent q \<le> q \<and> q < 2 powi (binary_exponent q + 1)"
proof -
  obtain a b where ab: "quotient_of q = (a, b)" by fastforce
  have b: "0 < b" using quotient_of_denom_pos [OF ab] .
  have q: "q = of_int a / of_int b" using quotient_of_div [OF ab] .
  have a: "0 < a" using assms b by (simp add: q zero_less_divide_iff)
  define fa fb where "fa = int (floorlog 2 (nat a))" and "fb = int (floorlog 2 (nat b))"
  have A: "2 powi (fa - 1) \<le> (of_int a :: rat)" "of_int a < (2 :: rat) powi fa"
    using floorlog_powi [of "nat a"] a by (simp_all add: fa_def)
  have B: "2 powi (fb - 1) \<le> (of_int b :: rat)" "of_int b < (2 :: rat) powi fb"
    using floorlog_powi [of "nat b"] b by (simp_all add: fb_def)
  have "2 powi (fa - fb - 1) \<le> q"
  proof -
    have "2 powi (fa - fb - 1) * of_int b \<le> (2 :: rat) powi (fa - fb - 1) * 2 powi fb" using B(2) by simp
    also have "\<dots> = 2 powi (fa - 1)" by (simp flip: power_int_add)
    finally show ?thesis using A(1) b by (simp add: q pos_le_divide_eq)
  qed
  moreover have "q < 2 powi (fa - fb + 1)"
  proof -
    have "of_int a < (2 :: rat) powi (fa - fb + 1) * 2 powi (fb - 1)" using A(2) by (simp flip: power_int_add)
    also have "\<dots> \<le> 2 powi (fa - fb + 1) * of_int b" using B(1) by simp
    finally show ?thesis using b by (simp add: q pos_divide_less_eq)
  qed
  ultimately show ?thesis by (simp add: binary_exponent_def ab Let_def flip: fa_def fb_def)
qed

lemma binary_exponent_less:
  assumes "0 < q" and "q < 2 powi k"
  shows "binary_exponent q < k"
proof (rule ccontr)
  assume "\<not> binary_exponent q < k"
  then have "(2 :: rat) powi k \<le> 2 powi binary_exponent q" by (intro power_int_increasing) auto
  then show False using binary_exponent_bounds [OF assms(1)] assms(2) by linarith
qed

lemma powi_neg_int: "\<exists>n. 0 < n \<and> (2 :: rat) powi (- int k) * of_int n = 1"
  by (rule exI [of _ "2 ^ k"]) (simp add: power_int_minus)

lemma to_double_int:
  assumes "\<bar>n\<bar> < 2 ^ 53"
  shows "to_double (of_int n) = Some (of_int n)"
proof (cases "n = 0")
  case False
  let ?q = "\<bar>of_int n :: rat\<bar>"
  have "(of_int \<bar>n\<bar> :: rat) < of_int (2 ^ 53)" using assms by (simp only: of_int_less_iff)
  then have "?q < 2 powi 53" by (simp only: of_int_abs of_int_power of_int_numeral power_int_numeral)
  then have e: "binary_exponent ?q < 53" using False by (intro binary_exponent_less) auto
  define k where "k = nat (- max (binary_exponent ?q - 52) (- 1074))"
  have u: "double_ulp ?q = 2 powi (- int k)" using e by (simp add: double_ulp_def k_def)
  obtain m where m: "0 < m" "2 powi (- int k) * (of_int m :: rat) = 1" using powi_neg_int [of k] by blast
  have p: "(0 :: rat) < 2 powi (- int k)" by simp
  have "(of_int n :: rat) = of_int (n * m) * 2 powi (- int k)" using m(2) by (simp add: mult.commute)
  then have q: "of_int n / 2 powi (- int k) = (of_int (n * m) :: rat)" using p by (metis less_irrefl nonzero_mult_div_cancel_right)
  have "(2 :: rat) ^ 53 < 2 ^ 1024" by (rule power_strict_increasing) simp_all
  then have "\<bar>of_int n :: rat\<bar> < 2 ^ 1024" using \<open>?q < 2 powi 53\<close> by (simp only: power_int_numeral)
  moreover have "of_int (n * m) * (2 :: rat) powi (- int k) = of_int n" using m by (simp add: mult.commute)
  ultimately show ?thesis using False by (simp add: to_double_def u q Let_def del: of_int_mult)
qed (simp add: to_double_def)

subsection \<open>Around a double\<close>

lemma binary_exponent_unique:
  assumes "2 powi k \<le> q" and "q < 2 powi (k + 1)"
  shows "binary_exponent q = k"
proof -
  have "0 < q" using assms(1) by (rule order_less_le_trans [rotated]) simp
  then have b: "2 powi binary_exponent q \<le> q" "q < 2 powi (binary_exponent q + 1)" using binary_exponent_bounds by auto
  have "binary_exponent q < k + 1" using \<open>0 < q\<close> assms(2) by (rule binary_exponent_less)
  moreover have "\<not> binary_exponent q + 1 \<le> k"
  proof
    assume "binary_exponent q + 1 \<le> k"
    then have "(2 :: rat) powi (binary_exponent q + 1) \<le> 2 powi k" by (intro power_int_increasing) auto
    then show False using b(2) assms(1) by linarith
  qed
  ultimately show ?thesis by simp
qed

lemma round_even_near:
  assumes "\<bar>y - of_int n\<bar> < 1 / 2"
  shows "round_even y = n"
proof -
  consider "of_int n \<le> y" "\<lfloor>y\<rfloor> = n" | "y < of_int n" "\<lfloor>y\<rfloor> = n - 1"
    using assms by (cases "of_int n \<le> y") (auto simp: floor_eq_iff abs_if split: if_splits)
  then show ?thesis
    using assms by cases (auto simp: round_even_def Let_def abs_if split: if_splits)
qed

definition is_double :: "rat \<Rightarrow> bool" where
  "is_double q \<longleftrightarrow> to_double q = Some q"

text \<open>The significand and the exponent of a positive double.\<close>

definition double_exp :: "rat \<Rightarrow> int" where
  "double_exp q = max (binary_exponent q) (- 1022) - 52"

lemma double_ulp_exp: "double_ulp q = 2 powi double_exp q"
  by (simp add: double_ulp_def double_exp_def max_def)

lemma double_form:
  assumes "is_double q" and "0 < q"
  obtains f :: nat where "q = of_nat f * 2 powi double_exp q" and "0 < f" and "f < 2 ^ 53"
    and "double_exp q = - 1074 \<or> 2 ^ 52 \<le> f" and "- 1074 \<le> double_exp q" and "double_exp q \<le> 971" and "q < 2 ^ 1024"
proof -
  let ?e = "double_exp q" and ?u = "2 powi double_exp q :: rat"
  have u: "0 < ?u" by simp
  have r: "of_int (round_even (q / ?u)) * ?u = q" "q < 2 ^ 1024"
    using assms by (auto simp: is_double_def to_double_def double_ulp_exp Let_def split: if_splits)
  let ?n = "round_even (q / ?u)"
  have "0 < ?n" using r(1) assms(2) u by (metis of_int_0_less_iff zero_less_mult_pos2)
  then have q: "q = of_nat (nat ?n) * ?u" using r(1) by simp
  have b: "2 powi binary_exponent q \<le> q" "q < 2 powi (binary_exponent q + 1)"
    using binary_exponent_bounds [OF assms(2)] by auto
  have "nat ?n < 2 ^ 53"
  proof -
    have "q < 2 powi (?e + 53)"
      using b(2) by (rule order_less_le_trans) (auto simp: double_exp_def intro!: power_int_increasing)
    then have "of_nat (nat ?n) * ?u < 2 ^ 53 * ?u" unfolding q [symmetric] by (simp add: power_int_add mult.commute)
    then have "(of_nat (nat ?n) :: rat) < of_nat (2 ^ 53)" using u by simp
    then show ?thesis by (simp only: of_nat_less_iff)
  qed
  moreover have "?e = - 1074 \<or> 2 ^ 52 \<le> nat ?n"
  proof (cases "binary_exponent q \<le> - 1022")
    case False
    then have "2 powi (?e + 52) \<le> q" using b(1) by (simp add: double_exp_def)
    then have "2 ^ 52 * ?u \<le> of_nat (nat ?n) * ?u" unfolding q [symmetric] by (simp add: power_int_add mult.commute)
    then have "of_nat (2 ^ 52) \<le> (of_nat (nat ?n) :: rat)" using u by simp
    then show ?thesis by (simp only: of_nat_le_iff simp_thms)
  qed (simp add: double_exp_def)
  moreover have "?e \<le> 971"
  proof -
    have "q < 2 powi 1024" using r(2) by simp
    then have "binary_exponent q < 1024" using assms(2) by (intro binary_exponent_less) auto
    then show ?thesis by (simp add: double_exp_def)
  qed
  ultimately show ?thesis using that [of "nat ?n"] q \<open>0 < ?n\<close> r(2) by (simp add: double_exp_def)
qed

text \<open>
  Every number strictly between the two midpoints around a double is rounded to it. Below a power of
  two the doubles are closer, down to the smallest exponent.
\<close>

definition lower_gap :: "nat \<Rightarrow> int \<Rightarrow> rat" where
  "lower_gap f e = (if f = 2 ^ 52 \<and> - 1074 < e then 2 powi e / 4 else 2 powi e / 2)"

lemma to_double_between:
  assumes "q = of_nat f * 2 powi e" and "0 < f" and "f < 2 ^ 53" and "e = - 1074 \<or> 2 ^ 52 \<le> f" and "- 1074 \<le> e"
    and "q < 2 ^ 1024" and "q - lower_gap f e < x" and "x < q + 2 powi e / 2"
  shows "to_double x = Some q"
proof -
  let ?u = "2 powi e :: rat"
  have u: "0 < ?u" by simp
  have half: "lower_gap f e \<le> ?u / 2" using u by (simp add: lower_gap_def)
  define y where "y = x / ?u"
  have x: "x = y * ?u" by (simp add: y_def)
  have "(of_nat f - 1 / 2) * ?u < y * ?u" "y * ?u < (of_nat f + 1 / 2) * ?u"
    using assms(1,7,8) half by (simp_all add: x algebra_simps)
  then have y: "of_nat f - 1 / 2 < y" "y < of_nat f + 1 / 2" using u by simp_all
  have y0: "0 < y" using y(1) assms(2) by (rule_tac order_le_less_trans [of _ "of_nat f - 1 / 2"]) (simp_all add: Suc_leI)
  then have x0: "0 < x" by (simp add: x)
  have q0: "0 < q" using assms(2) by (simp add: assms(1))
  have near: "to_double x = Some q" if "double_exp x = i" "\<bar>x / 2 powi i - of_int n\<bar> < 1 / 2" "of_int n * 2 powi i = q" for n i
    using round_even_near [OF that(2)] that(1,3) x0 q0 assms(6)
    by (simp add: to_double_def double_ulp_exp Let_def)
  have "f + 1 \<le> 2 ^ 53" using assms(3) by simp
  then have "of_nat (f + 1) \<le> (of_nat (2 ^ 53) :: rat)" by (simp only: of_nat_le_iff)
  then have f1: "(of_nat f :: rat) \<le> 2 ^ 53 - 1" by simp
  show ?thesis
  proof (cases "y < 2 ^ 52 \<and> f = 2 ^ 52 \<and> - 1074 < e")
    case True
    have "x < 2 powi (e + 52)" using True u by (simp add: x power_int_add mult.commute)
    moreover have "q - ?u / 4 < x" using True assms(7) by (simp add: lower_gap_def)
    then have "(2 ^ 52 - 1 / 4) * ?u < y * ?u" using True by (simp add: assms(1) x algebra_simps)
    then have y4: "2 ^ 52 - 1 / 4 < y" using u by simp
    then have "2 powi (e + 51) \<le> x" using u by (simp add: x power_int_add mult.commute)
    ultimately have "binary_exponent x = e + 51" by (intro binary_exponent_unique) (simp_all add: add.commute)
    then have "double_exp x = e - 1" using True by (simp add: double_exp_def)
    then show ?thesis
    proof (rule near)
      have "x / 2 powi (e - 1) = 2 * y" using u by (simp add: x power_int_diff)
      then show "\<bar>x / 2 powi (e - 1) - of_int (2 ^ 53)\<bar> < 1 / 2" using y4 True by simp
      show "of_int (2 ^ 53) * 2 powi (e - 1) = q" using True by (simp add: assms(1) power_int_diff)
    qed
  next
    case False
    have "double_exp x = e"
    proof (cases "2 ^ 52 \<le> y")
      case True
      then have "2 powi (e + 52) \<le> x" using u by (simp add: x power_int_add mult.commute)
      moreover have "y < 2 ^ 53" using y(2) f1 by linarith
      then have "x < 2 powi (e + 52 + 1)" using u by (simp add: x power_int_add mult.commute)
      ultimately have "binary_exponent x = e + 52" by (rule binary_exponent_unique)
      then show ?thesis using assms(5) by (simp add: double_exp_def)
    next
      case False
      have "e = - 1074"
      proof (rule ccontr)
        assume "e \<noteq> - 1074"
        then have "2 ^ 52 \<le> f" using assms(4) by simp
        moreover have "f \<noteq> 2 ^ 52" using False \<open>e \<noteq> - 1074\<close> assms(5) \<open>\<not> (y < 2 ^ 52 \<and> f = 2 ^ 52 \<and> - 1074 < e)\<close> by auto
        ultimately have "2 ^ 52 + 1 \<le> f" by simp
        then have "of_nat (2 ^ 52 + 1) \<le> (of_nat f :: rat)" by (simp only: of_nat_le_iff)
        then show False using False y(1) by simp
      qed
      moreover have "binary_exponent x < e + 52"
        using False u x0 by (intro binary_exponent_less) (simp_all add: x power_int_add mult.commute)
      ultimately show ?thesis by (simp add: double_exp_def)
    qed
    then show ?thesis
    proof (rule near)
      have "x / ?u - of_int (int f) = y - of_nat f" by (simp add: x)
      then show "\<bar>x / ?u - of_int (int f)\<bar> < 1 / 2" using y by linarith
    qed (simp add: assms(1))
  qed
qed

subsection \<open>Signs, and rounding twice\<close>

lemma round_even_uminus: "round_even (- y) = - round_even y"
proof (cases "y = of_int \<lfloor>y\<rfloor>")
  case True
  then show ?thesis by (metis of_int_minus round_even_int)
next
  case False
  then have c: "\<lfloor>- y\<rfloor> = - \<lfloor>y\<rfloor> - 1" by (simp add: floor_minus ceiling_altdef)
  then show ?thesis by (auto simp: round_even_def Let_def)
qed

lemma to_double_uminus: "to_double (- x) = map_option uminus (to_double x)"
  by (simp add: to_double_def Let_def round_even_uminus)

lemma is_double_abs: "is_double q \<Longrightarrow> is_double \<bar>q\<bar>"
  by (cases "q < 0") (simp_all add: is_double_def to_double_uminus abs_if)

lemma to_double_zero [simp]: "to_double 0 = Some 0"
  by (simp add: to_double_def)

lemma is_double_zero [simp]: "is_double 0"
  by (simp add: is_double_def)

lemma is_double_parts:
  assumes "0 < f" and "f \<le> 2 ^ 53" and "e = - 1074 \<or> 2 ^ 52 \<le> f" and "- 1074 \<le> e" and "of_nat f * 2 powi e < (2 ^ 1024 :: rat)"
  shows "is_double (of_nat f * 2 powi e)"
proof -
  have dbl: "is_double (of_nat g * 2 powi i)"
    if "0 < g" "g < 2 ^ 53" "i = - 1074 \<or> 2 ^ 52 \<le> g" "- 1074 \<le> i" "of_nat g * 2 powi i < (2 ^ 1024 :: rat)" for g i
    unfolding is_double_def
    by (rule to_double_between [OF refl that]) (simp_all add: lower_gap_def)
  show ?thesis
  proof (cases "f = 2 ^ 53")
    case True
    then have "of_nat f * 2 powi e = (of_nat (2 ^ 52) * 2 powi (e + 1) :: rat)" by (simp add: power_int_add)
    then show ?thesis using dbl [of "2 ^ 52" "e + 1"] assms(4,5) by simp
  next
    case False
    then show ?thesis using dbl [of f e] assms by simp
  qed
qed

lemma round_even_mono_nat:
  assumes "of_nat a \<le> y" and "y \<le> of_nat b"
  shows "int a \<le> round_even y" and "round_even y \<le> int b"
proof -
  have "int a \<le> \<lfloor>y\<rfloor>" using assms(1) by (simp add: le_floor_iff)
  then show "int a \<le> round_even y" by (simp add: round_even_def Let_def)
  show "round_even y \<le> int b"
  proof (cases "y = of_nat b")
    case True
    then show ?thesis using round_even_int [of "int b"] by simp
  next
    case False
    then have "\<lfloor>y\<rfloor> < int b" using assms(2) by (simp add: floor_less_iff)
    then show ?thesis by (simp add: round_even_def Let_def)
  qed
qed

lemma to_double_is_double:
  assumes "to_double x = Some q"
  shows "is_double q"
proof -
  have pos: "is_double q" if "0 < x" "to_double x = Some q" for x q
  proof -
    let ?e = "double_exp x" and ?u = "2 powi double_exp x :: rat"
    have u: "0 < ?u" by simp
    let ?n = "round_even (x / ?u)"
    have q: "q = of_int ?n * ?u" "\<bar>q\<bar> < 2 ^ 1024"
      using that by (auto simp: to_double_def double_ulp_exp Let_def split: if_splits)
    have b: "2 powi binary_exponent x \<le> x" "x < 2 powi (binary_exponent x + 1)"
      using binary_exponent_bounds [OF that(1)] by auto
    have "x < 2 powi (?e + 53)"
      using b(2) by (rule order_less_le_trans) (auto simp: double_exp_def intro!: power_int_increasing)
    then have "x / ?u \<le> of_nat (2 ^ 53)" by (simp add: power_int_add pos_divide_le_eq mult.commute less_imp_le)
    moreover have "of_nat 0 \<le> x / ?u" using that(1) by simp
    ultimately have n: "0 \<le> ?n" "?n \<le> int (2 ^ 53)"
      using round_even_mono_nat [of 0 "x / ?u" "2 ^ 53"] by simp_all
    have low: "?e = - 1074 \<or> 2 ^ 52 \<le> nat ?n"
    proof (cases "binary_exponent x \<le> - 1022")
      case False
      then have "2 powi (?e + 52) \<le> x" using b(1) by (simp add: double_exp_def)
      then have "of_nat (2 ^ 52) \<le> x / ?u" by (simp add: power_int_add pos_le_divide_eq mult.commute)
      then have "int (2 ^ 52) \<le> ?n" using \<open>x / ?u \<le> of_nat (2 ^ 53)\<close> by (rule round_even_mono_nat(1))
      then have "nat (int (2 ^ 52)) \<le> nat ?n" by (rule nat_mono)
      then show ?thesis by (simp only: nat_int simp_thms)
    qed (simp add: double_exp_def)
    show ?thesis
    proof (cases "?n = 0")
      case False
      have "q = of_nat (nat ?n) * ?u" using q(1) n(1) by simp
      then show ?thesis using is_double_parts [of "nat ?n" ?e] False n low q(2) u by (simp add: double_exp_def)
    qed (simp add: q(1))
  qed
  consider "x = 0" | "0 < x" | "0 < - x" by linarith
  then show ?thesis
  proof cases
    case 1
    then show ?thesis using assms by (simp add: to_double_def)
  next
    case 3
    have "is_double (- q)" by (rule pos [OF 3]) (simp add: to_double_uminus assms)
    then show ?thesis by (simp add: is_double_def to_double_uminus)
  qed (use pos assms in blast)
qed
text \<open>A number of moderate size is not rounded to infinity.\<close>

lemma to_double_finite:
  assumes "\<bar>q\<bar> \<le> 2 ^ 53"
  obtains d where "to_double q = Some d" and "is_double d"
proof -
  have pos: "to_double x \<noteq> None" if "0 < x" "x \<le> 2 ^ 53" for x
  proof -
    let ?e = "double_exp x" and ?u = "2 powi double_exp x :: rat"
    let ?n = "round_even (x / ?u)"
    have "x < 2 powi (binary_exponent x + 1)" using binary_exponent_bounds [OF that(1)] by simp
    then have "x < 2 powi (?e + 53)"
      by (rule order_less_le_trans) (auto simp: double_exp_def intro!: power_int_increasing)
    then have "x / ?u \<le> of_nat (2 ^ 53)" by (simp add: power_int_add pos_divide_le_eq mult.commute less_imp_le)
    moreover have "of_nat 0 \<le> x / ?u" using that(1) by simp
    ultimately have n: "0 \<le> ?n" "?n \<le> int (2 ^ 53)"
      using round_even_mono_nat [of 0 "x / ?u" "2 ^ 53"] by simp_all
    have "x < 2 powi (54 :: int)" using that(2) by (rule order_le_less_trans) simp
    then have "?e \<le> 1" using binary_exponent_less [OF that(1)] by (fastforce simp: double_exp_def)
    then have "?u \<le> 2 powi 1" by (intro power_int_increasing) auto
    moreover have "of_int ?n \<le> (2 ^ 53 :: rat)" using n(2) by (simp flip: of_int_le_iff)
    ultimately have "of_int ?n * ?u \<le> (2 ^ 53 * 2 :: rat)" using n(1) by (intro mult_mono) auto
    also have "\<dots> < 2 ^ 1024" by simp
    finally show ?thesis using that(1) n(1) by (simp add: to_double_def double_ulp_exp Let_def abs_mult)
  qed
  consider "q = 0" | "0 < q" | "0 < - q" by linarith
  then have "to_double q \<noteq> None"
  proof cases
    case 3
    then show ?thesis using pos [of "- q"] assms by (simp add: to_double_uminus)
  qed (use pos [of q] assms in auto)
  then show ?thesis using that to_double_is_double by blast
qed

end
