(* ===== verification/Json_Lexer.thy ===== *)
theory Json_Lexer
  imports Json Doubles
begin

unbundle bit_operations_syntax

section \<open>Reading JSON text, tokens: include/json.hpp\<close>

text \<open>
  The lexer of \<open>json::parse\<close>. Its input is the rest of the text; \<open>get\<close> takes the first
  character off and \<open>unget\<close> puts it back, so every function answers what it has read and the rest.
  A token carries its value, where the source keeps it in the lexer for the parser to fetch; the
  two token types that only occur in error messages are left out.
  The locale's decimal point is \<open>.\<close>, and comments are not ignored, as by default.
\<close>

abbreviation byte :: "char \<Rightarrow> nat" where
  "byte \<equiv> of_char"

datatype token_type =
    begin_array | end_array | begin_object | end_object | name_separator | value_separator
  | literal_true | literal_false | literal_null
  | value_string string | value_unsigned int | value_integer int | value_float "rat option"
  | end_of_input | parse_error

subsection \<open>Strings\<close>

definition hex_value :: "char \<Rightarrow> nat option" where
  "hex_value c =
     (if 0x30 \<le> byte c \<and> byte c \<le> 0x39 then Some (byte c - 0x30)
      else if 0x41 \<le> byte c \<and> byte c \<le> 0x46 then Some (byte c - 0x37)
      else if 0x61 \<le> byte c \<and> byte c \<le> 0x66 then Some (byte c - 0x57)
      else None)"

fun codepoint_loop :: "nat list \<Rightarrow> nat \<Rightarrow> string \<Rightarrow> (nat \<times> string) option" where
  "codepoint_loop [] codepoint s = Some (codepoint, s)"
| "codepoint_loop (factor # factors) codepoint [] = None"
| "codepoint_loop (factor # factors) codepoint (c # s) =
     (case hex_value c of
        None \<Rightarrow> None
      | Some d \<Rightarrow> codepoint_loop factors (codepoint + push_bit factor d) s)"

definition get_codepoint :: "string \<Rightarrow> (nat \<times> string) option" where
  "get_codepoint s = codepoint_loop [12, 8, 4, 0] 0 s"

text \<open>A code point as UTF-8.\<close>

definition codepoint_bytes :: "nat \<Rightarrow> string" where
  "codepoint_bytes cp =
     (if cp < 0x80 then [char_of cp]
      else if cp \<le> 0x7FF then [char_of (0xC0 OR drop_bit 6 cp), char_of (0x80 OR (cp AND 0x3F))]
      else if cp \<le> 0xFFFF
      then [char_of (0xE0 OR drop_bit 12 cp), char_of (0x80 OR (drop_bit 6 cp AND 0x3F)), char_of (0x80 OR (cp AND 0x3F))]
      else [char_of (0xF0 OR drop_bit 18 cp), char_of (0x80 OR (drop_bit 12 cp AND 0x3F)),
            char_of (0x80 OR (drop_bit 6 cp AND 0x3F)), char_of (0x80 OR (cp AND 0x3F))])"

text \<open>The code point after \<open>\u\<close>; a high surrogate is followed by another escape with a low one.\<close>

definition scan_unicode :: "string \<Rightarrow> (string \<times> string) option" where
  "scan_unicode s =
     (case get_codepoint s of
        None \<Rightarrow> None
      | Some (cp1, s1) \<Rightarrow>
          if 0xD800 \<le> cp1 \<and> cp1 \<le> 0xDBFF
          then (if take 2 s1 = [CHR 0x5C, CHR ''u'']
                then (case get_codepoint (drop 2 s1) of
                        None \<Rightarrow> None
                      | Some (cp2, s2) \<Rightarrow>
                          if 0xDC00 \<le> cp2 \<and> cp2 \<le> 0xDFFF
                          then Some (codepoint_bytes (push_bit 10 cp1 + cp2 - 0x35FDC00), s2) else None)
                else None)
          else if 0xDC00 \<le> cp1 \<and> cp1 \<le> 0xDFFF then None
          else Some (codepoint_bytes cp1, s1))"

text \<open>What follows a backslash.\<close>

fun scan_escape :: "string \<Rightarrow> (string \<times> string) option" where
  "scan_escape [] = None"
| "scan_escape (c # s) =
     (if c = CHR 0x22 then Some ([CHR 0x22], s)
      else if c = CHR 0x5C then Some ([CHR 0x5C], s)
      else if c = CHR ''/'' then Some ([CHR ''/''], s)
      else if c = CHR ''b'' then Some ([CHR 0x08], s)
      else if c = CHR ''f'' then Some ([CHR 0x0C], s)
      else if c = CHR ''n'' then Some ([CHR 0x0A], s)
      else if c = CHR ''r'' then Some ([CHR 0x0D], s)
      else if c = CHR ''t'' then Some ([CHR 0x09], s)
      else if c = CHR ''u'' then scan_unicode s
      else None)"

text \<open>The ranges of the bytes that may follow a leading byte of 0x80 or more.\<close>

definition utf8_ranges :: "nat \<Rightarrow> (nat \<times> nat) list option" where
  "utf8_ranges b =
     (if 0xC2 \<le> b \<and> b \<le> 0xDF then Some [(0x80, 0xBF)]
      else if b = 0xE0 then Some [(0xA0, 0xBF), (0x80, 0xBF)]
      else if 0xE1 \<le> b \<and> b \<le> 0xEC \<or> 0xEE \<le> b \<and> b \<le> 0xEF then Some [(0x80, 0xBF), (0x80, 0xBF)]
      else if b = 0xED then Some [(0x80, 0x9F), (0x80, 0xBF)]
      else if b = 0xF0 then Some [(0x90, 0xBF), (0x80, 0xBF), (0x80, 0xBF)]
      else if 0xF1 \<le> b \<and> b \<le> 0xF3 then Some [(0x80, 0xBF), (0x80, 0xBF), (0x80, 0xBF)]
      else if b = 0xF4 then Some [(0x80, 0x8F), (0x80, 0xBF), (0x80, 0xBF)]
      else None)"

fun next_byte_in_range :: "(nat \<times> nat) list \<Rightarrow> string \<Rightarrow> (string \<times> string) option" where
  "next_byte_in_range [] s = Some ([], s)"
| "next_byte_in_range (r # rs) [] = None"
| "next_byte_in_range ((lo, hi) # rs) (c # s) =
     (if lo \<le> byte c \<and> byte c \<le> hi then map_option (\<lambda>(bs, s'). (c # bs, s')) (next_byte_in_range rs s) else None)"

lemma codepoint_loop_length: "codepoint_loop fs cp s = Some (cp', s') \<Longrightarrow> length s' \<le> length s"
  by (induction fs cp s rule: codepoint_loop.induct) (fastforce split: option.splits)+

lemma get_codepoint_length: "get_codepoint s = Some (cp, s') \<Longrightarrow> length s' \<le> length s"
  unfolding get_codepoint_def by (rule codepoint_loop_length)

lemma scan_unicode_length: "scan_unicode s = Some (bs, s') \<Longrightarrow> length s' \<le> length s"
  by (force simp: scan_unicode_def split: option.splits if_splits dest!: get_codepoint_length)

lemma scan_escape_length: "scan_escape s = Some (bs, s') \<Longrightarrow> length s' < length s"
  by (induction s rule: scan_escape.induct) (auto split: if_splits dest: scan_unicode_length)

lemma next_byte_split: "next_byte_in_range rs s = Some (bs, s') \<Longrightarrow> s = bs @ s'"
  by (induction rs s arbitrary: bs rule: next_byte_in_range.induct) (auto split: if_splits)

lemma next_byte_length: "next_byte_in_range rs s = Some (bs, s') \<Longrightarrow> length s' \<le> length s"
  by (auto dest: next_byte_split)

text \<open>The text behind an opening quote; \<open>token_buffer\<close> is what has been read of the string.\<close>

function (sequential) scan_string :: "string \<Rightarrow> string \<Rightarrow> token_type \<times> string" where
  "scan_string token_buffer [] = (parse_error, [])"
| "scan_string token_buffer (c # s) =
     (if c = CHR 0x22 then (value_string token_buffer, s)
      else if c = CHR 0x5C
      then (case scan_escape s of
              None \<Rightarrow> (parse_error, [])
            | Some (bs, s') \<Rightarrow> scan_string (token_buffer @ bs) s')
      else if byte c \<le> 0x1F then (parse_error, [])
      else if byte c \<le> 0x7F then scan_string (token_buffer @ [c]) s
      else (case utf8_ranges (byte c) of
              None \<Rightarrow> (parse_error, [])
            | Some ranges \<Rightarrow>
                (case next_byte_in_range ranges s of
                   None \<Rightarrow> (parse_error, [])
                 | Some (bs, s') \<Rightarrow> scan_string (token_buffer @ c # bs) s')))"
  by pat_completeness auto
termination
  by (relation "measure (length \<circ> snd)") (auto dest: scan_escape_length next_byte_length)

lemma scan_string_length: "scan_string buf s = (t, s') \<Longrightarrow> length s' \<le> length s \<and> (s' = s \<longrightarrow> t = parse_error)"
  by (induction buf s rule: scan_string.induct)
    (fastforce split: if_splits option.splits dest: scan_escape_length next_byte_length)+

subsection \<open>Numbers\<close>

datatype number_state = sn_minus | sn_zero | sn_any1 | sn_decimal1 | sn_decimal2 | sn_exponent | sn_sign | sn_any2

datatype number_type = type_unsigned | type_integer | type_float

datatype number_move = Goto number_state | Done | Reject

definition is_digit :: "char \<Rightarrow> bool" where
  "is_digit c \<longleftrightarrow> 0x30 \<le> byte c \<and> byte c \<le> 0x39"

definition is_exponent :: "char \<Rightarrow> bool" where
  "is_exponent c \<longleftrightarrow> c = CHR ''e'' \<or> c = CHR ''E''"

text \<open>The state machine: one line per state, as in the table of the source.\<close>

fun number_next :: "number_state \<Rightarrow> char \<Rightarrow> number_move" where
  "number_next sn_minus c = (if c = CHR ''0'' then Goto sn_zero else if is_digit c then Goto sn_any1 else Reject)"
| "number_next sn_zero c =
     (if c = CHR ''.'' then Goto sn_decimal1 else if is_exponent c then Goto sn_exponent else Done)"
| "number_next sn_any1 c =
     (if is_digit c then Goto sn_any1 else if c = CHR ''.'' then Goto sn_decimal1
      else if is_exponent c then Goto sn_exponent else Done)"
| "number_next sn_decimal1 c = (if is_digit c then Goto sn_decimal2 else Reject)"
| "number_next sn_decimal2 c = (if is_digit c then Goto sn_decimal2 else if is_exponent c then Goto sn_exponent else Done)"
| "number_next sn_exponent c =
     (if c = CHR ''+'' \<or> c = CHR ''-'' then Goto sn_sign else if is_digit c then Goto sn_any2 else Reject)"
| "number_next sn_sign c = (if is_digit c then Goto sn_any2 else Reject)"
| "number_next sn_any2 c = (if is_digit c then Goto sn_any2 else Done)"

text \<open>What the end of the input means in a state.\<close>

definition number_final :: "number_state \<Rightarrow> bool" where
  "number_final st \<longleftrightarrow> st \<in> {sn_zero, sn_any1, sn_decimal2, sn_any2}"

definition enter_type :: "number_state \<Rightarrow> number_type \<Rightarrow> number_type" where
  "enter_type st ty = (if st = sn_decimal1 \<or> st = sn_exponent then type_float else ty)"

definition digits_value :: "string \<Rightarrow> nat" where
  "digits_value ds = foldl (\<lambda>n c. 10 * n + (byte c - 0x30)) 0 ds"

text \<open>\<open>strtoull\<close>, \<open>strtoll\<close> and \<open>strtod\<close> on a text the state machine has let through.\<close>

definition decimal_int :: "string \<Rightarrow> int" where
  "decimal_int text =
     (case text of c # ds \<Rightarrow> if c = CHR ''-'' then - int (digits_value ds) else int (digits_value text) | [] \<Rightarrow> 0)"

definition decimal_value :: "string \<Rightarrow> rat" where
  "decimal_value text =
     (let s = (if take 1 text = ''-'' then drop 1 text else text);
          whole = takeWhile is_digit s; s1 = dropWhile is_digit s;
          point = take 1 s1 = ''.'';
          fraction = (if point then takeWhile is_digit (drop 1 s1) else []);
          s2 = (if point then dropWhile is_digit (drop 1 s1) else s1);
          e = decimal_int (filter (\<lambda>c. c \<noteq> CHR ''+'') (drop 1 s2));
          v = of_nat (digits_value (whole @ fraction)) * 10 powi (e - int (length fraction))
      in if take 1 text = ''-'' then - v else v)"

definition strtod :: "string \<Rightarrow> rat option" where
  "strtod text = to_double (decimal_value text)"

definition number_token :: "number_type \<Rightarrow> string \<Rightarrow> token_type" where
  "number_token ty token_buffer =
     (let x = decimal_int token_buffer in
      if ty = type_unsigned \<and> x < 2 ^ 64 then value_unsigned x
      else if ty = type_integer \<and> - (2 ^ 63) \<le> x \<and> x < 2 ^ 63 then value_integer x
      else value_float (strtod token_buffer))"

fun number_loop :: "number_state \<Rightarrow> number_type \<Rightarrow> string \<Rightarrow> string \<Rightarrow> token_type \<times> string" where
  "number_loop st ty token_buffer [] = (if number_final st then (number_token ty token_buffer, []) else (parse_error, []))"
| "number_loop st ty token_buffer (c # s) =
     (case number_next st c of
        Goto st' \<Rightarrow> number_loop st' (enter_type st' ty) (token_buffer @ [c]) s
      | Done \<Rightarrow> (number_token ty token_buffer, c # s)
      | Reject \<Rightarrow> (parse_error, []))"

definition scan_number :: "char \<Rightarrow> string \<Rightarrow> token_type \<times> string" where
  "scan_number c s =
     (if c = CHR ''-'' then number_loop sn_minus type_integer [c] s
      else if c = CHR ''0'' then number_loop sn_zero type_unsigned [c] s
      else number_loop sn_any1 type_unsigned [c] s)"

lemma number_loop_length: "number_loop st ty buf s = (t, s') \<Longrightarrow> length s' \<le> length s"
  by (induction st ty buf s rule: number_loop.induct) (fastforce split: number_move.splits if_splits)+

subsection \<open>Tokens\<close>

definition scan_literal :: "string \<Rightarrow> token_type \<Rightarrow> string \<Rightarrow> token_type \<times> string" where
  "scan_literal literal_text return_type s =
     (if take (length literal_text) s = literal_text then (return_type, drop (length literal_text) s) else (parse_error, []))"

definition is_space :: "char \<Rightarrow> bool" where
  "is_space c \<longleftrightarrow> c = CHR '' '' \<or> c = CHR 0x09 \<or> c = CHR 0x0A \<or> c = CHR 0x0D"

definition scan_char :: "char \<Rightarrow> string \<Rightarrow> token_type \<times> string" where
  "scan_char c s =
     (if c = CHR ''['' then (begin_array, s)
      else if c = CHR '']'' then (end_array, s)
      else if c = CHR ''{'' then (begin_object, s)
      else if c = CHR ''}'' then (end_object, s)
      else if c = CHR '':'' then (name_separator, s)
      else if c = CHR '','' then (value_separator, s)
      else if c = CHR ''t'' then scan_literal ''rue'' literal_true s
      else if c = CHR ''f'' then scan_literal ''alse'' literal_false s
      else if c = CHR ''n'' then scan_literal ''ull'' literal_null s
      else if c = CHR 0x22 then scan_string [] s
      else if c = CHR ''-'' \<or> is_digit c then scan_number c s
      else if c = CHR 0x00 then (end_of_input, s)
      else (parse_error, []))"

definition scan :: "string \<Rightarrow> token_type \<times> string" where
  "scan s = (case dropWhile is_space s of [] \<Rightarrow> (end_of_input, []) | c # s' \<Rightarrow> scan_char c s')"

text \<open>The first token may follow a byte order mark.\<close>

definition skip_bom :: "string \<Rightarrow> string option" where
  "skip_bom s =
     (if take 1 s = [CHR 0xEF] then (if take 2 (drop 1 s) = [CHR 0xBB, CHR 0xBF] then Some (drop 3 s) else None)
      else Some s)"

definition first_token :: "string \<Rightarrow> token_type \<times> string" where
  "first_token s = (case skip_bom s of None \<Rightarrow> (parse_error, []) | Some s' \<Rightarrow> scan s')"

lemma scan_char_length: "scan_char c s = (t, s') \<Longrightarrow> length s' \<le> length s"
  by (auto simp: scan_char_def scan_literal_def scan_number_def split: if_splits
      dest: scan_string_length number_loop_length)

text \<open>Reading a token that is not the end takes some of the text.\<close>

lemma scan_length: "scan s = (t, s') \<Longrightarrow> length s' < length s \<or> s' = [] \<and> t = end_of_input"
proof -
  assume "scan s = (t, s')"
  moreover have "length (dropWhile is_space s) \<le> length s" by (rule length_dropWhile_le)
  ultimately show ?thesis
    by (cases "dropWhile is_space s") (auto simp: scan_def dest: scan_char_length)
qed

end
