(* ===== verification/Grisu.thy ===== *)
theory Grisu
  imports Json_Lexer "HOL-Library.Signed_Division"
begin

unbundle bit_operations_syntax

section \<open>Writing floating-point numbers: the namespace dtoa_impl of include/json.hpp\<close>

text \<open>
  The Grisu2 algorithm, which finds a short decimal number that is read back as a given double.
  Significands are words of 64 bits, the integral part of a scaled number is a word of 32 bits,
  binary and decimal exponents are ints. Where a loop of the source ends only because of an
  assertion at its start, the assertion is part of the loop's test here; that these assertions
  hold is shown in Grisu_Digits and Grisu_Bounds.
\<close>

subsection \<open>Significands and exponents\<close>

record diyfp =
  fp_f :: "64 word"
  fp_e :: int

definition diyfp_sub :: "diyfp \<Rightarrow> diyfp \<Rightarrow> diyfp" where
  "diyfp_sub x y = \<lparr>fp_f = fp_f x - fp_f y, fp_e = fp_e x\<rparr>"

text \<open>The upper half of the 128 bits of a product, from four products of halves.\<close>

definition diyfp_mul :: "diyfp \<Rightarrow> diyfp \<Rightarrow> diyfp" where
  "diyfp_mul x y =
     (let u_lo = fp_f x AND 0xFFFFFFFF; u_hi = drop_bit 32 (fp_f x);
          v_lo = fp_f y AND 0xFFFFFFFF; v_hi = drop_bit 32 (fp_f y);
          p0 = u_lo * v_lo; p1 = u_lo * v_hi; p2 = u_hi * v_lo; p3 = u_hi * v_hi;
          p0_hi = drop_bit 32 p0;
          p1_lo = p1 AND 0xFFFFFFFF; p1_hi = drop_bit 32 p1;
          p2_lo = p2 AND 0xFFFFFFFF; p2_hi = drop_bit 32 p2;
          Q = p0_hi + p1_lo + p2_lo + push_bit 31 1
      in \<lparr>fp_f = p3 + p2_hi + p1_hi + drop_bit 32 Q, fp_e = fp_e x + fp_e y + 64\<rparr>)"

text \<open>Zero, which the source excludes by an assertion, is left as it is.\<close>

lemma double_word_less:
  assumes "(x :: 64 word) \<noteq> 0" and "drop_bit 63 x = 0"
  shows "unat x < unat (push_bit 1 x)"
proof -
  have "drop_bit 63 (unat x) = 0" using assms(2) by (simp only: unat_0 flip: unat_drop_bit_eq)
  then have "unat x div 2 ^ 63 = 0" by (simp only: drop_bit_eq_div)
  then have "unat x < 2 ^ 63" by (simp add: div_eq_0_iff)
  moreover have "0 < unat x" using assms(1) by (simp add: unat_gt_0)
  ultimately show ?thesis by (simp add: unat_word_ariths push_bit_eq_mult)
qed

function normalize :: "diyfp \<Rightarrow> diyfp" where
  "normalize x =
     (if fp_f x \<noteq> 0 \<and> drop_bit 63 (fp_f x) = 0
      then normalize \<lparr>fp_f = push_bit 1 (fp_f x), fp_e = fp_e x - 1\<rparr> else x)"
  by pat_completeness auto
termination
proof (relation "measure (\<lambda>x. 2 ^ 64 - unat (fp_f x))", goal_cases)
  case (2 x)
  then have "unat (fp_f x) < unat (push_bit 1 (fp_f x))" by (intro double_word_less) auto
  moreover have "unat (push_bit 1 (fp_f x)) < 2 ^ 64" using unsigned_less [of "push_bit 1 (fp_f x)"] by simp
  ultimately show ?case by simp
qed simp

declare normalize.simps [simp del]

definition normalize_to :: "diyfp \<Rightarrow> int \<Rightarrow> diyfp" where
  "normalize_to x target_exponent = \<lparr>fp_f = push_bit (nat (fp_e x - target_exponent)) (fp_f x), fp_e = target_exponent\<rparr>"

subsection \<open>A number and its boundaries\<close>

text \<open>The representation of a positive double (\<open>reinterpret_bits\<close>): its exponent, then 52 bits of its significand.\<close>

definition double_bits :: "rat \<Rightarrow> 64 word" where
  "double_bits value =
     (let e = max (binary_exponent value) (- 1022); m = nat \<lfloor>value * 2 powi (52 - e)\<rfloor>
      in of_nat (if m < 2 ^ 52 then m else nat (e + 1022) * 2 ^ 52 + m))"

record boundaries =
  bd_w :: diyfp
  bd_minus :: diyfp
  bd_plus :: diyfp

definition kPrecision :: int where [simp]: "kPrecision = 53"
definition kBias :: int where [simp]: "kBias = 1024 - 1 + (kPrecision - 1)"
definition kMinExp :: int where [simp]: "kMinExp = 1 - kBias"
definition kHiddenBit :: "64 word" where [simp]: "kHiddenBit = push_bit 52 1"

definition compute_boundaries :: "rat \<Rightarrow> boundaries" where
  "compute_boundaries value =
     (let bits = double_bits value;
          E = drop_bit 52 bits; F = bits AND (kHiddenBit - 1);
          is_denormal = (E = 0);
          v = (if is_denormal then \<lparr>fp_f = F, fp_e = kMinExp\<rparr>
               else \<lparr>fp_f = F + kHiddenBit, fp_e = uint E - kBias\<rparr>);
          lower_boundary_is_closer = (F = 0 \<and> E > 1);
          m_plus = \<lparr>fp_f = 2 * fp_f v + 1, fp_e = fp_e v - 1\<rparr>;
          m_minus = (if lower_boundary_is_closer then \<lparr>fp_f = 4 * fp_f v - 1, fp_e = fp_e v - 2\<rparr>
                     else \<lparr>fp_f = 2 * fp_f v - 1, fp_e = fp_e v - 1\<rparr>);
          w_plus = normalize m_plus;
          w_minus = normalize_to m_minus (fp_e w_plus)
      in \<lparr>bd_w = normalize v, bd_minus = w_minus, bd_plus = w_plus\<rparr>)"

subsection \<open>Powers of ten\<close>

definition kAlpha :: int where [simp]: "kAlpha = - 60"
definition kGamma :: int where [simp]: "kGamma = - 32"

record cached_power =
  cp_f :: "64 word"
  cp_e :: int
  cp_k :: int

text \<open>The table \<open>kCachedPowers\<close>: significand, binary exponent, and the power of ten that is meant.\<close>

definition kCachedPowers :: "(64 word \<times> int \<times> int) list" where
  "kCachedPowers = [
     (0xAB70FE17C79AC6CA, - 1060, - 300),
     (0xFF77B1FCBEBCDC4F, - 1034, - 292),
     (0xBE5691EF416BD60C, - 1007, - 284),
     (0x8DD01FAD907FFC3C, - 980, - 276),
     (0xD3515C2831559A83, - 954, - 268),
     (0x9D71AC8FADA6C9B5, - 927, - 260),
     (0xEA9C227723EE8BCB, - 901, - 252),
     (0xAECC49914078536D, - 874, - 244),
     (0x823C12795DB6CE57, - 847, - 236),
     (0xC21094364DFB5637, - 821, - 228),
     (0x9096EA6F3848984F, - 794, - 220),
     (0xD77485CB25823AC7, - 768, - 212),
     (0xA086CFCD97BF97F4, - 741, - 204),
     (0xEF340A98172AACE5, - 715, - 196),
     (0xB23867FB2A35B28E, - 688, - 188),
     (0x84C8D4DFD2C63F3B, - 661, - 180),
     (0xC5DD44271AD3CDBA, - 635, - 172),
     (0x936B9FCEBB25C996, - 608, - 164),
     (0xDBAC6C247D62A584, - 582, - 156),
     (0xA3AB66580D5FDAF6, - 555, - 148),
     (0xF3E2F893DEC3F126, - 529, - 140),
     (0xB5B5ADA8AAFF80B8, - 502, - 132),
     (0x87625F056C7C4A8B, - 475, - 124),
     (0xC9BCFF6034C13053, - 449, - 116),
     (0x964E858C91BA2655, - 422, - 108),
     (0xDFF9772470297EBD, - 396, - 100),
     (0xA6DFBD9FB8E5B88F, - 369, - 92),
     (0xF8A95FCF88747D94, - 343, - 84),
     (0xB94470938FA89BCF, - 316, - 76),
     (0x8A08F0F8BF0F156B, - 289, - 68),
     (0xCDB02555653131B6, - 263, - 60),
     (0x993FE2C6D07B7FAC, - 236, - 52),
     (0xE45C10C42A2B3B06, - 210, - 44),
     (0xAA242499697392D3, - 183, - 36),
     (0xFD87B5F28300CA0E, - 157, - 28),
     (0xBCE5086492111AEB, - 130, - 20),
     (0x8CBCCC096F5088CC, - 103, - 12),
     (0xD1B71758E219652C, - 77, - 4),
     (0x9C40000000000000, - 50, 4),
     (0xE8D4A51000000000, - 24, 12),
     (0xAD78EBC5AC620000, 3, 20),
     (0x813F3978F8940984, 30, 28),
     (0xC097CE7BC90715B3, 56, 36),
     (0x8F7E32CE7BEA5C70, 83, 44),
     (0xD5D238A4ABE98068, 109, 52),
     (0x9F4F2726179A2245, 136, 60),
     (0xED63A231D4C4FB27, 162, 68),
     (0xB0DE65388CC8ADA8, 189, 76),
     (0x83C7088E1AAB65DB, 216, 84),
     (0xC45D1DF942711D9A, 242, 92),
     (0x924D692CA61BE758, 269, 100),
     (0xDA01EE641A708DEA, 295, 108),
     (0xA26DA3999AEF774A, 322, 116),
     (0xF209787BB47D6B85, 348, 124),
     (0xB454E4A179DD1877, 375, 132),
     (0x865B86925B9BC5C2, 402, 140),
     (0xC83553C5C8965D3D, 428, 148),
     (0x952AB45CFA97A0B3, 455, 156),
     (0xDE469FBD99A05FE3, 481, 164),
     (0xA59BC234DB398C25, 508, 172),
     (0xF6C69A72A3989F5C, 534, 180),
     (0xB7DCBF5354E9BECE, 561, 188),
     (0x88FCF317F22241E2, 588, 196),
     (0xCC20CE9BD35C78A5, 614, 204),
     (0x98165AF37B2153DF, 641, 212),
     (0xE2A0B5DC971F303A, 667, 220),
     (0xA8D9D1535CE3B396, 694, 228),
     (0xFB9B7CD9A4A7443C, 720, 236),
     (0xBB764C4CA7A44410, 747, 244),
     (0x8BAB8EEFB6409C1A, 774, 252),
     (0xD01FEF10A657842C, 800, 260),
     (0x9B10A4E5E9913129, 827, 268),
     (0xE7109BFBA19C0C9D, 853, 276),
     (0xAC2820D9623BF429, 880, 284),
     (0x80444B5E7AA7CF85, 907, 292),
     (0xBF21E44003ACDD2D, 933, 300),
     (0x8E679C2F5E44FF8F, 960, 308),
     (0xD433179D9C8CB841, 986, 316),
     (0x9E19DB92B4E31BA9, 1013, 324)]"

definition kCachedPowersMinDecExp :: int where [simp]: "kCachedPowersMinDecExp = - 300"
definition kCachedPowersDecStep :: int where [simp]: "kCachedPowersDecStep = 8"

definition get_cached_power_for_binary_exponent :: "int \<Rightarrow> cached_power" where
  "get_cached_power_for_binary_exponent e =
     (let f = kAlpha - e - 1;
          k = (f * 78913) sdiv 2 ^ 18 + (if f > 0 then 1 else 0);
          index = (- kCachedPowersMinDecExp + k + (kCachedPowersDecStep - 1)) sdiv kCachedPowersDecStep
      in case kCachedPowers ! nat index of (cf, ce, ck) \<Rightarrow> \<lparr>cp_f = cf, cp_e = ce, cp_k = ck\<rparr>)"

definition find_largest_pow10 :: "32 word \<Rightarrow> nat \<times> 32 word" where
  "find_largest_pow10 n =
     (if n \<ge> 1000000000 then (10, 1000000000)
      else if n \<ge> 100000000 then (9, 100000000)
      else if n \<ge> 10000000 then (8, 10000000)
      else if n \<ge> 1000000 then (7, 1000000)
      else if n \<ge> 100000 then (6, 100000)
      else if n \<ge> 10000 then (5, 10000)
      else if n \<ge> 1000 then (4, 1000)
      else if n \<ge> 100 then (3, 100)
      else if n \<ge> 10 then (2, 10)
      else (1, 1))"

subsection \<open>Digits\<close>

definition digit_char :: "nat \<Rightarrow> char" where
  "digit_char d = char_of (0x30 + d)"

lemma round_step:
  assumes "rest \<le> delta" and "ten_k \<le> delta - (rest :: 64 word)"
  shows "unat (rest + ten_k) = unat rest + unat ten_k" and "unat (rest + ten_k) \<le> unat delta"
proof -
  have "unat rest + unat ten_k \<le> unat delta" using assms by (simp add: word_le_nat_alt unat_sub)
  moreover have "unat delta < 2 ^ 64" using unsigned_less [of delta] by simp
  ultimately show "unat (rest + ten_k) = unat rest + unat ten_k" "unat (rest + ten_k) \<le> unat delta"
    by (simp_all add: unat_word_ariths)
qed

text \<open>Lowering the last digit brings the number closer to \<open>w\<close>.\<close>

function grisu2_round :: "string \<Rightarrow> 64 word \<Rightarrow> 64 word \<Rightarrow> 64 word \<Rightarrow> 64 word \<Rightarrow> string" where
  "grisu2_round buf distance delta rest ten_k =
     (if rest \<le> delta \<and> ten_k > 0 \<and>
         rest < distance \<and> delta - rest \<ge> ten_k \<and> (rest + ten_k < distance \<or> distance - rest > rest + ten_k - distance)
      then grisu2_round (butlast buf @ [char_of (byte (last buf) - 1)]) distance delta (rest + ten_k) ten_k
      else buf)"
  by pat_completeness auto

termination
proof (relation "measure (\<lambda>(_, _, delta, rest, _). unat delta - unat rest)", goal_cases)
  case (2 buf distance delta rest ten_k)
  then have "0 < unat ten_k" by (simp add: unat_gt_0 word_gt_0)
  then show ?case using 2 round_step [of rest delta ten_k] by (simp add: word_le_nat_alt)
qed simp

declare grisu2_round.simps [simp del]

text \<open>
  The digits of the integral part; \<open>Inl\<close> carries the digits and the exponent when the number is
  close enough, \<open>Inr\<close> the digits when it is not.
\<close>

fun integral_loop ::
  "nat \<Rightarrow> string \<Rightarrow> 32 word \<Rightarrow> 32 word \<Rightarrow> 64 word \<Rightarrow> nat \<Rightarrow> 64 word \<Rightarrow> 64 word \<Rightarrow> (string \<times> nat) + string"
where
  "integral_loop 0 buffer p1 pow10 p2 shift distance delta = Inr buffer"
| "integral_loop (Suc n) buffer p1 pow10 p2 shift distance delta =
     (let d = p1 div pow10; r = p1 mod pow10;
          buffer = buffer @ [digit_char (unat d)];
          rest = push_bit shift (ucast r) + p2
      in if rest \<le> delta
         then Inl (grisu2_round buffer distance delta rest (push_bit shift (ucast pow10)), n)
         else integral_loop n buffer r (pow10 div 10) p2 shift distance delta)"

text \<open>
  The digits of the fractional part, with the number of them. Each pass adds a factor 2 to \<open>p2\<close>,
  so that it is 0 after 64 passes at the latest.
\<close>

definition even_steps :: "64 word \<Rightarrow> nat" where
  "even_steps x = (LEAST m. push_bit m x = 0)"

lemma even_steps_zero: "push_bit (even_steps x) x = 0"
  unfolding even_steps_def by (rule LeastI [of _ 64]) (rule bit_word_eqI, simp add: bit_simps)

lemma even_steps_less:
  assumes "x \<noteq> 0"
  shows "even_steps (x * 10 AND y) < even_steps x"
proof -
  obtain m where m: "even_steps x = Suc m"
    using even_steps_zero [of x] assms by (cases "even_steps x") auto
  have "push_bit m (x * 10) = 5 * push_bit (Suc m) x" by (simp add: push_bit_eq_mult)
  then have "push_bit m (x * 10) = 0" using even_steps_zero [of x] m by simp
  then have "push_bit m (x * 10 AND y) = 0" by (simp add: push_bit_and)
  then have "even_steps (x * 10 AND y) \<le> m" unfolding even_steps_def by (rule Least_le)
  then show ?thesis using m by simp
qed

function fractional_loop ::
  "nat \<Rightarrow> string \<Rightarrow> 64 word \<Rightarrow> 64 word \<Rightarrow> nat \<Rightarrow> 64 word \<Rightarrow> 64 word \<Rightarrow> string \<times> nat"
where
  "fractional_loop m buffer p2 one shift distance delta =
     (let d = drop_bit shift (p2 * 10); r = p2 * 10 AND (one - 1);
          buffer = buffer @ [digit_char (unat d)];
          delta = delta * 10; distance = distance * 10
      in if r \<le> delta then (grisu2_round buffer distance delta r one, Suc m)
         else fractional_loop (Suc m) buffer r one shift distance delta)"
  by pat_completeness auto
termination
proof (relation "measure (\<lambda>(_, _, p2, _). even_steps p2)", goal_cases)
  case (2 m buffer p2 one shift distance delta d r buffer' delta' distance')
  then have "p2 \<noteq> 0" by auto
  then show ?case using 2 even_steps_less [of p2] by simp
qed simp

declare fractional_loop.simps [simp del]

definition grisu2_digit_gen :: "int \<Rightarrow> diyfp \<Rightarrow> diyfp \<Rightarrow> diyfp \<Rightarrow> string \<times> int" where
  "grisu2_digit_gen decimal_exponent M_minus w M_plus =
     (let delta = fp_f (diyfp_sub M_plus M_minus); distance = fp_f (diyfp_sub M_plus w);
          shift = nat (- fp_e M_plus);
          one = push_bit shift 1 :: 64 word;
          p1 = ucast (drop_bit shift (fp_f M_plus)) :: 32 word;
          p2 = fp_f M_plus AND (one - 1)
      in case find_largest_pow10 p1 of (k, pow10) \<Rightarrow>
        (case integral_loop k [] p1 pow10 p2 shift distance delta of
           Inl (buffer, n) \<Rightarrow> (buffer, decimal_exponent + int n)
         | Inr buffer \<Rightarrow>
             (case fractional_loop 0 buffer p2 one shift distance delta of (buffer, m) \<Rightarrow>
                (buffer, decimal_exponent - int m))))"

definition grisu2_scaled :: "diyfp \<Rightarrow> diyfp \<Rightarrow> diyfp \<Rightarrow> string \<times> int" where
  "grisu2_scaled m_minus v m_plus =
     (let cached = get_cached_power_for_binary_exponent (fp_e m_plus);
          c_minus_k = \<lparr>fp_f = cp_f cached, fp_e = cp_e cached\<rparr>;
          w = diyfp_mul v c_minus_k;
          w_minus = diyfp_mul m_minus c_minus_k;
          w_plus = diyfp_mul m_plus c_minus_k;
          M_minus = w_minus\<lparr>fp_f := fp_f w_minus + 1\<rparr>;
          M_plus = w_plus\<lparr>fp_f := fp_f w_plus - 1\<rparr>
      in grisu2_digit_gen (- cp_k cached) M_minus w M_plus)"

definition grisu2 :: "rat \<Rightarrow> string \<times> int" where
  "grisu2 value =
     (let w = compute_boundaries value in grisu2_scaled (bd_minus w) (bd_w w) (bd_plus w))"

subsection \<open>The text\<close>

definition append_exponent :: "int \<Rightarrow> string" where
  "append_exponent e =
     (let k = nat \<bar>e\<bar>
      in (if e < 0 then ''-'' else ''+'') @
         (if k < 10 then [CHR ''0'', digit_char k]
          else if k < 100 then [digit_char (k div 10), digit_char (k mod 10)]
          else [digit_char (k div 100), digit_char (k mod 100 div 10), digit_char (k mod 100 mod 10)]))"

definition format_buffer :: "string \<Rightarrow> int \<Rightarrow> int \<Rightarrow> int \<Rightarrow> string" where
  "format_buffer buf decimal_exponent min_exp max_exp =
     (let k = int (length buf); n = k + decimal_exponent
      in if k \<le> n \<and> n \<le> max_exp then buf @ replicate (nat n - nat k) (CHR ''0'') @ ''.0''
         else if 0 < n \<and> n \<le> max_exp then take (nat n) buf @ ''.'' @ drop (nat n) buf
         else if min_exp < n \<and> n \<le> 0 then ''0.'' @ replicate (nat (- n)) (CHR ''0'') @ buf
         else (if k = 1 then buf else take 1 buf @ ''.'' @ drop 1 buf) @ ''e'' @ append_exponent (n - 1))"

text \<open>\<open>dump_float\<close> on a double; the sign of a negative zero is not part of its value and is left out.\<close>

definition to_chars :: "rat \<Rightarrow> string" where
  "to_chars value =
     (if value = 0 then ''0.0''
      else (if value < 0 then ''-'' else []) @
           (case grisu2 \<bar>value\<bar> of (buf, decimal_exponent) \<Rightarrow> format_buffer buf decimal_exponent (- 4) 15))"

end
