(* ===== verification/Json_Dump.thy ===== *)
theory Json_Dump
  imports Grisu "HOL-Library.Char_ord" "HOL-Library.List_Lexorder"
begin

unbundle bit_operations_syntax

section \<open>Writing JSON text: include/json.hpp\<close>

text \<open>
  \<open>json::dump\<close> as the worker calls it, without arguments: on one line, with other than ASCII
  characters copied, and with the strict handling of errors, which throws (\<open>None\<close>) at a string
  that is not UTF-8. The members of an object come in the order of their keys, as \<open>std::map\<close> keeps them.
  A floating-point number is a double, which is finite.
\<close>

subsection \<open>Strings\<close>

text \<open>The automaton for UTF-8: the classes of the 256 bytes, then a row of 16 for each state.\<close>

definition utf8d :: "nat list" where
  "utf8d =
     replicate 128 0 @ replicate 16 1 @ replicate 16 9 @ replicate 32 7 @ [8, 8] @ replicate 30 2 @
     [0xA] @ replicate 12 3 @ [4, 3, 3] @ [0xB, 6, 6, 6, 5] @ replicate 11 8 @
     [0, 1, 2, 3, 5, 8, 7, 1, 1, 1, 4, 6, 1, 1, 1, 1] @
     [1, 1, 1, 1, 1, 1, 1, 1, 1, 1, 1, 1, 1, 1, 1, 1,  1, 0, 1, 1, 1, 1, 1, 0, 1, 0, 1, 1, 1, 1, 1, 1] @
     [1, 2, 1, 1, 1, 1, 1, 2, 1, 2, 1, 1, 1, 1, 1, 1,  1, 1, 1, 1, 1, 1, 1, 2, 1, 1, 1, 1, 1, 1, 1, 1] @
     [1, 2, 1, 1, 1, 1, 1, 1, 1, 2, 1, 1, 1, 1, 1, 1,  1, 1, 1, 1, 1, 1, 1, 3, 1, 3, 1, 1, 1, 1, 1, 1] @
     [1, 3, 1, 1, 1, 1, 1, 3, 1, 3, 1, 1, 1, 1, 1, 1,  1, 3, 1, 1, 1, 1, 1, 1, 1, 1, 1, 1, 1, 1, 1, 1]"

definition UTF8_ACCEPT :: nat where "UTF8_ACCEPT = 0"
definition UTF8_REJECT :: nat where "UTF8_REJECT = 1"

definition decode :: "nat \<Rightarrow> nat \<Rightarrow> nat \<Rightarrow> nat \<times> nat" where
  "decode state codep b =
     (let ty = utf8d ! b
      in (utf8d ! (256 + state * 16 + ty),
          if state \<noteq> UTF8_ACCEPT then (b AND 0x3F) OR push_bit 6 codep else drop_bit ty 0xFF AND b))"

definition hex_digit :: "nat \<Rightarrow> char" where
  "hex_digit d = char_of (if d < 10 then 0x30 + d else 0x57 + d)"

definition hex4 :: "nat \<Rightarrow> string" where
  "hex4 n = [hex_digit (n div 0x1000 mod 16), hex_digit (n div 0x100 mod 16), hex_digit (n div 0x10 mod 16), hex_digit (n mod 16)]"

text \<open>What is written at the last byte of a code point.\<close>

definition escape_char :: "nat \<Rightarrow> char \<Rightarrow> string" where
  "escape_char codepoint c =
     (if codepoint = 0x08 then [CHR 0x5C, CHR ''b'']
      else if codepoint = 0x09 then [CHR 0x5C, CHR ''t'']
      else if codepoint = 0x0A then [CHR 0x5C, CHR ''n'']
      else if codepoint = 0x0C then [CHR 0x5C, CHR ''f'']
      else if codepoint = 0x0D then [CHR 0x5C, CHR ''r'']
      else if codepoint = 0x22 then [CHR 0x5C, CHR 0x22]
      else if codepoint = 0x5C then [CHR 0x5C, CHR 0x5C]
      else if codepoint \<le> 0x1F then [CHR 0x5C, CHR ''u''] @ hex4 codepoint
      else [c])"

fun dump_escaped :: "nat \<Rightarrow> nat \<Rightarrow> string \<Rightarrow> string \<Rightarrow> string option" where
  "dump_escaped state codepoint buffer [] = (if state = UTF8_ACCEPT then Some buffer else None)"
| "dump_escaped state codepoint buffer (c # s) =
     (case decode state codepoint (byte c) of (state', codepoint') \<Rightarrow>
        if state' = UTF8_ACCEPT then dump_escaped state' codepoint' (buffer @ escape_char codepoint' c) s
        else if state' = UTF8_REJECT then None
        else dump_escaped state' codepoint' (buffer @ [c]) s)"

definition dump_string :: "string \<Rightarrow> string option" where
  "dump_string s = map_option (\<lambda>t. CHR 0x22 # t @ [CHR 0x22]) (dump_escaped UTF8_ACCEPT 0 [] s)"

subsection \<open>Integers\<close>

definition digits_to_99 :: "nat \<Rightarrow> string" where
  "digits_to_99 i = [digit (i div 10), digit (i mod 10)]"

fun count_digits :: "nat \<Rightarrow> nat" where
  "count_digits x =
     (if x < 10 then 1 else if x < 100 then 2 else if x < 1000 then 3 else if x < 10000 then 4
      else 4 + count_digits (x div 10000))"

text \<open>The buffer is filled from its end, two digits at a time.\<close>

fun digits_loop :: "nat \<Rightarrow> string \<Rightarrow> string" where
  "digits_loop abs_value buffer =
     (if abs_value \<ge> 100 then digits_loop (abs_value div 100) (digits_to_99 (abs_value mod 100) @ buffer)
      else if abs_value \<ge> 10 then digits_to_99 abs_value @ buffer
      else digit abs_value # buffer)"

declare count_digits.simps [simp del] digits_loop.simps [simp del]

definition remove_sign :: "int \<Rightarrow> nat" where
  "remove_sign x = nat (- (x + 1)) + 1"

definition dump_integer :: "int \<Rightarrow> string" where
  "dump_integer x =
     (if x = 0 then ''0''
      else if x < 0 then CHR ''-'' # digits_loop (remove_sign x) []
      else digits_loop (nat x) [])"

subsection \<open>Values\<close>

fun join :: "string list \<Rightarrow> string" where
  "join [] = []"
| "join [t] = t"
| "join (t # ts) = t @ CHR '','' # join ts"

definition dump_member :: "string \<Rightarrow> string option \<Rightarrow> string option" where
  "dump_member k v = Option.bind (dump_string k) (\<lambda>t. map_option (\<lambda>u. t @ CHR '':'' # u) v)"

definition dump_float :: "rat \<Rightarrow> string" where
  "dump_float x = to_chars x"

fun dump :: "json \<Rightarrow> string option" where
  "dump (JObj kvs) =
     map_option (\<lambda>ts. CHR ''{'' # join ts @ ''}'')
       (those (map (\<lambda>(k, v). dump_member k (dump v)) (sort_key fst kvs)))"
| "dump (JArr vs) = map_option (\<lambda>ts. CHR ''['' # join ts @ '']'') (those (map dump vs))"
| "dump (JStr s) = dump_string s"
| "dump (JBool b) = Some (if b then ''true'' else ''false'')"
| "dump (JNum n) = Some (dump_integer n)"
| "dump (JFloat q) = Some (dump_float q)"
| "dump JNull = Some ''null''"

end
