(* ===== verification/Json_Utf8.thy ===== *)
theory Json_Utf8
  imports Json_Dump
begin

unbundle bit_operations_syntax

section \<open>Writing and reading strings\<close>

text \<open>
  The writer checks UTF-8 with an automaton, the reader with ranges of bytes. Both let the same
  strings through, and what is written for such a string is read as the same string.
\<close>

subsection \<open>Strings that are UTF-8\<close>

function utf8_valid :: "string \<Rightarrow> bool" where
  "utf8_valid [] = True"
| "utf8_valid (c # s) =
     (if byte c \<le> 0x7F then utf8_valid s
      else (case utf8_ranges (byte c) of
              None \<Rightarrow> False
            | Some ranges \<Rightarrow> (case next_byte_in_range ranges s of None \<Rightarrow> False | Some (bs, s') \<Rightarrow> utf8_valid s')))"
  by pat_completeness auto
termination by (relation "measure length") (auto dest: next_byte_length)

subsection \<open>The automaton\<close>

text \<open>The ranges of the bytes a state of the automaton waits for.\<close>

definition state_ranges :: "nat \<Rightarrow> (nat \<times> nat) list" where
  "state_ranges st =
     (if st = 2 then [(0x80, 0xBF)]
      else if st = 3 then [(0x80, 0xBF), (0x80, 0xBF)]
      else if st = 4 then [(0xA0, 0xBF), (0x80, 0xBF)]
      else if st = 5 then [(0x80, 0x9F), (0x80, 0xBF)]
      else if st = 6 then [(0x90, 0xBF), (0x80, 0xBF), (0x80, 0xBF)]
      else if st = 7 then [(0x80, 0xBF), (0x80, 0xBF), (0x80, 0xBF)]
      else if st = 8 then [(0x80, 0x8F), (0x80, 0xBF), (0x80, 0xBF)]
      else [])"

text \<open>The least value the bits read so far have in a state.\<close>

definition least_bits :: "nat \<Rightarrow> nat" where
  "least_bits st = (if st = 2 then 2 else if st = 4 \<or> st = 6 then 0 else 1)"

definition byte_class :: "nat \<Rightarrow> nat" where
  "byte_class b =
     (if b < 0x80 then 0 else if b < 0x90 then 1 else if b < 0xA0 then 9 else if b < 0xC0 then 7
      else if b < 0xC2 then 8 else if b < 0xE0 then 2 else if b = 0xE0 then 0xA else if b = 0xED then 4
      else if b < 0xF0 then 3 else if b = 0xF0 then 0xB else if b < 0xF4 then 6 else if b = 0xF4 then 5 else 8)"

lemma utf8d_classes: "take 256 utf8d = map byte_class [0..<256]"
  by code_simp

lemma utf8d_class: "b < 256 \<Longrightarrow> utf8d ! b = byte_class b"
  using arg_cong [OF utf8d_classes, of "\<lambda>xs. xs ! b"] by simp

text \<open>A state goes on with the classes of its first range and rejects the others.\<close>

definition next_class :: "nat \<Rightarrow> nat \<Rightarrow> nat" where
  "next_class st t =
     (if st = 2 \<and> (t = 1 \<or> t = 9 \<or> t = 7) then 0
      else if st = 3 \<and> (t = 1 \<or> t = 9 \<or> t = 7) \<or> st = 4 \<and> t = 7 \<or> st = 5 \<and> (t = 1 \<or> t = 9) then 2
      else if st = 6 \<and> (t = 9 \<or> t = 7) \<or> st = 7 \<and> (t = 1 \<or> t = 9 \<or> t = 7) \<or> st = 8 \<and> t = 1 then 3
      else 1)"

text \<open>The rows of the states, and those of the first one.\<close>

definition state_rows :: "nat list" where
  "state_rows =
     [0, 1, 2, 3, 5, 8, 7, 1, 1, 1, 4, 6, 1, 1, 1, 1,
      1, 1, 1, 1, 1, 1, 1, 1, 1, 1, 1, 1, 1, 1, 1, 1,  1, 0, 1, 1, 1, 1, 1, 0, 1, 0, 1, 1, 1, 1, 1, 1,
      1, 2, 1, 1, 1, 1, 1, 2, 1, 2, 1, 1, 1, 1, 1, 1,  1, 1, 1, 1, 1, 1, 1, 2, 1, 1, 1, 1, 1, 1, 1, 1,
      1, 2, 1, 1, 1, 1, 1, 1, 1, 2, 1, 1, 1, 1, 1, 1,  1, 1, 1, 1, 1, 1, 1, 3, 1, 3, 1, 1, 1, 1, 1, 1,
      1, 3, 1, 1, 1, 1, 1, 3, 1, 3, 1, 1, 1, 1, 1, 1,  1, 3, 1, 1, 1, 1, 1, 1, 1, 1, 1, 1, 1, 1, 1, 1]"

definition first_class :: "nat \<Rightarrow> nat" where
  "first_class t =
     (if t = 0 then 0 else if t = 2 then 2 else if t = 3 then 3 else if t = 4 then 5 else if t = 5 then 8
      else if t = 6 then 7 else if t = 0xA then 4 else if t = 0xB then 6 else 1)"

lemma utf8d_rows: "utf8d ! (256 + n) = state_rows ! n"
proof -
  have "drop 256 utf8d = state_rows" by (simp add: utf8d_def state_rows_def)
  moreover have "256 \<le> length utf8d" by (simp add: utf8d_def)
  ultimately show ?thesis by (metis nth_drop)
qed

lemma state_rows_next: "list_all (\<lambda>st. list_all (\<lambda>t. state_rows ! (st * 16 + t) = next_class st t) [0..<12]) [2..<9]"
  by code_simp

lemma state_rows_first: "list_all (\<lambda>t. state_rows ! t = first_class t) [0..<12]"
  by code_simp

lemma utf8d_next: "2 \<le> st \<Longrightarrow> st \<le> 8 \<Longrightarrow> t < 12 \<Longrightarrow> utf8d ! (256 + st * 16 + t) = next_class st t"
  using state_rows_next unfolding list_all_iff set_upt by (simp add: utf8d_rows add.assoc)

lemma utf8d_first: "t < 12 \<Longrightarrow> utf8d ! (256 + t) = first_class t"
  using state_rows_first unfolding list_all_iff set_upt by (simp add: utf8d_rows)

lemma byte_class_iff:
  "byte_class b = Suc 0 \<longleftrightarrow> 0x80 \<le> b \<and> b \<le> 0x8F"
  "byte_class b = 9 \<longleftrightarrow> 0x90 \<le> b \<and> b \<le> 0x9F"
  "byte_class b = 7 \<longleftrightarrow> 0xA0 \<le> b \<and> b \<le> 0xBF"
  "byte_class b < 12"
  by (auto simp: byte_class_def)

lemma next_state:
  assumes "b < 256" and "2 \<le> st" and "st \<le> 8"
  shows "fst (decode st cp b) =
    (case hd (state_ranges st) of (lo, hi) \<Rightarrow>
      if lo \<le> b \<and> b \<le> hi then (case length (state_ranges st) of Suc 0 \<Rightarrow> 0 | Suc n \<Rightarrow> Suc n) else 1)"
proof -
  have "fst (decode st cp b) = next_class st (byte_class b)"
    using assms by (simp add: decode_def Let_def utf8d_class utf8d_next byte_class_iff)
  moreover have "st = 2 \<or> st = 3 \<or> st = 4 \<or> st = 5 \<or> st = 6 \<or> st = 7 \<or> st = 8" using assms(2,3) by auto
  ultimately show ?thesis
    by (elim disjE) (auto simp: next_class_def byte_class_iff state_ranges_def)
qed

lemma or_ge: "(a :: nat) \<le> a OR b"
proof -
  have "int a \<le> int a OR int b" by (rule or_greater_eq) simp
  then show ?thesis by (simp flip: of_nat_or_eq)
qed

lemma or_bits:
  fixes b cp :: nat
  shows "64 * cp \<le> (b AND 0x3F) OR push_bit 6 cp" and "b mod 64 \<le> (b AND 0x3F) OR push_bit 6 cp"
proof -
  have "b AND 0x3F = b mod 64" using take_bit_eq_mask [of 6 b] by (simp add: take_bit_eq_mod mask_eq_exp_minus_1)
  then show "64 * cp \<le> (b AND 0x3F) OR push_bit 6 cp" "b mod 64 \<le> (b AND 0x3F) OR push_bit 6 cp"
    using or_ge [of "push_bit 6 cp" "b AND 0x3F"] or_ge [of "b AND 0x3F" "push_bit 6 cp"]
    by (simp_all add: or.commute push_bit_eq_mult mult.commute)
qed

text \<open>The bits read so far keep a code point of several bytes above the escaped ones.\<close>

definition bits_ok :: "nat \<Rightarrow> nat \<Rightarrow> bool" where
  "bits_ok st cp \<longleftrightarrow> 2 \<le> st \<and> st \<le> 8 \<and> (if st = 2 then 2 else if st = 4 \<or> st = 6 then 0 else 1) \<le> cp"

lemma next_bits:
  assumes "b < 256" and "bits_ok st cp" and "decode st cp b = (st', cp')" and "st' \<noteq> 1"
  shows "if st' = 0 then 0x80 \<le> cp' else bits_ok st' cp'"
proof -
  have "2 \<le> st" "st \<le> 8" using assms(2) by (simp_all add: bits_ok_def)
  have cp': "cp' = (b AND 0x3F) OR push_bit 6 cp" using assms(3) \<open>2 \<le> st\<close> by (simp add: decode_def UTF8_ACCEPT_def Let_def)
  have st': "st' = (case hd (state_ranges st) of (lo, hi) \<Rightarrow>
      if lo \<le> b \<and> b \<le> hi then (case length (state_ranges st) of Suc 0 \<Rightarrow> 0 | Suc n \<Rightarrow> Suc n) else 1)"
    using next_state [OF assms(1) \<open>2 \<le> st\<close> \<open>st \<le> 8\<close>, of cp] assms(3) by simp
  have "st = 2 \<or> st = 3 \<or> st = 4 \<or> st = 5 \<or> st = 6 \<or> st = 7 \<or> st = 8" using \<open>2 \<le> st\<close> \<open>st \<le> 8\<close> by auto
  moreover have "128 \<le> b \<and> b < 192 \<longrightarrow> b mod 64 = b - 128" by (auto intro: mod_nat_eqI)
  moreover note or_bits [where b = b and cp = cp, folded cp']
  ultimately show ?thesis using st' assms(2,4)
    by (elim disjE; simp add: state_ranges_def bits_ok_def split: if_splits; linarith)
qed

lemma decode_accept: "decode 0 cp b = decode 0 0 b"
  by (simp add: decode_def UTF8_ACCEPT_def Let_def)

lemma decode_start: "b < 256 \<Longrightarrow> decode 0 0 b = (first_class (byte_class b), drop_bit (byte_class b) 0xFF AND b)"
  by (simp add: decode_def UTF8_ACCEPT_def Let_def utf8d_class utf8d_first byte_class_iff)

lemma decode_ascii: "b \<le> 0x7F \<Longrightarrow> decode 0 0 b = (0, b)"
proof -
  assume b: "b \<le> 0x7F"
  have "0xFF AND b = b"
    using b take_bit_eq_mask [of 8 b] by (simp add: take_bit_eq_mod mask_eq_exp_minus_1 and.commute)
  then show ?thesis using b by (simp add: decode_start byte_class_def first_class_def)
qed

definition lead_ok :: "nat \<Rightarrow> bool" where
  "lead_ok b \<longleftrightarrow>
     (let t = byte_class b; st = first_class t in
      case utf8_ranges b of
        None \<Rightarrow> st = 1
      | Some rs \<Rightarrow> bits_ok st (drop_bit t 0xFF AND b) \<and> state_ranges st = rs)"

lemma and_masks: "0x3F AND b = b mod 64" "0x1F AND b = b mod 32" "3 AND b = b mod 4" for b :: nat
  using take_bit_eq_mask [of 6 b] take_bit_eq_mask [of 5 b] take_bit_eq_mask [of 2 b]
  by (simp_all add: take_bit_eq_mod mask_eq_exp_minus_1 and.commute)

lemma decode_lead:
  assumes "b < 256" and "\<not> b \<le> 0x7F"
  shows "lead_ok b"
proof -
  consider "b \<le> 0xC1 \<or> 0xF5 \<le> b"
    | "0xC2 \<le> b \<and> b \<le> 0xDF" | "b = 0xE0" | "0xE1 \<le> b \<and> b \<le> 0xEC \<or> 0xEE \<le> b \<and> b \<le> 0xEF" | "b = 0xED" | "b = 0xF0"
    | "0xF1 \<le> b \<and> b \<le> 0xF3" | "b = 0xF4"
    by linarith
  then show ?thesis
  proof cases
    case 1
    then show ?thesis using assms
      by (auto simp: lead_ok_def utf8_ranges_def byte_class_def first_class_def)
  next
    case 2
    then have "b mod 64 = b - 192" by (intro mod_nat_eqI) auto
    then show ?thesis using 2
      by (auto simp: lead_ok_def utf8_ranges_def byte_class_def first_class_def bits_ok_def state_ranges_def and_masks Let_def)
  next
    case 4
    then have "b mod 32 = b - 224" by (intro mod_nat_eqI) auto
    then show ?thesis using 4
      by (auto simp: lead_ok_def utf8_ranges_def byte_class_def first_class_def bits_ok_def state_ranges_def and_masks Let_def)
  next
    case 7
    then have "b mod 4 = b - 240" by (intro mod_nat_eqI) auto
    then show ?thesis using 7
      by (auto simp: lead_ok_def utf8_ranges_def byte_class_def first_class_def bits_ok_def state_ranges_def and_masks Let_def)
  qed (simp_all add: lead_ok_def utf8_ranges_def byte_class_def first_class_def bits_ok_def state_ranges_def)
qed

lemma decode_first:
  assumes "b < 256" and "decode 0 cp b = (st, cp')"
  shows "b \<le> 0x7F \<Longrightarrow> st = 0 \<and> cp' = b"
    and "\<not> b \<le> 0x7F \<Longrightarrow> utf8_ranges b = None \<Longrightarrow> st = 1"
    and "\<not> b \<le> 0x7F \<Longrightarrow> utf8_ranges b = Some rs \<Longrightarrow> bits_ok st cp' \<and> state_ranges st = rs"
proof -
  have d: "decode 0 0 b = (st, cp')" using assms(2) decode_accept [of cp b] by simp
  show "b \<le> 0x7F \<Longrightarrow> st = 0 \<and> cp' = b"
    using decode_ascii d by simp
  have l: "\<not> b \<le> 0x7F \<Longrightarrow> lead_ok b" using decode_lead [OF assms(1)] .
  show "\<not> b \<le> 0x7F \<Longrightarrow> utf8_ranges b = None \<Longrightarrow> st = 1"
    and "\<not> b \<le> 0x7F \<Longrightarrow> utf8_ranges b = Some rs \<Longrightarrow> bits_ok st cp' \<and> state_ranges st = rs"
    using l d by (simp_all add: lead_ok_def Let_def decode_start assms(1))
qed

subsection \<open>What is written\<close>

definition escape :: "char \<Rightarrow> string" where
  "escape c = (if byte c \<le> 0x7F then escape_char (byte c) c else [c])"

lemma escape_high: "0x80 \<le> cp \<Longrightarrow> escape_char cp c = [c]"
  by (simp add: escape_char_def)

lemma dump_accept: "dump_escaped 0 cp buf s = dump_escaped 0 0 buf s"
  by (cases s) (simp_all add: decode_accept [of cp])

lemma state_ranges_next:
  "2 \<le> st \<Longrightarrow> st \<le> 8 \<Longrightarrow> state_ranges st = r # rs \<Longrightarrow> rs \<noteq> [] \<Longrightarrow> state_ranges (Suc (length rs)) = rs"
  by (auto simp: state_ranges_def split: if_splits)

lemma byte_less [simp]: "byte c < 256"
  by simp

text \<open>Inside a code point the writer copies the bytes the ranges of its state let through.\<close>

lemma dump_continue:
  assumes "bits_ok st cp"
  shows "dump_escaped st cp buf s =
    (case next_byte_in_range (state_ranges st) s of None \<Rightarrow> None | Some (bs, s') \<Rightarrow> dump_escaped 0 0 (buf @ bs) s')"
  using assms
proof (induction s arbitrary: st cp buf)
  case Nil
  then show ?case by (auto simp: bits_ok_def UTF8_ACCEPT_def state_ranges_def)
next
  case (Cons c s)
  have st: "2 \<le> st" "st \<le> 8" using Cons.prems by (simp_all add: bits_ok_def)
  then have "state_ranges st \<noteq> []" by (simp add: state_ranges_def)
  then obtain lo hi rs where rs: "state_ranges st = (lo, hi) # rs" by (metis list.exhaust surj_pair)
  obtain st' cp' where d: "decode st cp (byte c) = (st', cp')" by fastforce
  have st': "st' = (if lo \<le> byte c \<and> byte c \<le> hi then (if rs = [] then 0 else Suc (length rs)) else 1)"
    using next_state [OF byte_less st, of cp c] d by (auto simp: rs split: nat.split)
  show ?case
  proof (cases "lo \<le> byte c \<and> byte c \<le> hi")
    case False
    then have "st' = 1" "next_byte_in_range (state_ranges st) (c # s) = None" using st' by (auto simp: rs)
    then show ?thesis by (simp add: d UTF8_ACCEPT_def UTF8_REJECT_def)
  next
    case True
    then have bits: "if st' = 0 then 0x80 \<le> cp' else bits_ok st' cp'"
      using next_bits [OF byte_less Cons.prems d] st' by auto
    show ?thesis
    proof (cases "rs = []")
      case True
      then show ?thesis using bits st' \<open>lo \<le> byte c \<and> byte c \<le> hi\<close>
        by (simp add: d rs UTF8_ACCEPT_def escape_high dump_accept [of cp'])
    next
      case False
      then have "state_ranges st' = rs" using state_ranges_next [OF st rs] st' True by simp
      then show ?thesis using bits st' True False Cons.IH [of st' cp' "buf @ [c]"]
        by (auto simp: d rs UTF8_ACCEPT_def UTF8_REJECT_def split: option.split)
    qed
  qed
qed

lemma escape_bytes: "next_byte_in_range rs s = Some (bs, s') \<Longrightarrow> list_all (\<lambda>r. 0x80 \<le> fst r) rs \<Longrightarrow> concat (map escape bs) = bs"
  by (induction rs s arbitrary: bs rule: next_byte_in_range.induct) (auto simp: escape_def split: if_splits)

lemma utf8_ranges_high: "utf8_ranges b = Some rs \<Longrightarrow> list_all (\<lambda>r. 0x80 \<le> fst r) rs"
  by (auto simp: utf8_ranges_def split: if_splits)

lemma dump_escaped_outcome:
  "dump_escaped 0 0 buf s = (if utf8_valid s then Some (buf @ concat (map escape s)) else None)"
proof (induction s arbitrary: buf rule: utf8_valid.induct)
  case 1
  then show ?case by (simp add: UTF8_ACCEPT_def)
next
  case (2 c s)
  obtain st cp where d: "decode 0 0 (byte c) = (st, cp)" by fastforce
  note first = decode_first [OF byte_less d]
  show ?case
  proof (cases "byte c \<le> 0x7F")
    case True
    then show ?thesis using first(1) 2(1)
      by (simp add: d UTF8_ACCEPT_def escape_def [of c] dump_accept [of "byte c"])
  next
    case False
    show ?thesis
    proof (cases "utf8_ranges (byte c)")
      case None
      then show ?thesis using first(2) False by (simp add: d UTF8_ACCEPT_def UTF8_REJECT_def)
    next
      case (Some rs)
      then have st: "bits_ok st cp" "state_ranges st = rs" using first(3) False by auto
      then have "st \<noteq> 0" "st \<noteq> 1" by (simp_all add: bits_ok_def)
      then have "dump_escaped 0 0 buf (c # s) = dump_escaped st cp (buf @ [c]) s"
        by (simp add: d UTF8_ACCEPT_def UTF8_REJECT_def)
      also have "\<dots> = (case next_byte_in_range rs s of None \<Rightarrow> None | Some (bs, s') \<Rightarrow> dump_escaped 0 0 ((buf @ [c]) @ bs) s')"
        by (simp only: dump_continue [OF st(1)] st(2))
      finally have *: "dump_escaped 0 0 buf (c # s) =
        (case next_byte_in_range rs s of None \<Rightarrow> None | Some (bs, s') \<Rightarrow> dump_escaped 0 0 ((buf @ [c]) @ bs) s')" .
      show ?thesis
      proof (cases "next_byte_in_range rs s")
        case None
        then show ?thesis unfolding * using False Some by simp
      next
        case (Some r)
        obtain bs s' where r: "r = (bs, s')" by fastforce
        have "s = bs @ s'" "concat (map escape bs) = bs"
          using Some r escape_bytes [OF _ utf8_ranges_high [OF \<open>utf8_ranges (byte c) = Some rs\<close>]] next_byte_split by auto
        moreover have "escape c = [c]" using False by (simp add: escape_def)
        ultimately show ?thesis
          unfolding * using 2(2) [OF False \<open>utf8_ranges (byte c) = Some rs\<close> Some r [symmetric]] Some r False
            \<open>utf8_ranges (byte c) = Some rs\<close> by simp
      qed
    qed
  qed
qed

subsection \<open>What is read\<close>

lemma next_byte_change: "next_byte_in_range rs s = Some (bs, s') \<Longrightarrow> next_byte_in_range rs (bs @ t) = Some (bs, t)"
  by (induction rs s arbitrary: bs rule: next_byte_in_range.induct) (auto split: if_splits)

lemma utf8_append: "utf8_valid a \<Longrightarrow> utf8_valid b \<Longrightarrow> utf8_valid (a @ b)"
proof (induction a rule: utf8_valid.induct)
  case (2 c s)
  show ?case
  proof (cases "byte c \<le> 0x7F")
    case False
    then obtain rs bs s' where r: "utf8_ranges (byte c) = Some rs" "next_byte_in_range rs s = Some (bs, s')" "utf8_valid s'"
      using 2(3) by (auto split: option.splits)
    then have "next_byte_in_range rs (s @ b) = Some (bs, s' @ b)"
      using next_byte_change [OF r(2), of "s' @ b"] next_byte_split [OF r(2)] by simp
    then show ?thesis using r False 2(2) [OF False r(1,2) refl] 2(4) by simp
  qed (use 2 in auto)
qed simp

lemma hex_value_digit: "d < 16 \<Longrightarrow> hex_value (hex_digit d) = Some d"
  by (auto simp: hex_value_def hex_digit_def)

lemma get_codepoint_hex4:
  assumes "n \<le> 0x1F"
  shows "get_codepoint (hex4 n @ t) = Some (n, t)"
proof -
  have "n div 16 < 16" "n div 4096 = 0" "n div 256 = 0" using assms by auto
  moreover have "push_bit 4 (n div 16) + n mod 16 = n" by (simp add: push_bit_eq_mult)
  ultimately show ?thesis using assms by (simp add: get_codepoint_def hex4_def hex_value_digit)
qed

lemma scan_escape_char:
  assumes "byte c \<le> 0x7F"
  shows "scan_string buf (escape c @ t) = scan_string (buf @ [c]) t"
proof -
  have special: "c = d" if "byte c = byte d" for d using that by simp
  show ?thesis
  proof (cases "byte c \<in> {0x08, 0x09, 0x0A, 0x0C, 0x0D, 0x22, 0x5C}")
    case True
    then consider "byte c = byte (CHR 0x08)" | "byte c = byte (CHR 0x09)" | "byte c = byte (CHR 0x0A)" | "byte c = byte (CHR 0x0C)"
      | "byte c = byte (CHR 0x0D)" | "byte c = byte (CHR 0x22)" | "byte c = byte (CHR 0x5C)" by auto
    then show ?thesis by cases (drule special; simp add: escape_def escape_char_def)+
  next
    case False
    show ?thesis
    proof (cases "byte c \<le> 0x1F")
      case True
      then have "scan_escape (CHR ''u'' # hex4 (byte c) @ t) = Some ([c], t)"
        by (simp add: scan_unicode_def get_codepoint_hex4 codepoint_bytes_def)
      then show ?thesis using False True by (simp add: escape_def escape_char_def del: scan_escape.simps)
    next
      case False
      then show ?thesis using \<open>byte c \<notin> _\<close> assms by (auto simp: escape_def escape_char_def)
    qed
  qed
qed

lemma scan_escaped: "utf8_valid s \<Longrightarrow> scan_string buf (concat (map escape s) @ CHR 0x22 # t) = (value_string (buf @ s), t)"
proof (induction s arbitrary: buf rule: utf8_valid.induct)
  case (2 c s)
  show ?case
  proof (cases "byte c \<le> 0x7F")
    case True
    then show ?thesis using 2(1,3) scan_escape_char [OF True, of buf "concat (map escape s) @ CHR 0x22 # t"] by simp
  next
    case False
    then obtain rs bs s' where r: "utf8_ranges (byte c) = Some rs" "next_byte_in_range rs s = Some (bs, s')" "utf8_valid s'"
      using 2(3) by (auto split: option.splits)
    have e: "concat (map escape bs) = bs" "escape c = [c]"
      using next_byte_split [OF r(2)] escape_bytes [OF r(2) utf8_ranges_high [OF r(1)]] False by (simp_all add: escape_def)
    have "c \<noteq> CHR 0x22" "c \<noteq> CHR 0x5C" "\<not> byte c \<le> 0x1F" using False by auto
    then show ?thesis
      using False r 2(2) [OF False r(1,2) refl] next_byte_change [OF r(2), of "concat (map escape s') @ CHR 0x22 # t"]
        next_byte_split [OF r(2)]
      by (simp add: e)
  qed
qed simp

text \<open>The reader makes only UTF-8, also from escapes.\<close>

lemma or_add:
  fixes m x :: nat
  assumes "x < 2 ^ k"
  shows "push_bit k m OR x = push_bit k m + x"
proof -
  have "\<not> bit (push_bit k m) n \<or> \<not> bit x n" for n
  proof (cases "k \<le> n")
    case True
    have "take_bit k x = x" using assms by (simp add: take_bit_nat_eq_self)
    then have "\<not> bit x n" using True by (metis bit_take_bit_iff leD)
    then show ?thesis by simp
  qed (simp add: bit_push_bit_iff_nat)
  then show ?thesis by (simp add: disjunctive_add)
qed

lemma or_leads:
  fixes x :: nat
  shows "x < 64 \<Longrightarrow> 0xC0 OR x = 0xC0 + x" and "x < 16 \<Longrightarrow> 0xE0 OR x = 0xE0 + x"
    and "x < 8 \<Longrightarrow> 0xF0 OR x = 0xF0 + x" and "x < 64 \<Longrightarrow> 0x80 OR x = 0x80 + x"
  using or_add [of x 6 3] or_add [of x 4 14] or_add [of x 3 30] or_add [of x 6 2] by (simp_all add: push_bit_eq_mult)

lemma codepoint_valid:
  assumes "cp \<le> 0x10FFFF" and "\<not> (0xD800 \<le> cp \<and> cp \<le> 0xDFFF)"
  shows "utf8_valid (codepoint_bytes cp)"
proof -
  define l m h g where "l = cp mod 64" and "m = cp div 64 mod 64" and "h = cp div 4096 mod 64" and "g = cp div 262144"
  have lt: "l < 64" "m < 64" "h < 64" by (simp_all add: l_def m_def h_def)
  have "cp div 4096 = cp div 64 div 64" "g = cp div 4096 div 64" by (simp_all add: g_def flip: div_mult2_eq)
  then have "cp div 64 = 64 * (cp div 4096) + m" "cp div 4096 = 64 * g + h" "cp = 64 * (cp div 64) + l"
    by (simp_all only: m_def h_def l_def mult_div_mod_eq)
  then have cp: "cp = 262144 * g + 4096 * h + 64 * m + l" and d: "cp div 64 = 64 * (64 * g + h) + m" "cp div 4096 = 64 * g + h"
    by simp_all
  have whole: "drop_bit 6 cp = 64 * (64 * g + h) + m" "drop_bit 12 cp = 64 * g + h" "drop_bit 18 cp = g"
    using d by (simp_all add: drop_bit_eq_div g_def)
  have low: "cp AND 0x3F = l" "drop_bit 6 cp AND 0x3F = m" "drop_bit 12 cp AND 0x3F = h"
    by (simp_all add: drop_bit_eq_div and.commute [of _ 63] and_masks l_def m_def h_def)
  consider "cp < 0x80" | "0x80 \<le> cp" "cp \<le> 0x7FF" | "0x800 \<le> cp" "cp \<le> 0xFFFF" | "0x10000 \<le> cp" by linarith
  then show ?thesis
  proof cases
    case 2
    then have "g = 0" "h = 0" using cp lt by linarith+
    moreover from this have "2 \<le> m" "m < 32" using 2 cp lt by arith+
    ultimately show ?thesis using 2 lt by (simp add: codepoint_bytes_def whole(1) low(1) or_leads utf8_ranges_def)
  next
    case 3
    then have g: "g = 0" "h < 16" using cp by linarith+
    consider "h = 0" "32 \<le> m" | "h = 13" "m < 32" | "0 < h" "h < 13" | "13 < h"
      using 3(1) assms(2) cp lt g by linarith
    then show ?thesis using g lt 3
      by cases (simp_all add: codepoint_bytes_def whole(2) low(1,2) or_leads utf8_ranges_def)
  next
    case 4
    then have g: "g < 5" using cp assms(1) by linarith
    consider "g = 0" "16 \<le> h" | "g = 4" "h < 16" | "0 < g" "g < 4" using 4 assms(1) cp lt g by linarith
    then show ?thesis using lt 4
      by cases (simp_all add: codepoint_bytes_def whole(3) low or_leads utf8_ranges_def)
  qed (simp add: codepoint_bytes_def)
qed

lemma hex_value_less: "hex_value c = Some d \<Longrightarrow> d < 16"
  by (auto simp: hex_value_def split: if_splits)

lemma codepoint_loop_le:
  "codepoint_loop fs cp s = Some (cp', s') \<Longrightarrow> cp' \<le> cp + sum_list (map (\<lambda>f. push_bit f 15) fs)"
proof (induction fs cp s rule: codepoint_loop.induct)
  case (3 f fs cp c s)
  then obtain d where d: "hex_value c = Some d" by (auto split: option.splits)
  then have "push_bit f d \<le> push_bit f 15" using hex_value_less [OF d] by (simp add: push_bit_eq_mult)
  then show ?case using 3 d by fastforce
qed simp_all

lemma get_codepoint_less: "get_codepoint s = Some (cp, s') \<Longrightarrow> cp \<le> 0xFFFF"
  using codepoint_loop_le [of "[12, 8, 4, 0]" 0 s] by (simp add: get_codepoint_def push_bit_eq_mult)

lemma scan_unicode_valid: "scan_unicode s = Some (bs, s') \<Longrightarrow> utf8_valid bs"
  by (auto simp: scan_unicode_def push_bit_eq_mult split: option.splits if_splits intro!: codepoint_valid;
      (drule get_codepoint_less)+; linarith)

lemma scan_escape_valid: "scan_escape s = Some (bs, s') \<Longrightarrow> utf8_valid bs"
  by (induction s rule: scan_escape.induct) (auto split: if_splits dest: scan_unicode_valid)

lemma scan_string_valid: "scan_string buf s = (value_string v, s') \<Longrightarrow> utf8_valid buf \<Longrightarrow> utf8_valid v"
proof (induction buf s rule: scan_string.induct)
  case (2 buf c s)
  consider "c = CHR 0x22" | "c = CHR 0x5C" | "c \<noteq> CHR 0x22" "c \<noteq> CHR 0x5C" "byte c \<le> 0x1F"
    | "c \<noteq> CHR 0x22" "c \<noteq> CHR 0x5C" "\<not> byte c \<le> 0x1F" "byte c \<le> 0x7F"
    | "c \<noteq> CHR 0x22" "c \<noteq> CHR 0x5C" "\<not> byte c \<le> 0x1F" "\<not> byte c \<le> 0x7F" by blast
  then show ?case
  proof cases
    case 2
    then obtain bs t where r: "scan_escape s = Some (bs, t)" using "2.prems"(1) by (auto split: option.splits)
    have "utf8_valid (buf @ bs)" using scan_escape_valid [OF r] "2.prems"(2) by (rule utf8_append [rotated])
    then show ?thesis using "2.IH"(1) [OF _ _ r refl] 2 r "2.prems"(1) by simp
  next
    case 4
    have "utf8_valid (buf @ [c])" using "2.prems"(2) 4 by (intro utf8_append) simp_all
    then show ?thesis using "2.IH"(2) 4 "2.prems"(1) by simp
  next
    case 5
    then obtain rs bs t where r: "utf8_ranges (byte c) = Some rs" "next_byte_in_range rs s = Some (bs, t)"
      using "2.prems"(1) by (auto split: option.splits)
    have "utf8_valid (c # bs)" using 5 r next_byte_change [OF r(2), of "[]"] by simp
    then have "utf8_valid (buf @ c # bs)" using "2.prems"(2) by (rule utf8_append [rotated])
    then show ?thesis using "2.IH"(3) [OF _ _ _ _ r refl] 5 r "2.prems"(1) by simp
  qed (use 2 in auto)
qed simp

end
