(* ===== verification/Json_Parser.thy ===== *)
theory Json_Parser
  imports Json_Lexer
begin

section \<open>Reading JSON text, values: include/json.hpp\<close>

text \<open>
  \<open>sax_parse_internal\<close> keeps a stack of the arrays and objects that are open, and
  \<open>json_sax_dom_parser\<close> a stack of references to them in the value that is being built. Here both
  are one stack of frames: what has been read of an array, or of an object with the key whose
  value comes next. A parse error throws: \<open>None\<close>.
\<close>

datatype frame = in_array "json list" | in_object "(string \<times> json) list" string

text \<open>\<open>handle_value\<close>: the value goes into the innermost open array or object.\<close>

definition handle_value :: "json \<Rightarrow> frame \<Rightarrow> frame" where
  "handle_value v f = (case f of in_array xs \<Rightarrow> in_array (xs @ [v]) | in_object kvs k \<Rightarrow> in_object (AList.update k v kvs) k)"

fun end_frame :: "frame \<Rightarrow> token_type \<times> json" where
  "end_frame (in_array xs) = (end_array, JArr xs)"
| "end_frame (in_object kvs k) = (end_object, JObj kvs)"

text \<open>A key and its separator, from a token that should be the key.\<close>

fun parse_key :: "token_type \<times> string \<Rightarrow> (string \<times> string) option" where
  "parse_key (value_string k, s) = (case scan s of (t, s') \<Rightarrow> if t = name_separator then Some (k, s') else None)"
| "parse_key (t, s) = None"

text \<open>What precedes the next value of an open array or object, behind a comma.\<close>

fun next_frame :: "frame \<Rightarrow> string \<Rightarrow> (frame \<times> string) option" where
  "next_frame (in_array xs) s = Some (in_array xs, s)"
| "next_frame (in_object kvs k) s = map_option (\<lambda>(k', s'). (in_object kvs k', s')) (parse_key (scan s))"

lemma parse_key_length: "parse_key (t, s) = Some (k, s') \<Longrightarrow> length s' < length s"
  using scan_length [of s] by (cases t) (auto split: if_splits prod.splits)

lemma next_frame_length: "next_frame f s = Some (f', s') \<Longrightarrow> length s' \<le> length s"
proof (cases f)
  case (in_object kvs k)
  assume "next_frame f s = Some (f', s')"
  moreover obtain t s1 where "scan s = (t, s1)" by fastforce
  ultimately show ?thesis using in_object scan_length [of s t s1] by (auto dest: parse_key_length)
qed auto

text \<open>Every pass of the loop reads a token, which weighs less than its text.\<close>

definition token_weight :: "token_type \<Rightarrow> nat" where
  "token_weight t = (if t = end_of_input then 1 else 2)"

lemma scan_weight: "scan s = (t, s') \<Longrightarrow> 2 * length s' + token_weight t \<le> 2 * length s + (if s = [] then 1 else 0)"
  using scan_length [of s t s'] by (cases s) (auto simp: token_weight_def)

lemma end_frame_token: "fst (end_frame f) \<noteq> end_of_input"
  by (cases f) auto

text \<open>
  The loop: \<open>parse_value\<close> with the token just read, \<open>parse_state\<close> (the evaluation of the
  state) after a value.
\<close>

function (sequential) parse_value :: "token_type \<Rightarrow> string \<Rightarrow> frame list \<Rightarrow> (json \<times> string) option"
  and parse_state :: "json \<Rightarrow> string \<Rightarrow> frame list \<Rightarrow> (json \<times> string) option"
where
  "parse_value begin_object s st =
     (case scan s of (t, s1) \<Rightarrow>
        if t = end_object then parse_state (JObj []) s1 st
        else (case parse_key (t, s1) of
                None \<Rightarrow> None
              | Some (k, s2) \<Rightarrow> (case scan s2 of (t', s3) \<Rightarrow> parse_value t' s3 (in_object [] k # st))))"
| "parse_value begin_array s st =
     (case scan s of (t, s1) \<Rightarrow>
        if t = end_array then parse_state (JArr []) s1 st else parse_value t s1 (in_array [] # st))"
| "parse_value (value_float (Some q)) s st = parse_state (JFloat q) s st"
| "parse_value literal_false s st = parse_state (JBool False) s st"
| "parse_value literal_null s st = parse_state JNull s st"
| "parse_value literal_true s st = parse_state (JBool True) s st"
| "parse_value (value_integer n) s st = parse_state (JNum n) s st"
| "parse_value (value_string v) s st = parse_state (JStr v) s st"
| "parse_value (value_unsigned n) s st = parse_state (JNum n) s st"
| "parse_value t s st = None"
| "parse_state v s [] = Some (v, s)"
| "parse_state v s (f # st) =
     (case scan s of (t, s1) \<Rightarrow>
        if t = value_separator
        then (case next_frame (handle_value v f) s1 of
                None \<Rightarrow> None
              | Some (f', s2) \<Rightarrow> (case scan s2 of (t', s3) \<Rightarrow> parse_value t' s3 (f' # st)))
        else if t = fst (end_frame f) then parse_state (snd (end_frame (handle_value v f))) s1 st
        else None)"
  by pat_completeness auto

termination
proof (relation "measure (case_sum (\<lambda>(t, s, st). 2 * length s + token_weight t) (\<lambda>(v, s, st). 2 * length s))",
    goal_cases)
  case (2 s st t s1)
  then show ?case using scan_length [of s t s1] by (auto simp: token_weight_def)
next
  case (3 s st t s1 ks k s2 t' s3)
  then show ?case using scan_length [of s t s1] scan_weight [of s2 t' s3] parse_key_length [of t s1 k s2]
    by (auto simp: token_weight_def split: if_splits)
next
  case (4 s st t s1)
  then show ?case using scan_length [of s t s1] by (auto simp: token_weight_def)
next
  case (5 s st t s1)
  then show ?case using scan_length [of s t s1] by (auto simp: token_weight_def)
next
  case (13 v s f st t s1 fs f' s2 t' s3)
  then show ?case using scan_length [of s t s1] scan_weight [of s2 t' s3] next_frame_length [of "handle_value v f" s1 f' s2]
    by (auto split: if_splits)
next
  case (14 v s f st t s1)
  then show ?case using scan_length [of s t s1] end_frame_token [of f] by auto
qed (auto simp: token_weight_def)

text \<open>\<open>json::parse\<close>: nothing may follow the value.\<close>

definition json_parse :: "string \<Rightarrow> json option" where
  "json_parse text =
     (case first_token text of (t, s) \<Rightarrow>
        (case parse_value t s [] of
           None \<Rightarrow> None
         | Some (v, s') \<Rightarrow> if fst (scan s') = end_of_input then Some v else None))"

end
