(* ===== verification/Grisu_Digits.thy ===== *)
theory Grisu_Digits
  imports Grisu
begin

unbundle bit_operations_syntax

section \<open>The digits of a scaled number\<close>

text \<open>
  The digit generation on natural numbers: none of the words overflows, the loops end with a
  number between the two boundaries, and the assertions of the source hold on the way.
\<close>

subsection \<open>Words as numbers\<close>

lemma unat_take: "unat (take_bit n (x :: 'a :: len word)) = unat x mod 2 ^ n"
  unfolding unsigned_take_bit_eq by (rule take_bit_eq_mod)

lemma unat_mask32: "unat (x AND 0xFFFFFFFF :: 64 word) = unat x mod 2 ^ 32"
proof -
  have "x AND 0xFFFFFFFF = take_bit 32 x" by (simp add: take_bit_eq_mask mask_eq_exp_minus_1)
  then show ?thesis by (simp only: unat_take)
qed

lemma unat_drop: "unat (drop_bit n (x :: 'a :: len word)) = unat x div 2 ^ n"
  unfolding unat_drop_bit_eq by (rule drop_bit_eq_div)

lemma unat_add: "unat a + unat b < 2 ^ LENGTH('a) \<Longrightarrow> unat (a + b :: 'a :: len word) = unat a + unat b"
  by (simp add: unat_word_ariths)

lemma unat_mult: "unat a * unat b < 2 ^ LENGTH('a) \<Longrightarrow> unat (a * b :: 'a :: len word) = unat a * unat b"
  by (simp add: unat_word_ariths)

lemma unat_push: "unat a * 2 ^ n < 2 ^ LENGTH('a) \<Longrightarrow> unat (push_bit n (a :: 'a :: len word)) = unat a * 2 ^ n"
  unfolding unsigned_push_bit_eq push_bit_eq_mult [of n "unat a"] by (rule take_bit_nat_eq_self)

lemma unat_shift:
  assumes "n < 64"
  shows "unat (push_bit n 1 :: 64 word) = 2 ^ n"
proof -
  have "(2 :: nat) ^ n < 2 ^ 64" using assms by (intro power_strict_increasing) auto
  then show ?thesis by (subst unat_push) simp_all
qed

lemma unat_mask_shift: "unat (x AND (push_bit n 1 - 1) :: 64 word) = unat x mod 2 ^ n"
proof -
  have "x AND (push_bit n 1 - 1) = take_bit n x"
    by (simp add: take_bit_eq_mask mask_eq_exp_minus_1 push_bit_eq_mult)
  then show ?thesis by (simp only: unat_take)
qed

lemma unat_up [simp]: "unat (ucast (x :: 32 word) :: 64 word) = unat x"
proof -
  have "unat x < 2 ^ 32" using unsigned_less [of x] by simp
  then show ?thesis by (simp add: unsigned_ucast_eq take_bit_nat_eq_self_iff)
qed

subsection \<open>Products\<close>

lemma product_split:
  fixes P :: nat
  assumes "P = 2 * h" and "0 < P" and "l0 < P" and "ql < P"
    and "a * c = h0 * P + l0" and "a * d = h1 * P + l1" and "b * c = h2 * P + l2"
    and "h0 + l1 + l2 + h = qh * P + ql"
  shows "((b * P + a) * (d * P + c) + h * P) div (P * P) = b * d + h2 + h1 + qh"
proof -
  have "(b * P + a) * (d * P + c) + h * P = b * d * P * P + (h1 + h2) * P * P + (h0 + l1 + l2 + h) * P + l0"
    using assms(5-7) by (simp add: algebra_simps)
  also have "\<dots> = (ql * P + l0) + (b * d + h2 + h1 + qh) * (P * P)"
    unfolding assms(8) by (simp add: algebra_simps)
  finally have "(b * P + a) * (d * P + c) + h * P = (ql * P + l0) + (b * d + h2 + h1 + qh) * (P * P)" .
  moreover have "ql * P + l0 < P * P"
  proof -
    have "ql * P + l0 < Suc ql * P" using assms(3) by simp
    also have "\<dots> \<le> P * P" using assms(4) by (intro mult_le_mono1) simp
    finally show ?thesis .
  qed
  ultimately show ?thesis using assms(2) by simp
qed

text \<open>The product is the rounded upper half, for all arguments: no sum overflows.\<close>

lemma diyfp_mul_rounds:
  "unat (fp_f (diyfp_mul x y)) = (unat (fp_f x) * unat (fp_f y) + 2 ^ 63) div 2 ^ 64"
proof -
  define P :: nat where "P = 2 ^ 32"
  define u v where "u = unat (fp_f x)" and "v = unat (fp_f y)"
  define a b c d where "a = u mod P" and "b = u div P" and "c = v mod P" and "d = v div P"
  have "u < 2 ^ 64" "v < 2 ^ 64"
    unfolding u_def v_def using unsigned_less [of "fp_f x"] unsigned_less [of "fp_f y"] by simp_all
  then have h: "a < P" "b < P" "c < P" "d < P"
    by (simp_all add: a_def b_def c_def d_def P_def less_mult_imp_div_less)
  have small: "p * q \<le> (P - 1) * (P - 1)" if "p < P" "q < P" for p q
    using that by (intro mult_le_mono) auto
  note s = small [OF h(1) h(3)] small [OF h(1) h(4)] small [OF h(2) h(3)] small [OF h(2) h(4)]
  let ?Q = "a * c div P + a * d mod P + b * c mod P + 2 ^ 31"
  let ?H = "b * d + b * c div P + a * d div P + ?Q div P"
  have r: "(u * v + 2 ^ 63) div 2 ^ 64 = ?H"
  proof -
    have "((b * P + a) * (d * P + c) + 2 ^ 31 * P) div (P * P) = ?H"
      by (rule product_split [where ?l0.0 = "a * c mod P" and ?l1.0 = "a * d mod P" and ?l2.0 = "b * c mod P" and ql = "?Q mod P"])
        (simp_all add: P_def)
    moreover have "b * P + a = u" "d * P + c = v" by (simp_all add: a_def b_def c_def d_def)
    ultimately show ?thesis by (simp add: P_def)
  qed
  have P: "P = 2 ^ 32" by (rule P_def)
  have lt: "a * c < 2 ^ 64" "a * d < 2 ^ 64" "b * c < 2 ^ 64" "b * d < 2 ^ 64"
    using s by (simp_all add: P)
  have d32: "unat (fp_f x AND 0xFFFFFFFF) = a" "unat (drop_bit 32 (fp_f x)) = b"
    "unat (fp_f y AND 0xFFFFFFFF) = c" "unat (drop_bit 32 (fp_f y)) = d"
    by (simp_all only: unat_mask32 unat_drop a_def b_def c_def d_def u_def v_def P)
  define p0 p1 p2 p3 where "p0 = (fp_f x AND 0xFFFFFFFF) * (fp_f y AND 0xFFFFFFFF)"
    and "p1 = (fp_f x AND 0xFFFFFFFF) * drop_bit 32 (fp_f y)"
    and "p2 = drop_bit 32 (fp_f x) * (fp_f y AND 0xFFFFFFFF)"
    and "p3 = drop_bit 32 (fp_f x) * drop_bit 32 (fp_f y)"
  have p: "unat p0 = a * c" "unat p1 = a * d" "unat p2 = b * c" "unat p3 = b * d"
    unfolding p0_def p1_def p2_def p3_def using lt d32 by (simp_all add: unat_mult)
  have part: "unat (drop_bit 32 p0) = a * c div P" "unat (p1 AND 0xFFFFFFFF) = a * d mod P"
    "unat (drop_bit 32 p1) = a * d div P" "unat (p2 AND 0xFFFFFFFF) = b * c mod P" "unat (drop_bit 32 p2) = b * c div P"
    by (simp_all only: unat_mask32 unat_drop p P)
  define Q where "Q = drop_bit 32 p0 + (p1 AND 0xFFFFFFFF) + (p2 AND 0xFFFFFFFF) + push_bit 31 1"
  have q: "unat Q = ?Q"
  proof -
    have "a * c div P < P" "a * d mod P < P" "b * c mod P < P"
      using s(1) by (simp_all add: P less_mult_imp_div_less)
    then have "?Q < 2 ^ 64" by (simp add: P)
    moreover have "unat (push_bit 31 1 :: 64 word) = 2 ^ 31" by simp
    ultimately show ?thesis by (simp add: Q_def unat_add part)
  qed
  have "?H < 2 ^ 64"
  proof -
    have "u * v \<le> (2 ^ 64 - 1) * (2 ^ 64 - 1)"
      using \<open>u < 2 ^ 64\<close> \<open>v < 2 ^ 64\<close> by (intro mult_le_mono) auto
    then have "u * v + 2 ^ 63 < 2 ^ 64 * 2 ^ 64" by simp
    then show ?thesis unfolding r [symmetric] by (rule less_mult_imp_div_less)
  qed
  then have "unat (p3 + drop_bit 32 p2 + drop_bit 32 p1 + drop_bit 32 Q) = ?H"
    by (simp add: unat_add unat_drop q part p P)
  then show ?thesis
    unfolding u_def [symmetric] v_def [symmetric] r
    by (simp add: diyfp_mul_def Let_def Q_def p0_def p1_def p2_def p3_def)
qed

subsection \<open>The largest power of ten\<close>

lemma find_largest_pow10_correct:
  assumes "find_largest_pow10 n = (k, p)"
  shows "0 < k" and "k \<le> 10" and "unat p * 10 = 10 ^ k" and "unat n < 10 ^ k" and "n \<noteq> 0 \<Longrightarrow> unat p \<le> unat n"
proof -
  have "unat n < 2 ^ 32" using unsigned_less [of n] by simp
  then show "0 < k" "k \<le> 10" "unat p * 10 = 10 ^ k" "unat n < 10 ^ k"
    using assms by (auto simp: find_largest_pow10_def word_le_nat_alt not_le split: if_splits)
  show "unat p \<le> unat n" if "n \<noteq> 0"
  proof -
    have "1 \<le> unat n" using that by (simp add: Suc_le_eq unat_gt_0)
    then show ?thesis using assms by (auto simp: find_largest_pow10_def word_le_nat_alt split: if_splits)
  qed
qed

subsection \<open>Decimal digits\<close>

text \<open>The digits of a number without a leading zero.\<close>

definition plain_digits :: "string \<Rightarrow> bool" where
  "plain_digits ds \<longleftrightarrow> ds \<noteq> [] \<and> hd ds \<noteq> CHR ''0'' \<and> list_all is_digit ds"

lemma byte_digit [simp]: "d \<le> 9 \<Longrightarrow> byte (digit_char d) = 0x30 + d"
  by (simp add: digit_char_def)

lemma is_digit_char [simp]: "d \<le> 9 \<Longrightarrow> is_digit (digit_char d)"
  by (simp add: is_digit_def)

lemma digits_value_Nil [simp]: "digits_value [] = 0"
  by (simp add: digits_value_def)

lemma digits_value_snoc [simp]: "digits_value (ds @ [c]) = 10 * digits_value ds + (byte c - 0x30)"
  by (simp add: digits_value_def)

lemma digit_char_zero: "digit_char 0 = CHR ''0''"
  by code_simp

lemma zero_char: "(digit_char d = CHR ''0'') = (d = 0)" if "d \<le> 9"
  using byte_digit [OF that] by (metis byte_digit digit_char_zero add_left_imp_eq le0)

lemma plain_snoc:
  assumes "plain_digits buf \<or> buf = [] \<and> 0 < d" and "d \<le> 9"
  shows "plain_digits (buf @ [digit_char d])"
  using assms by (auto simp: plain_digits_def zero_char)

text \<open>Lowering the last digit: it never gets below 1, as the digits before it were not close enough.\<close>

lemma grisu2_round_correct:
  assumes "unat rest \<le> unat delta" and "0 < unat ten_k" and "d \<le> 9" and "unat delta < unat rest + d * unat ten_k"
  shows "\<exists>j < d. grisu2_round (buf @ [digit_char d]) distance delta rest ten_k = buf @ [digit_char (d - j)] \<and>
    unat rest + j * unat ten_k \<le> unat delta"
  using assms
proof (induction d arbitrary: rest)
  case (Suc d)
  let ?go = "rest \<le> delta \<and> ten_k > 0 \<and> rest < distance \<and> delta - rest \<ge> ten_k \<and>
      (rest + ten_k < distance \<or> distance - rest > rest + ten_k - distance)"
  show ?case
  proof (cases ?go)
    case True
    have r: "unat (rest + ten_k) = unat rest + unat ten_k" "unat (rest + ten_k) \<le> unat delta"
      using True by (auto intro!: round_step)
    have c: "char_of (byte (digit_char (Suc d)) - 1) = digit_char d"
      using Suc.prems(3) by (simp add: digit_char_def)
    have "\<exists>j < d. grisu2_round (buf @ [digit_char d]) distance delta (rest + ten_k) ten_k = buf @ [digit_char (d - j)] \<and>
        unat (rest + ten_k) + j * unat ten_k \<le> unat delta"
      using Suc.prems r by (intro Suc.IH) (simp_all add: algebra_simps)
    then obtain j where j: "j < d" "grisu2_round (buf @ [digit_char d]) distance delta (rest + ten_k) ten_k = buf @ [digit_char (d - j)]"
      "unat rest + unat ten_k + j * unat ten_k \<le> unat delta" by (auto simp: r(1))
    then show ?thesis
      using True c by (intro exI [of _ "Suc j"]) (simp add: grisu2_round.simps [of "buf @ [digit_char (Suc d)]"] add.assoc)
  next
    case False
    then have "grisu2_round (buf @ [digit_char (Suc d)]) distance delta rest ten_k = buf @ [digit_char (Suc d)]"
      by (subst grisu2_round.simps) (rule if_not_P)
    then show ?thesis using Suc.prems(1) by (intro exI [of _ 0]) simp
  qed
qed simp

subsection \<open>The loops\<close>

lemma integral_loop_correct:
  assumes "unat p1 < 10 ^ n" and "n \<noteq> 0 \<longrightarrow> unat pow10 * 10 = 10 ^ n \<and> unat pow10 * 2 ^ S \<le> M"
    and "plain_digits buffer \<or> buffer = [] \<and> n \<noteq> 0 \<and> pow10 \<le> p1"
    and "M = (digits_value buffer * 10 ^ n + unat p1) * 2 ^ S + unat p2" and "M < 2 ^ 64"
    and "unat delta < unat p1 * 2 ^ S + unat p2" and "unat p2 < 2 ^ S"
  shows "case integral_loop n buffer p1 pow10 p2 S distance delta of
      Inl (ds, i) \<Rightarrow> plain_digits ds \<and> length ds + i = length buffer + n \<and>
        digits_value ds * 10 ^ i * 2 ^ S \<le> M \<and> M \<le> digits_value ds * 10 ^ i * 2 ^ S + unat delta \<and>
        unat delta < 10 ^ Suc i * 2 ^ S
    | Inr ds \<Rightarrow> plain_digits ds \<and> length ds = length buffer + n \<and>
        M = digits_value ds * 2 ^ S + unat p2 \<and> unat delta < unat p2"
  using assms
proof (induction n buffer p1 pow10 p2 S distance delta rule: integral_loop.induct)
  case (1 buffer p1 pow10 p2 S distance delta)
  then show ?case by simp
next
  case (2 n buffer p1 pow10 p2 S distance delta)
  define d r where "d = unat p1 div unat pow10" and "r = unat p1 mod unat pow10"
  have pow: "unat pow10 = 10 ^ n" using 2(3) by simp
  have d: "d \<le> 9" using 2(2) by (simp add: d_def pow less_mult_imp_div_less less_Suc_eq_le [symmetric] mult.commute)
  have p1: "unat p1 = d * 10 ^ n + r" and r: "r < 10 ^ n" unfolding d_def r_def pow by (rule div_mult_mod_eq [symmetric], simp)
  have words: "unat (p1 div pow10) = d" "unat (p1 mod pow10) = r" by (simp_all add: unat_div unat_mod d_def r_def)
  have M: "M = (digits_value (buffer @ [digit_char d]) * 10 ^ n + r) * 2 ^ S + unat p2"
    using 2(5) d by (simp add: p1 algebra_simps)
  have rlt: "r * 2 ^ S + unat p2 < 2 ^ 64" using M 2(6) by (simp add: algebra_simps)
  define rest where "rest = push_bit S (ucast (p1 mod pow10)) + p2"
  have rest: "unat rest = r * 2 ^ S + unat p2"
    using rlt by (simp add: rest_def unat_add unat_push words)
  have plain: "plain_digits (buffer @ [digit_char e])" if "0 < e \<or> d = e" "e \<le> 9" for e
  proof (rule plain_snoc)
    have "pow10 \<le> p1 \<Longrightarrow> 0 < d" by (simp add: d_def word_le_nat_alt div_greater_zero_iff pow)
    then show "plain_digits buffer \<or> buffer = [] \<and> 0 < e" using 2(4) that(1) by auto
  qed (rule that(2))
  show ?case
  proof (cases "rest \<le> delta")
    case True
    have ten: "unat (push_bit S (ucast pow10) :: 64 word) = 10 ^ n * 2 ^ S"
      using 2(3,6) by (simp add: unat_push pow)
    have "\<exists>j < d. grisu2_round (buffer @ [digit_char d]) distance delta rest (push_bit S (ucast pow10)) =
        buffer @ [digit_char (d - j)] \<and> unat rest + j * unat (push_bit S (ucast pow10) :: 64 word) \<le> unat delta"
      using True d 2(7) by (intro grisu2_round_correct) (simp_all add: ten rest p1 word_le_nat_alt algebra_simps)
    then obtain j where j: "j < d" "grisu2_round (buffer @ [digit_char d]) distance delta rest (push_bit S (ucast pow10)) =
        buffer @ [digit_char (d - j)]" "r * 2 ^ S + unat p2 + j * (10 ^ n * 2 ^ S) \<le> unat delta"
      by (auto simp: ten rest)
    have V: "M = digits_value (buffer @ [digit_char (d - j)]) * 10 ^ n * 2 ^ S + (r * 2 ^ S + unat p2 + j * (10 ^ n * 2 ^ S))"
    proof -
      obtain k where "d = j + k" using j(1) less_imp_add_positive by blast
      then show ?thesis using d by (simp add: M algebra_simps)
    qed
    have "plain_digits (buffer @ [digit_char (d - j)])" using plain [of "d - j"] j(1) d by simp
    moreover have "unat delta < 10 ^ Suc n * 2 ^ S"
    proof -
      have "(unat p1 + 1) * 2 ^ S \<le> 10 ^ Suc n * 2 ^ S" using 2(2) by (intro mult_le_mono1) simp
      then show ?thesis using 2(7,8) by simp
    qed
    ultimately show ?thesis using True j(2,3) V by (simp add: Let_def words flip: rest_def)
  next
    case False
    have "case integral_loop n (buffer @ [digit_char d]) (p1 mod pow10) (pow10 div 10) p2 S distance delta of
        Inl (ds, i) \<Rightarrow> plain_digits ds \<and> length ds + i = length (buffer @ [digit_char d]) + n \<and>
          digits_value ds * 10 ^ i * 2 ^ S \<le> M \<and> M \<le> digits_value ds * 10 ^ i * 2 ^ S + unat delta \<and>
        unat delta < 10 ^ Suc i * 2 ^ S
      | Inr ds \<Rightarrow> plain_digits ds \<and> length ds = length (buffer @ [digit_char d]) + n \<and>
          M = digits_value ds * 2 ^ S + unat p2 \<and> unat delta < unat p2"
    proof (rule 2(1) [of "p1 div pow10" "p1 mod pow10" "buffer @ [digit_char d]" rest])
      show "n \<noteq> 0 \<longrightarrow> unat (pow10 div 10) * 10 = 10 ^ n \<and> unat (pow10 div 10) * 2 ^ S \<le> M"
        using 2(3) by (cases n) (auto simp: unat_div pow intro: order_trans [rotated])
    qed (use False r M 2(6,8) plain [of d] d in \<open>simp_all add: words rest rest_def [symmetric] word_le_nat_alt\<close>)
    then show ?thesis using False by (simp add: Let_def words split: sum.splits prod.splits flip: rest_def)
  qed
qed

lemma fractional_loop_correct:
  assumes "fractional_loop m buffer p2 (push_bit S 1) S distance delta = (ds, m')"
    and "S \<le> 60" and "unat p2 < 2 ^ S" and "unat delta < unat p2" and "plain_digits buffer"
    and "M = digits_value buffer * 2 ^ S + unat p2"
  shows "plain_digits ds \<and> m < m' \<and> length ds = length buffer + (m' - m) \<and>
    digits_value ds * 2 ^ S \<le> M * 10 ^ (m' - m) \<and>
    M * 10 ^ (m' - m) \<le> digits_value ds * 2 ^ S + unat delta * 10 ^ (m' - m) \<and>
    unat delta * 10 ^ (m' - m) < 10 * 2 ^ S"
  using assms
proof (induction m buffer p2 "push_bit S 1 :: 64 word" S distance delta arbitrary: M rule: fractional_loop.induct)
  case (1 m buffer p2 S distance delta)
  define one where "one = (push_bit S 1 :: 64 word)"
  have big: "(2 :: nat) ^ S \<le> 2 ^ 60" using 1(3) by (intro power_increasing) auto
  have ten: "unat (p2 * 10) = unat p2 * 10" "unat (delta * 10) = unat delta * 10"
    using big 1(4,5) by (simp_all add: unat_mult)
  define d r where "d = unat p2 * 10 div 2 ^ S" and "r = unat p2 * 10 mod 2 ^ S"
  have words: "unat (drop_bit S (p2 * 10)) = d" "unat (p2 * 10 AND (one - 1)) = r"
    by (simp_all only: one_def unat_drop unat_mask_shift ten d_def r_def)
  have p2: "unat p2 * 10 = d * 2 ^ S + r" and r: "r < 2 ^ S"
    unfolding d_def r_def by (rule div_mult_mod_eq [symmetric], simp)
  have d: "d \<le> 9" using 1(4) by (simp add: d_def less_mult_imp_div_less less_Suc_eq_le [symmetric])
  have one: "unat one = 2 ^ S" unfolding one_def using 1(3) by (intro unat_shift) simp
  have M: "M * 10 = digits_value (buffer @ [digit_char d]) * 2 ^ S + r"
    using 1(7) d p2 by (simp add: algebra_simps)
  have plain: "plain_digits (buffer @ [digit_char e])" if "e \<le> 9" for e
    using 1(6) that by (intro plain_snoc) auto
  define w where "w = p2 * 10 AND (one - 1)"
  have w: "unat w = r" by (simp only: w_def words)
  note loop = 1(2) [folded one_def, unfolded fractional_loop.simps [of m], folded w_def]
  show ?case
  proof (cases "w \<le> delta * 10")
    case True
    have "\<exists>j < d. grisu2_round (buffer @ [digit_char d]) (distance * 10) (delta * 10) w one =
        buffer @ [digit_char (d - j)] \<and> unat w + j * unat one \<le> unat (delta * 10)"
      using True d 1(5) p2 by (intro grisu2_round_correct) (simp_all add: one w ten word_le_nat_alt)
    then obtain j where j: "j < d" "grisu2_round (buffer @ [digit_char d]) (distance * 10) (delta * 10) w one =
        buffer @ [digit_char (d - j)]" "r + j * 2 ^ S \<le> unat delta * 10"
      by (auto simp: one w ten)
    have V: "M * 10 = digits_value (buffer @ [digit_char (d - j)]) * 2 ^ S + (r + j * 2 ^ S)"
    proof -
      obtain k where "d = j + k" using j(1) less_imp_add_positive by blast
      then show ?thesis using d M by (simp add: algebra_simps)
    qed
    have "ds = buffer @ [digit_char (d - j)]" "m' = Suc m"
      using loop True j(2) by (simp_all add: Let_def words)
    then show ?thesis using V j(3) plain [of "d - j"] d 1(4,5) by simp
  next
    case False
    have rec: "fractional_loop (Suc m) (buffer @ [digit_char d]) w one S (distance * 10) (delta * 10) = (ds, m')"
      using loop False by (simp add: Let_def words)
    have "plain_digits ds \<and> Suc m < m' \<and> length ds = length (buffer @ [digit_char d]) + (m' - Suc m) \<and>
      digits_value ds * 2 ^ S \<le> M * 10 * 10 ^ (m' - Suc m) \<and>
      M * 10 * 10 ^ (m' - Suc m) \<le> digits_value ds * 2 ^ S + unat (delta * 10) * 10 ^ (m' - Suc m) \<and>
      unat (delta * 10) * 10 ^ (m' - Suc m) < 10 * 2 ^ S"
    proof (rule 1(1) [folded one_def, of "drop_bit S (p2 * 10)" w "buffer @ [digit_char d]" "delta * 10" "distance * 10"])
      show "M * 10 = digits_value (buffer @ [digit_char d]) * 2 ^ S + unat w" by (simp only: M w)
    qed (use False r rec 1(3) plain [OF d] in \<open>simp_all add: words w word_le_nat_alt flip: w_def\<close>)
    then obtain i where i: "plain_digits ds" "m' = Suc (Suc (m + i))" "length ds = Suc (length buffer + Suc i)"
      "digits_value ds * 2 ^ S \<le> M * 10 * 10 ^ Suc i"
      "M * 10 * 10 ^ Suc i \<le> digits_value ds * 2 ^ S + unat (delta * 10) * 10 ^ Suc i"
      "unat (delta * 10) * 10 ^ Suc i < 10 * 2 ^ S"
      by (auto dest!: less_imp_Suc_add)
    have "m' - m = Suc (Suc i)" using i(2) by simp
    then show ?thesis using i by (simp only: ten) (simp add: algebra_simps)
  qed
qed

text \<open>
  The number that is generated lies between the two boundaries; here all three are read in units
  of \<open>2 ^ (- S)\<close>.
\<close>

lemma grisu2_digit_gen_correct:
  assumes "grisu2_digit_gen decimal_exponent M_minus w M_plus = (ds, e)"
    and "fp_e M_plus = - int S" and "32 \<le> S" and "S \<le> 60"
    and "0 < unat (fp_f M_minus)" and "unat (fp_f M_minus) \<le> unat (fp_f M_plus)" and "2 ^ S \<le> unat (fp_f M_plus)"
  shows "plain_digits ds" and "1 \<le> int (length ds) + (e - decimal_exponent)" and "int (length ds) + (e - decimal_exponent) \<le> 10"
    and "of_nat (unat (fp_f M_minus)) \<le> of_nat (digits_value ds) * 10 powi (e - decimal_exponent) * (2 :: rat) ^ S"
    and "of_nat (digits_value ds) * 10 powi (e - decimal_exponent) * (2 :: rat) ^ S \<le> of_nat (unat (fp_f M_plus))"
    and "(unat (fp_f M_plus) - unat (fp_f M_minus)) * 10 ^ length ds < 100 * unat (fp_f M_plus)"
proof -
  define M where "M = unat (fp_f M_plus)"
  define delta where "delta = fp_f M_plus - fp_f M_minus"
  define distance where "distance = fp_f M_plus - fp_f w"
  define p1 :: "32 word" where "p1 = ucast (drop_bit S (fp_f M_plus))"
  define p2 where "p2 = fp_f M_plus AND (push_bit S 1 - 1)"
  obtain k pow10 where kp: "find_largest_pow10 p1 = (k, pow10)" by fastforce
  note pow = find_largest_pow10_correct [OF kp]
  have M64: "M < 2 ^ 64" unfolding M_def using unsigned_less [of "fp_f M_plus"] by simp
  have ud: "unat delta = M - unat (fp_f M_minus)" using assms(6) by (simp add: delta_def M_def unat_sub word_le_nat_alt)
  have "(2 :: nat) ^ 32 \<le> 2 ^ S" using assms(3) by (intro power_increasing) auto
  then have "M div 2 ^ S < 2 ^ 32" using M64 by (intro less_mult_imp_div_less) (simp add: order_less_le_trans)
  then have up1: "unat p1 = M div 2 ^ S"
    by (simp add: p1_def unsigned_ucast_eq unat_drop take_bit_nat_eq_self M_def)
  have up2: "unat p2 = M mod 2 ^ S" by (simp only: p2_def unat_mask_shift M_def)
  have p2: "unat p2 < 2 ^ S" by (simp add: up2)
  have "0 < unat p1" using assms(7) by (simp add: up1 M_def div_greater_zero_iff)
  then have p1: "p1 \<noteq> 0" by (simp add: unat_gt_0)
  have M: "M = (digits_value [] * 10 ^ k + unat p1) * 2 ^ S + unat p2" by (simp only: up1 up2 digits_value_Nil mult_0 add_0 div_mult_mod_eq)
  have small: "unat delta < unat p1 * 2 ^ S + unat p2" 
  proof -
    have "(0 :: nat) < 2 ^ S" by simp
    then have "0 < M" using assms(7) unfolding M_def by (rule order_less_le_trans)
    then show ?thesis using assms(5) M by (simp only: ud digits_value_Nil mult_0 add_0 diff_less)
  qed
  have pM: "unat pow10 * 2 ^ S \<le> M"
  proof -
    have "unat pow10 * 2 ^ S \<le> M div 2 ^ S * 2 ^ S" using pow(5) [OF p1] by (intro mult_le_mono1) (simp add: up1)
    then show ?thesis using div_times_less_eq_dividend order_trans by blast
  qed
  have loop: "case integral_loop k [] p1 pow10 p2 S distance delta of
      Inl (ds, i) \<Rightarrow> plain_digits ds \<and> length ds + i = length ([] :: string) + k \<and>
        digits_value ds * 10 ^ i * 2 ^ S \<le> M \<and> M \<le> digits_value ds * 10 ^ i * 2 ^ S + unat delta \<and>
        unat delta < 10 ^ Suc i * 2 ^ S
    | Inr ds \<Rightarrow> plain_digits ds \<and> length ds = length ([] :: string) + k \<and>
        M = digits_value ds * 2 ^ S + unat p2 \<and> unat delta < unat p2"
    using pow(1,3,4) pow(5) [OF p1] pM M M64 small p2
    by (intro integral_loop_correct) (simp_all add: word_le_nat_alt)
  have gen: "(ds, e) = (case integral_loop k [] p1 pow10 p2 S distance delta of
      Inl (buffer, n) \<Rightarrow> (buffer, decimal_exponent + int n)
    | Inr buffer \<Rightarrow> (case fractional_loop 0 buffer p2 (push_bit S 1) S distance delta of (buffer, m) \<Rightarrow>
        (buffer, decimal_exponent - int m)))"
    using assms(1)
    by (simp only: grisu2_digit_gen_def diyfp_sub_def Let_def diyfp.select_convs assms(2) minus_minus nat_int
        p1_def [symmetric] p2_def [symmetric] delta_def [symmetric] distance_def [symmetric] kp prod.case)
  obtain a b :: nat where ab: "e - decimal_exponent = int a - int b" "plain_digits ds" "length ds + a = k + b"
      "digits_value ds * 10 ^ a * 2 ^ S \<le> M * 10 ^ b" "M * 10 ^ b \<le> digits_value ds * 10 ^ a * 2 ^ S + unat delta * 10 ^ b"
      "unat delta * 10 ^ b < 10 ^ Suc a * 2 ^ S"
  proof (cases "integral_loop k [] p1 pow10 p2 S distance delta")
    case (Inl x)
    then obtain i where "integral_loop k [] p1 pow10 p2 S distance delta = Inl (ds, i)" "e = decimal_exponent + int i"
      using gen by (cases x) auto
    then show ?thesis using loop by (intro that [of i 0]) auto
  next
    case (Inr buf)
    then obtain m where m: "fractional_loop 0 buf p2 (push_bit S 1) S distance delta = (ds, m)" "e = decimal_exponent - int m"
      using gen by (cases "fractional_loop 0 buf p2 (push_bit S 1) S distance delta") auto
    have "plain_digits ds \<and> 0 < m \<and> length ds = length buf + (m - 0) \<and>
        digits_value ds * 2 ^ S \<le> M * 10 ^ (m - 0) \<and> M * 10 ^ (m - 0) \<le> digits_value ds * 2 ^ S + unat delta * 10 ^ (m - 0) \<and>
        unat delta * 10 ^ (m - 0) < 10 * 2 ^ S"
      using loop Inr assms(4) by (intro fractional_loop_correct [OF m(1)]) (auto simp: up2)
    then show ?thesis using loop Inr m(2) by (intro that [of 0 m]) auto
  qed
  show "plain_digits ds" by (rule ab(2))
  show "1 \<le> int (length ds) + (e - decimal_exponent)" "int (length ds) + (e - decimal_exponent) \<le> 10"
    using ab(1,3) pow(1,2) by linarith+
  show "(unat (fp_f M_plus) - unat (fp_f M_minus)) * 10 ^ length ds < 100 * unat (fp_f M_plus)"
  proof -
    have "unat delta * 10 ^ b * 10 ^ (length ds) < 10 ^ Suc a * 2 ^ S * 10 ^ length ds" using ab(6) by simp
    also have "\<dots> = 10 ^ Suc (length ds + a) * 2 ^ S" by (simp add: power_add)
    also have "\<dots> = 10 ^ Suc (k + b) * 2 ^ S" by (simp only: ab(3))
    also have "\<dots> = 10 * 10 ^ k * 2 ^ S * 10 ^ b" by (simp add: power_add)
    also have "\<dots> = 100 * (unat pow10 * 2 ^ S) * 10 ^ b" by (simp flip: pow(3))
    also have "\<dots> \<le> 100 * M * 10 ^ b" using pM by simp
    finally have "unat delta * 10 ^ length ds < 100 * M" by (simp add: mult.commute mult.left_commute)
    then show ?thesis by (simp only: ud M_def)
  qed
  have v: "of_nat (digits_value ds) * 10 powi (e - decimal_exponent) * (2 :: rat) ^ S =
      of_nat (digits_value ds * 10 ^ a * 2 ^ S) / 10 ^ b"
    by (simp add: ab(1) power_int_diff)
  show "of_nat (digits_value ds) * 10 powi (e - decimal_exponent) * (2 :: rat) ^ S \<le> of_nat (unat (fp_f M_plus))"
  proof -
    have "(of_nat (digits_value ds * 10 ^ a * 2 ^ S) :: rat) \<le> of_nat (M * 10 ^ b)" using ab(4) by (simp only: of_nat_le_iff)
    then show ?thesis by (simp add: v M_def divide_le_eq)
  qed
  have "unat (fp_f M_minus) * 10 ^ b \<le> digits_value ds * 10 ^ a * 2 ^ S"
  proof -
    have "M = unat delta + unat (fp_f M_minus)" using assms(6) by (simp add: ud M_def)
    then show ?thesis using ab(5) by (simp add: algebra_simps)
  qed
  then have "(of_nat (unat (fp_f M_minus) * 10 ^ b) :: rat) \<le> of_nat (digits_value ds * 10 ^ a * 2 ^ S)"
    by (simp only: of_nat_le_iff)
  then show "of_nat (unat (fp_f M_minus)) \<le> of_nat (digits_value ds) * 10 powi (e - decimal_exponent) * (2 :: rat) ^ S"
    by (simp add: v le_divide_eq)
qed

end
