(* ===== verification/Grisu_Powers.thy ===== *)
theory Grisu_Powers
  imports Grisu
begin

section \<open>The table of powers of ten\<close>

text \<open>
  Every entry of the table is the power of ten it stands for, rounded to 64 significant bits, and
  the entry that is chosen for a binary exponent scales it into the range the digit generation
  wants. The entries are compared with powers of five that are multiplied up from entry to entry.
\<close>

definition entry_range :: "int \<Rightarrow> int \<Rightarrow> bool" where
  "entry_range e k \<longleftrightarrow> k * 2 ^ 18 < (e + 64) * 78913 \<and> (e + 34) * 78913 < (k - 8) * 2 ^ 18"

fun powers_up :: "int \<Rightarrow> int \<Rightarrow> (64 word \<times> int \<times> int) list \<Rightarrow> bool" where
  "powers_up k p [] \<longleftrightarrow> True"
| "powers_up k p ((c, e, k') # ps) \<longleftrightarrow>
     k' = k \<and> 2 ^ 63 \<le> c \<and> entry_range e k \<and>
     2 * \<bar>uint c * 2 ^ nat (e - k) - p * 2 ^ nat (k - e)\<bar> \<le> 2 ^ nat (e - k) \<and> powers_up (k + 8) (p * 390625) ps"

fun powers_down :: "int \<Rightarrow> int \<Rightarrow> (64 word \<times> int \<times> int) list \<Rightarrow> bool" where
  "powers_down k p [] \<longleftrightarrow> True"
| "powers_down k p ((c, e, k') # ps) \<longleftrightarrow>
     k' = k \<and> 2 ^ 63 \<le> c \<and> entry_range e k \<and> e \<le> k \<and>
     2 * \<bar>uint c * p - 2 ^ nat (k - e)\<bar> \<le> p \<and> powers_down (k - 8) (p * 390625) ps"

lemma powers_up_table: "powers_up 4 625 (drop 38 kCachedPowers)"
  by (simp add: kCachedPowers_def entry_range_def)

lemma powers_down_table: "powers_down (- 4) 625 (rev (take 38 kCachedPowers))"
  by (simp add: kCachedPowers_def entry_range_def)

text \<open>What it means for an entry to be close: within half a unit of its last bit.\<close>

definition power_close :: "64 word \<Rightarrow> int \<Rightarrow> int \<Rightarrow> bool" where
  "power_close c e k \<longleftrightarrow>
     2 ^ 63 \<le> unat c \<and> entry_range e k \<and> \<bar>of_nat (unat c) * 2 powi e - 10 powi k\<bar> \<le> (2 :: rat) powi e / 2"

lemma half_ulp:
  fixes x y u :: rat
  assumes "2 * \<bar>a * x - b * y\<bar> \<le> x" and "0 < u"
  shows "\<bar>a * (x * u) - b * (y * u)\<bar> \<le> x * u / 2"
proof -
  have "\<bar>a * (x * u) - b * (y * u)\<bar> = \<bar>a * x - b * y\<bar> * u"
    using assms(2) by (simp add: abs_mult flip: mult.assoc left_diff_distrib)
  also have "\<dots> \<le> x / 2 * u" using assms by (intro mult_right_mono) auto
  finally show ?thesis by simp
qed

lemma powi_nat_diff: "(2 :: rat) powi i = 2 ^ nat (i - j) / 2 ^ nat (j - i) * 2 powi j"
proof (cases "i \<le> j")
  case True
  then have "(2 :: rat) powi (i + (j - i)) = 2 powi i * 2 ^ nat (j - i)"
    by (subst power_int_add) (auto simp: power_int_def)
  then show ?thesis using True by simp
next
  case False
  then have "(2 :: rat) powi (j + (i - j)) = 2 powi j * 2 ^ nat (i - j)"
    by (subst power_int_add) (auto simp: power_int_def)
  then show ?thesis using False by simp
qed

lemma five_two: "(5 :: rat) ^ m * 2 powi int m = 10 powi int m" "2 powi (- int m) / (5 :: rat) ^ m = 10 powi (- int m)"
  by (simp_all add: power_int_minus divide_inverse flip: power_mult_distrib inverse_mult_distrib)

lemma rat_of_int_abs: "2 * \<bar>a - b\<bar> \<le> c \<Longrightarrow> 2 * \<bar>of_int a - of_int b\<bar> \<le> (of_int c :: rat)"
proof -
  assume "2 * \<bar>a - b\<bar> \<le> c"
  then have "of_int (2 * \<bar>a - b\<bar>) \<le> (of_int c :: rat)" by (simp only: of_int_le_iff)
  then show ?thesis by simp
qed

lemma powers_up_close:
  assumes "powers_up (int k) (5 ^ k) ps" and "i < length ps" and "ps ! i = (c, e, k')"
  shows "k' = int k + 8 * int i \<and> power_close c e k'"
  using assms
proof (induction ps arbitrary: k i)
  case (Cons x ps)
  obtain c0 e0 k0 where x: "x = (c0, e0, k0)" by (cases x)
  have t: "k0 = int k" "2 ^ 63 \<le> c0" "entry_range e0 (int k)" "powers_up (int k + 8) (5 ^ k * 390625) ps"
    and b: "2 * \<bar>uint c0 * 2 ^ nat (e0 - int k) - 5 ^ k * 2 ^ nat (int k - e0)\<bar> \<le> 2 ^ nat (e0 - int k)"
    using Cons.prems(1) by (simp_all add: x)
  show ?case
  proof (cases i)
    case 0
    let ?x = "2 ^ nat (e0 - int k) :: rat" and ?y = "2 ^ nat (int k - e0) :: rat"
    have "2 * \<bar>of_nat (unat c0) * ?x - 5 ^ k * ?y\<bar> \<le> ?x"
      using rat_of_int_abs [OF b] by simp
    then have "\<bar>of_nat (unat c0) * (?x * (2 powi int k / ?y)) - 5 ^ k * (?y * (2 powi int k / ?y))\<bar> \<le> ?x * (2 powi int k / ?y) / 2"
      by (rule half_ulp) simp
    moreover have "?x * (2 powi int k / ?y) = 2 powi e0" by (simp add: powi_nat_diff [of e0 "int k"])
    moreover have "5 ^ k * (?y * (2 powi int k / ?y)) = 10 powi int k" using five_two(1) [of k] by simp
    ultimately have "\<bar>of_nat (unat c0) * 2 powi e0 - 10 powi int k\<bar> \<le> (2 :: rat) powi e0 / 2" by (simp only:)
    moreover have "2 ^ 63 \<le> unat c0" using t(2) by (simp add: word_le_nat_alt)
    ultimately show ?thesis using Cons.prems(3) t(1,3) 0 by (auto simp: x power_close_def)
  next
    case (Suc j)
    have "powers_up (int (k + 8)) (5 ^ (k + 8)) ps" using t(4) by (simp add: power_add)
    then have "k' = int (k + 8) + 8 * int j \<and> power_close c e k'"
      using Cons.prems(2,3) Suc by (intro Cons.IH) auto
    then show ?thesis using Suc by auto
  qed
qed simp

lemma powers_down_close:
  assumes "powers_down (- int m) (5 ^ m) ps" and "i < length ps" and "ps ! i = (c, e, k')"
  shows "k' = - int m - 8 * int i \<and> power_close c e k'"
  using assms
proof (induction ps arbitrary: m i)
  case (Cons x ps)
  obtain c0 e0 k0 where x: "x = (c0, e0, k0)" by (cases x)
  have t: "k0 = - int m" "2 ^ 63 \<le> c0" "entry_range e0 (- int m)" "e0 \<le> - int m"
      "powers_down (- int m - 8) (5 ^ m * 390625) ps"
    and b: "2 * \<bar>uint c0 * 5 ^ m - 2 ^ nat (- int m - e0)\<bar> \<le> 5 ^ m"
    using Cons.prems(1) by (simp_all add: x)
  show ?case
  proof (cases i)
    case 0
    let ?y = "2 ^ nat (- int m - e0) :: rat" and ?u = "2 powi e0 / 5 ^ m :: rat"
    have "2 * \<bar>of_nat (unat c0) * 5 ^ m - 1 * ?y\<bar> \<le> 5 ^ m"
      using rat_of_int_abs [OF b] by simp
    then have "\<bar>of_nat (unat c0) * (5 ^ m * ?u) - 1 * (?y * ?u)\<bar> \<le> 5 ^ m * ?u / 2"
      by (rule half_ulp) simp
    moreover have "5 ^ m * ?u = 2 powi e0" by simp
    moreover have "?y * ?u = 10 powi (- int m)"
      using t(4) by (simp add: powi_nat_diff [of "- int m" e0] flip: five_two(2))
    ultimately have "\<bar>of_nat (unat c0) * 2 powi e0 - 10 powi (- int m)\<bar> \<le> (2 :: rat) powi e0 / 2" by (simp only: mult_1)
    moreover have "2 ^ 63 \<le> unat c0" using t(2) by (simp add: word_le_nat_alt)
    ultimately show ?thesis using Cons.prems(3) t(1,3) 0 by (auto simp: x power_close_def)
  next
    case (Suc j)
    have "powers_down (- int (m + 8)) (5 ^ (m + 8)) ps" using t(5) by (simp add: power_add)
    then have "k' = - int (m + 8) - 8 * int j \<and> power_close c e k'"
      using Cons.prems(2,3) Suc by (intro Cons.IH) auto
    then show ?thesis using Suc by auto
  qed
qed simp

lemma length_kCachedPowers: "length kCachedPowers = 79"
  by (simp add: kCachedPowers_def)

lemma kCachedPowers_close:
  assumes "i < 79" and "kCachedPowers ! i = (c, e, k)"
  shows "k = 8 * int i - 300 \<and> power_close c e k"
proof (cases "i < 38")
  case True
  have "k = - int 4 - 8 * int (37 - i) \<and> power_close c e k"
  proof (rule powers_down_close)
    show "powers_down (- int 4) (5 ^ 4) (rev (take 38 kCachedPowers))" using powers_down_table by simp
    show "rev (take 38 kCachedPowers) ! (37 - i) = (c, e, k)"
      using True assms(2) by (simp add: rev_nth length_kCachedPowers)
  qed (simp add: length_kCachedPowers)
  then show ?thesis using True by auto
next
  case False
  have "k = int 4 + 8 * int (i - 38) \<and> power_close c e k"
  proof (rule powers_up_close)
    show "powers_up (int 4) (5 ^ 4) (drop 38 kCachedPowers)" using powers_up_table by simp
  qed (use False assms in \<open>simp_all add: length_kCachedPowers\<close>)
  then show ?thesis using False by auto
qed

lemma sdiv_pos: "0 \<le> a \<Longrightarrow> 0 < b \<Longrightarrow> a sdiv b = a div (b :: int)"
  by (cases "a = 0") (simp_all add: signed_divide_int_def)

lemma sdiv_neg: "a \<le> 0 \<Longrightarrow> 0 < b \<Longrightarrow> a sdiv b = - (- a div (b :: int))"
  by (cases "a = 0") (simp_all add: signed_divide_int_def)

text \<open>The exponents a normalized double can have select an entry of the table, and a suitable one.\<close>

lemma get_cached_power_correct:
  assumes "- 1137 \<le> e" and "e \<le> 960" and "get_cached_power_for_binary_exponent e = c"
  shows "power_close (cp_f c) (cp_e c) (cp_k c)" and "- 60 \<le> cp_e c + e + 64" and "cp_e c + e + 64 \<le> - 32"
    and "- 300 \<le> cp_k c" and "cp_k c \<le> 324"
proof -
  define f where "f = kAlpha - e - 1"
  define k where "k = (f * 78913) sdiv 2 ^ 18 + (if f > 0 then 1 else 0)"
  have k: "(k - 1) * 2 ^ 18 \<le> f * 78913 \<and> f * 78913 \<le> k * 2 ^ 18"
  proof (cases "0 < f")
    case True
    then have "k = f * 78913 div 2 ^ 18 + 1" by (simp add: k_def sdiv_pos)
    then show ?thesis by auto
  next
    case False
    then have "k = - (- (f * 78913) div 2 ^ 18)" by (simp add: k_def sdiv_neg)
    then show ?thesis by auto
  qed
  have "- 307 \<le> k" "k \<le> 324" using k assms(1,2) by (simp_all add: f_def)
  define index where "index = (- kCachedPowersMinDecExp + k + (kCachedPowersDecStep - 1)) sdiv kCachedPowersDecStep"
  have i: "8 * index \<le> k + 307" "k + 307 < 8 * index + 8" "0 \<le> index" "index < 79"
    using \<open>- 307 \<le> k\<close> \<open>k \<le> 324\<close> by (auto simp: index_def sdiv_pos)
  obtain cf ce ck where t: "kCachedPowers ! nat index = (cf, ce, ck)" by (cases "kCachedPowers ! nat index")
  then have c: "c = \<lparr>cp_f = cf, cp_e = ce, cp_k = ck\<rparr>"
    using assms(3) by (simp add: get_cached_power_for_binary_exponent_def Let_def f_def k_def index_def)
  have "ck = 8 * int (nat index) - 300 \<and> power_close cf ce ck"
    using i by (intro kCachedPowers_close t) simp
  then have ck: "ck = 8 * index - 300" and close: "power_close cf ce ck" using i(3) by auto
  then have "entry_range ce ck" unfolding power_close_def by blast
  then show "- 60 \<le> cp_e c + e + 64" "cp_e c + e + 64 \<le> - 32"
    using ck i k by (simp_all add: c entry_range_def f_def)
  show "power_close (cp_f c) (cp_e c) (cp_k c)" using close by (simp add: c)
  show "- 300 \<le> cp_k c" "cp_k c \<le> 324" using ck i by (simp_all add: c)
qed

end
