(* ===== verification/Grisu_Bounds.thy ===== *)
theory Grisu_Bounds
  imports Grisu_Digits Grisu_Powers
begin

unbundle bit_operations_syntax

section \<open>The decimal number of a double\<close>

text \<open>
  The boundaries of a double are exact, scaling them by a power of ten moves them by less than one
  unit, and the digits come from between the scaled boundaries, taken one unit closer: so the decimal
  number lies strictly between the midpoints around the double, and is rounded back to it.
\<close>

subsection \<open>Normalizing\<close>

lemma normalize_correct:
  assumes "0 < unat f"
  shows "\<exists>s. normalize \<lparr>fp_f = f, fp_e = e\<rparr> = \<lparr>fp_f = of_nat (unat f * 2 ^ s), fp_e = e - int s\<rparr> \<and>
    2 ^ 63 \<le> unat f * 2 ^ s \<and> unat f * 2 ^ s < 2 ^ 64"
  using assms
proof (induction "2 ^ 64 - unat f" arbitrary: f e rule: less_induct)
  case less
  have f64: "unat f < 2 ^ 64" using unsigned_less [of f] by simp
  show ?case
  proof (cases "drop_bit 63 f = 0")
    case True
    then have "unat f div 2 ^ 63 = 0" by (simp only: unat_0 flip: unat_drop)
    then have f63: "unat f < 2 ^ 63" by (simp add: div_eq_0_iff)
    then have p: "unat (push_bit 1 f) = unat f * 2" by (subst unat_push) simp_all
    have "\<exists>s. normalize \<lparr>fp_f = push_bit 1 f, fp_e = e - 1\<rparr> =
        \<lparr>fp_f = of_nat (unat (push_bit 1 f) * 2 ^ s), fp_e = e - 1 - int s\<rparr> \<and>
        2 ^ 63 \<le> unat (push_bit 1 f) * 2 ^ s \<and> unat (push_bit 1 f) * 2 ^ s < 2 ^ 64"
      using less.prems f63 by (intro less.hyps) (simp_all only: p, simp_all)
    then obtain s where s: "normalize \<lparr>fp_f = push_bit 1 f, fp_e = e - 1\<rparr> = \<lparr>fp_f = of_nat (unat f * 2 * 2 ^ s), fp_e = e - 1 - int s\<rparr>"
        "2 ^ 63 \<le> unat f * 2 * 2 ^ s" "unat f * 2 * 2 ^ s < 2 ^ 64"
      unfolding p by blast
    have "normalize \<lparr>fp_f = f, fp_e = e\<rparr> = normalize \<lparr>fp_f = push_bit 1 f, fp_e = e - 1\<rparr>"
      using True less.prems by (subst normalize.simps) (simp add: unat_gt_0)
    then show ?thesis using s by (intro exI [of _ "Suc s"]) (simp add: mult.assoc)
  next
    case False
    then have "normalize \<lparr>fp_f = f, fp_e = e\<rparr> = \<lparr>fp_f = f, fp_e = e\<rparr>" by (subst normalize.simps) simp
    moreover have "2 ^ 63 \<le> unat f"
    proof (rule ccontr)
      assume "\<not> 2 ^ 63 \<le> unat f"
      then have "unat (drop_bit 63 f) = 0" by (simp only: unat_drop) simp
      then show False using False by (simp only: unat_eq_zero)
    qed
    ultimately show ?thesis using f64 by (intro exI [of _ 0]) simp
  qed
qed

lemma scale_unique:
  fixes f :: nat
  assumes "2 ^ 63 \<le> f * 2 ^ s" and "f * 2 ^ s < 2 ^ 64" and "2 ^ 63 \<le> f * 2 ^ t" and "f * 2 ^ t < 2 ^ 64"
  shows "s = t"
proof -
  have "\<not> i < j" if "2 ^ 63 \<le> f * 2 ^ i" "f * 2 ^ j < 2 ^ 64" for i j
  proof
    assume "i < j"
    then have "f * 2 ^ i * 2 \<le> f * 2 ^ j"
      by (metis Suc_leI mult.assoc mult_le_mono2 one_le_numeral power_Suc2 power_increasing)
    moreover have "(2 :: nat) ^ 64 = 2 ^ 63 * 2" by simp
    ultimately show False using that by linarith
  qed
  then show ?thesis using assms by (metis nat_neq_iff)
qed

text \<open>\<open>2 f + 1\<close> is normalized with one shift less than \<open>f\<close>.\<close>

lemma scale_plus:
  fixes f :: nat
  assumes "0 < f" and "2 ^ 63 \<le> (2 * f + 1) * 2 ^ s" and "(2 * f + 1) * 2 ^ s < 2 ^ 64"
  shows "2 ^ 63 \<le> f * 2 ^ Suc s" and "f * 2 ^ Suc s < 2 ^ 64"
proof -
  show "f * 2 ^ Suc s < 2 ^ 64" using assms(3) by (simp add: algebra_simps)
  show "2 ^ 63 \<le> f * 2 ^ Suc s"
  proof (rule ccontr)
    assume n: "\<not> 2 ^ 63 \<le> f * 2 ^ Suc s"
    have "s < 63"
    proof (rule ccontr)
      assume "\<not> s < 63"
      then have "(2 :: nat) ^ 63 \<le> 2 ^ s" by (intro power_increasing) auto
      then have "3 * 2 ^ 63 \<le> (2 * f + 1) * 2 ^ s" using assms(1) by (intro mult_le_mono) auto
      then show False using assms(3) by simp
    qed
    then obtain k where k: "s + Suc k = 63" by (metis less_imp_Suc_add add_Suc_right)
    then have "(2 :: nat) ^ 63 = 2 ^ Suc k * 2 ^ s" by (metis add.commute power_add)
    then have "2 * f * 2 ^ s < 2 ^ Suc k * 2 ^ s" "2 ^ Suc k * 2 ^ s \<le> (2 * f + 1) * 2 ^ s"
      using n assms(2) by (simp_all only: power_Suc ac_simps not_le)
    then have "2 * f < 2 ^ Suc k" "2 ^ Suc k \<le> 2 * f + 1"
      by (simp_all only: mult_less_cancel2 mult_le_cancel2 zero_less_power zero_less_numeral simp_thms)
    then have "2 ^ Suc k = 2 * f + 1" by simp
    then show False by (metis even_plus_one_iff even_mult_iff even_numeral power_Suc)
  qed
qed

subsection \<open>The boundaries of a double\<close>

lemma double_bits_eq:
  assumes "q = of_nat f * 2 powi double_exp q"
  shows "double_bits q = of_nat (if f < 2 ^ 52 then f else nat (double_exp q + 1074) * 2 ^ 52 + f)"
proof -
  have e: "max (binary_exponent q) (- 1022) = double_exp q + 52" by (simp add: double_exp_def)
  have "q * 2 powi (- double_exp q) = of_nat f" by (subst assms) (simp add: power_int_minus)
  then show ?thesis by (simp add: double_bits_def Let_def e add.commute)
qed

lemma unat_of_nat64: "n < 2 ^ 64 \<Longrightarrow> unat (of_nat n :: 64 word) = n"
  by (simp add: unat_of_nat)

lemma unat_hidden: "unat kHiddenBit = 2 ^ 52" and unat_hidden_mask: "unat (x AND (kHiddenBit - 1)) = unat x mod 2 ^ 52"
  by (simp, unfold kHiddenBit_def, rule unat_mask_shift)

lemma double_fields:
  assumes "f < 2 ^ 53" and "e = - 1074 \<or> 2 ^ 52 \<le> f" and "- 1074 \<le> e" and "e \<le> 971"
    and "bits = of_nat (if f < 2 ^ 52 then f else nat (e + 1074) * 2 ^ 52 + f)"
  shows "unat (drop_bit 52 bits) = (if f < 2 ^ 52 then 0 else nat (e + 1075))" and "unat (bits AND (kHiddenBit - 1)) = f mod 2 ^ 52"
proof -
  define n where "n = (if f < 2 ^ 52 then f else nat (e + 1074) * 2 ^ 52 + f)"
  have "nat (e + 1074) * 2 ^ 52 \<le> 2045 * 2 ^ 52" using assms(4) by (intro mult_le_mono1) auto
  then have "n < 2 ^ 64" using assms(1) by (simp add: n_def)
  then have bits: "unat bits = n" unfolding assms(5) n_def [symmetric] by (rule unat_of_nat64)
  have n: "n div 2 ^ 52 = (if f < 2 ^ 52 then 0 else nat (e + 1075))" "n mod 2 ^ 52 = f mod 2 ^ 52"
  proof -
    have "f div 2 ^ 52 = 1" if "2 ^ 52 \<le> f" using that assms(1) by (intro div_nat_eqI) simp_all
    then show "n div 2 ^ 52 = (if f < 2 ^ 52 then 0 else nat (e + 1075))" using assms(3) by (auto simp: n_def not_less)
  qed (simp add: n_def)
  show "unat (drop_bit 52 bits) = (if f < 2 ^ 52 then 0 else nat (e + 1075))" by (simp only: unat_drop bits n)
  show "unat (bits AND (kHiddenBit - 1)) = f mod 2 ^ 52" by (simp only: unat_hidden_mask bits n)
qed

text \<open>The significand of the lower boundary, and the exponent all three share.\<close>

definition lower_significand :: "nat \<Rightarrow> int \<Rightarrow> nat \<Rightarrow> nat" where
  "lower_significand f e s = (if f = 2 ^ 52 \<and> - 1074 < e then (4 * f - 1) * 2 ^ (s - 1) else (2 * f - 1) * 2 ^ s)"

lemma compute_boundaries_correct:
  assumes "q = of_nat f * 2 powi double_exp q" and "0 < f" and "f < 2 ^ 53"
    and "double_exp q = - 1074 \<or> 2 ^ 52 \<le> f" and "- 1074 \<le> double_exp q" and "double_exp q \<le> 971"
  obtains s where "compute_boundaries q =
      \<lparr>bd_w = \<lparr>fp_f = of_nat (f * 2 ^ Suc s), fp_e = double_exp q - 1 - int s\<rparr>,
       bd_minus = \<lparr>fp_f = of_nat (lower_significand f (double_exp q) s), fp_e = double_exp q - 1 - int s\<rparr>,
       bd_plus = \<lparr>fp_f = of_nat ((2 * f + 1) * 2 ^ s), fp_e = double_exp q - 1 - int s\<rparr>\<rparr>"
    and "2 ^ 63 \<le> (2 * f + 1) * 2 ^ s" and "(2 * f + 1) * 2 ^ s < 2 ^ 64" and "10 \<le> s" and "s \<le> 62"
    and "- 1137 \<le> double_exp q - 1 - int s" and "double_exp q - 1 - int s \<le> 960"
proof -
  let ?e = "double_exp q"
  define bits where "bits = double_bits q"
  note fields = double_fields [OF assms(3-6) bits_def [unfolded double_bits_eq [OF assms(1)]]]
  define E F where "E = drop_bit 52 bits" and "F = bits AND (kHiddenBit - 1)"
  have uE: "unat E = (if f < 2 ^ 52 then 0 else nat (?e + 1075))" and uF: "unat F = f mod 2 ^ 52"
    using fields by (simp_all only: E_def F_def)
  have e: "f < 2 ^ 52 \<Longrightarrow> ?e = - 1074" using assms(4) by auto
  have E0: "E = 0 \<longleftrightarrow> f < 2 ^ 52"
    using uE assms(5) by (simp add: unat_eq_zero [symmetric] split: if_splits)
  have F: "F = of_nat (f mod 2 ^ 52)" unfolding uF [symmetric] by simp
  have v: "(if E = 0 then \<lparr>fp_f = F, fp_e = kMinExp\<rparr> else \<lparr>fp_f = F + kHiddenBit, fp_e = uint E - kBias\<rparr>) =
      \<lparr>fp_f = of_nat f, fp_e = ?e\<rparr>"
  proof (cases "f < 2 ^ 52")
    case True
    then show ?thesis using e E0 F by simp
  next
    case False
    have "uint E = ?e + 1075" using uE False assms(5) by (simp add: uint_nat)
    moreover have "f = f mod 2 ^ 52 + 2 ^ 52"
      using False assms(3) by (simp add: le_mod_geq)
    then have "F + kHiddenBit = of_nat f" unfolding F by (metis of_nat_add of_nat_numeral of_nat_power kHiddenBit_def push_bit_eq_mult mult_1)
    ultimately show ?thesis using False E0 by simp
  qed
  have closer: "F = 0 \<and> E > 1 \<longleftrightarrow> f = 2 ^ 52 \<and> - 1074 < ?e"
  proof -
    have "F = 0 \<longleftrightarrow> f mod 2 ^ 52 = 0" using uF by (simp only: unat_eq_zero [symmetric])
    also have "\<dots> \<longleftrightarrow> f = 2 ^ 52"
    proof
      assume "f mod 2 ^ 52 = 0"
      then obtain k where "f = 2 ^ 52 * k" by (auto simp: mod_eq_0_iff_dvd)
      then show "f = 2 ^ 52" using assms(2,3) by simp
    qed simp
    finally show ?thesis using uE assms(5) by (auto simp: word_less_nat_alt)
  qed
  have "2 * f + 1 < 2 ^ 64" "f < 2 ^ 64" using assms(3) by simp_all
  then have u: "unat (of_nat (2 * f + 1) :: 64 word) = 2 * f + 1" "unat (of_nat f :: 64 word) = f"
    by (simp_all only: unat_of_nat64)
  obtain s where s: "normalize \<lparr>fp_f = of_nat (2 * f + 1), fp_e = ?e - 1\<rparr> = \<lparr>fp_f = of_nat ((2 * f + 1) * 2 ^ s), fp_e = ?e - 1 - int s\<rparr>"
      "2 ^ 63 \<le> (2 * f + 1) * 2 ^ s" "(2 * f + 1) * 2 ^ s < 2 ^ 64"
    using normalize_correct [of "of_nat (2 * f + 1)" "?e - 1"] unfolding u by auto
  obtain t where t: "normalize \<lparr>fp_f = of_nat f, fp_e = ?e\<rparr> = \<lparr>fp_f = of_nat (f * 2 ^ t), fp_e = ?e - int t\<rparr>"
      "2 ^ 63 \<le> f * 2 ^ t" "f * 2 ^ t < 2 ^ 64"
    using normalize_correct [of "of_nat f" ?e] assms(2) unfolding u by auto
  have ts: "t = Suc s" by (rule scale_unique [OF t(2,3) scale_plus [OF assms(2) s(2,3)]])
  have "10 \<le> s"
  proof (rule ccontr)
    assume "\<not> 10 \<le> s"
    then have "(2 :: nat) ^ s \<le> 2 ^ 9" by (intro power_increasing) auto
    then have "(2 * f + 1) * 2 ^ s \<le> (2 * f + 1) * 2 ^ 9" by (rule mult_le_mono2)
    then show False using s(2) assms(3) by simp
  qed
  moreover have "s \<le> 62"
  proof (rule ccontr)
    assume "\<not> s \<le> 62"
    then have "(2 :: nat) ^ 63 \<le> 2 ^ s" by (intro power_increasing) auto
    then have "3 * 2 ^ 63 \<le> (2 * f + 1) * 2 ^ s" using assms(2) by (intro mult_le_mono) auto
    then show False using s(3) by simp
  qed
  moreover have "compute_boundaries q =
      \<lparr>bd_w = \<lparr>fp_f = of_nat (f * 2 ^ Suc s), fp_e = ?e - 1 - int s\<rparr>,
       bd_minus = \<lparr>fp_f = of_nat (lower_significand f ?e s), fp_e = ?e - 1 - int s\<rparr>,
       bd_plus = \<lparr>fp_f = of_nat ((2 * f + 1) * 2 ^ s), fp_e = ?e - 1 - int s\<rparr>\<rparr>"
  proof -
    have p: "push_bit n (of_nat m :: 64 word) = of_nat (m * 2 ^ n)" for m n by (simp add: push_bit_eq_mult)
    have m: "2 * of_nat f + 1 = (of_nat (2 * f + 1) :: 64 word)" "2 * of_nat f - 1 = (of_nat (2 * f - 1) :: 64 word)"
        "4 * of_nat f - 1 = (of_nat (4 * f - 1) :: 64 word)"
      using assms(2) by (simp_all add: of_nat_diff)
    have minus: "normalize_to (if F = 0 \<and> E > 1 then \<lparr>fp_f = of_nat (4 * f - 1), fp_e = ?e - 2\<rparr>
        else \<lparr>fp_f = of_nat (2 * f - 1), fp_e = ?e - 1\<rparr>) (?e - 1 - int s) =
      \<lparr>fp_f = of_nat (lower_significand f ?e s), fp_e = ?e - 1 - int s\<rparr>"
    proof -
      have n: "nat (?e - 2 - (?e - 1 - int s)) = s - 1" "nat (?e - 1 - (?e - 1 - int s)) = s" by simp_all
      show ?thesis
        by (cases "f = 2 ^ 52 \<and> - 1074 < ?e")
          (simp_all only: closer normalize_to_def lower_significand_def if_True if_False simp_thms diyfp.select_convs n p)
    qed
    show ?thesis
      by (simp only: compute_boundaries_def Let_def bits_def [symmetric] E_def [symmetric] F_def [symmetric] v
          diyfp.select_convs m s(1) t(1) minus ts of_nat_Suc) simp
  qed
  ultimately show ?thesis using that [of s] s(2,3) assms(5,6) by simp
qed

subsection \<open>Scaling\<close>

definition scaled :: "64 word \<Rightarrow> nat \<Rightarrow> nat" where
  "scaled c X = (X * unat c + 2 ^ 63) div 2 ^ 64"

lemma scaled_mul:
  "X < 2 ^ 64 \<Longrightarrow> unat (fp_f (diyfp_mul \<lparr>fp_f = of_nat X, fp_e = E\<rparr> \<lparr>fp_f = c, fp_e = e\<rparr>)) = scaled c X"
  by (simp only: diyfp_mul_rounds diyfp.select_convs unat_of_nat64 scaled_def)

lemma scaled_bounds: "scaled c X * 2 ^ 64 \<le> X * unat c + 2 ^ 63" "X * unat c + 2 ^ 63 < (scaled c X + 1) * 2 ^ 64"
proof -
  have d: "X * unat c + 2 ^ 63 = scaled c X * 2 ^ 64 + (X * unat c + 2 ^ 63) mod 2 ^ 64"
    unfolding scaled_def by (rule div_mult_mod_eq [symmetric])
  have "(X * unat c + 2 ^ 63) mod 2 ^ 64 < 2 ^ 64" by simp
  moreover have "(scaled c X + 1) * 2 ^ 64 = scaled c X * 2 ^ 64 + 2 ^ 64" by (simp add: algebra_simps)
  ultimately show "scaled c X * 2 ^ 64 \<le> X * unat c + 2 ^ 63" "X * unat c + 2 ^ 63 < (scaled c X + 1) * 2 ^ 64"
    using d by linarith+
qed

text \<open>Rounding and the error of the power of ten together stay below one unit.\<close>

lemma scaled_close:
  assumes "X < 2 ^ 64" and "\<bar>of_nat (unat c) - T\<bar> \<le> (1 / 2 :: rat)"
  shows "of_nat (scaled c X) - 1 < of_nat X * T / 2 ^ 64" and "of_nat X * T / 2 ^ 64 < of_nat (scaled c X) + 1"
proof -
  let ?C = "of_nat (unat c) :: rat" and ?X = "of_nat X :: rat" and ?W = "of_nat (scaled c X) :: rat"
  have "of_nat (scaled c X * 2 ^ 64) \<le> (of_nat (X * unat c + 2 ^ 63) :: rat)"
    using scaled_bounds(1) by (simp only: of_nat_le_iff)
  then have w1: "?W * 2 ^ 64 \<le> ?X * ?C + 2 ^ 63" by simp
  have "of_nat (X * unat c + 2 ^ 63) < (of_nat ((scaled c X + 1) * 2 ^ 64) :: rat)"
    using scaled_bounds(2) by (simp only: of_nat_less_iff)
  then have w2: "?X * ?C + 2 ^ 63 < (?W + 1) * 2 ^ 64" by (simp add: add.commute)
  have "of_nat (X + 1) \<le> (of_nat (2 ^ 64) :: rat)" using assms(1) by (simp only: of_nat_le_iff)
  then have X: "0 \<le> ?X" "?X \<le> 2 ^ 64 - 1" by simp_all
  have "\<bar>?X * ?C - ?X * T\<bar> = ?X * \<bar>?C - T\<bar>" using X(1) by (simp add: abs_mult flip: right_diff_distrib)
  also have "\<dots> \<le> ?X * (1 / 2)" using assms(2) X(1) by (rule mult_left_mono)
  finally have "\<bar>?X * ?C - ?X * T\<bar> \<le> ?X * (1 / 2)" .
  then have "\<bar>?X * ?C - ?X * T\<bar> < 2 ^ 63" using X(2) by simp
  then have "(?W - 1) * 2 ^ 64 < ?X * T" "?X * T < (?W + 1) * 2 ^ 64"
    using w1 w2 by (simp_all add: algebra_simps abs_less_iff)
  then show "?W - 1 < ?X * T / 2 ^ 64" "?X * T / 2 ^ 64 < ?W + 1"
    by (simp_all only: pos_less_divide_eq pos_divide_less_eq zero_less_power zero_less_numeral)
qed

lemma scaled_gap:
  assumes "2 ^ 63 \<le> unat c" and "X + 512 \<le> Y"
  shows "scaled c X + 2 \<le> scaled c Y"
proof -
  have "X * unat c + 512 * 2 ^ 63 \<le> X * unat c + 512 * unat c" using assms(1) by simp
  also have "\<dots> \<le> Y * unat c" using mult_le_mono1 [OF assms(2), of "unat c"] by (simp add: algebra_simps)
  finally show ?thesis using scaled_bounds(1) [of c X] scaled_bounds(2) [of Y c] by simp
qed

text \<open>The scaled interval is not too small for 16 digits behind the first.\<close>

lemma scaled_width:
  assumes "2 ^ 63 \<le> unat c" and "X + 1024 \<le> Z" and "Z \<le> 2 ^ 53 * (Z - X)"
  shows "scaled c Z - 1 \<le> (scaled c Z - 1 - (scaled c X + 1)) * 10 ^ 16"
proof -
  define A where "A = (Z - X) * unat c"
  have "1024 * 2 ^ 63 \<le> A" unfolding A_def using assms(1,2) by (intro mult_le_mono) auto
  moreover have "Z * unat c = A + X * unat c" using assms(2) by (simp add: A_def flip: add_mult_distrib)
  moreover have "Z * unat c \<le> 2 ^ 53 * A" using mult_le_mono1 [OF assms(3), of "unat c"] by (simp add: A_def mult.assoc)
  ultimately show ?thesis
    using scaled_bounds(1) [of c Z] scaled_bounds(2) [of Z c] scaled_bounds(1) [of c X] by simp
qed

lemma scaled_range:
  assumes "2 ^ 63 \<le> unat c" and "X < 2 ^ 64"
  shows "scaled c X < 2 ^ 64 - 1" and "2 ^ 63 \<le> X \<Longrightarrow> 2 ^ 62 \<le> scaled c X"
proof -
  have "unat c < 2 ^ 64" using unsigned_less [of c] by simp
  then have "X * unat c \<le> (2 ^ 64 - 1) * (2 ^ 64 - 1)" using assms(2) by (intro mult_le_mono) auto
  then show "scaled c X < 2 ^ 64 - 1" using scaled_bounds(1) [of c X] by simp
  assume "2 ^ 63 \<le> X"
  then have "2 ^ 63 * 2 ^ 63 \<le> X * unat c" using assms(1) by (intro mult_le_mono) auto
  then show "2 ^ 62 \<le> scaled c X" using scaled_bounds(2) [of X c] by simp
qed

lemma grisu2_scaled_correct:
  assumes "grisu2_scaled \<lparr>fp_f = of_nat X, fp_e = E\<rparr> \<lparr>fp_f = of_nat Y, fp_e = E\<rparr> \<lparr>fp_f = of_nat Z, fp_e = E\<rparr> = (ds, de)"
    and "- 1137 \<le> E" and "E \<le> 960" and "X + 512 \<le> Y" and "Y + 512 \<le> Z" and "2 ^ 63 \<le> Z" and "Z < 2 ^ 64"
    and "Z \<le> 2 ^ 53 * (Z - X)"
  shows "plain_digits ds" and "of_nat X * 2 powi E < (of_nat (digits_value ds) * 10 powi de :: rat)"
    and "of_nat (digits_value ds) * 10 powi de < (of_nat Z * 2 powi E :: rat)"
    and "- 330 \<le> int (length ds) + de" and "int (length ds) + de \<le> 330" and "length ds \<le> 17"
proof -
  obtain C where C: "get_cached_power_for_binary_exponent E = C" by simp
  define c e k where "c = cp_f C" and "e = cp_e C" and "k = cp_k C"
  note cached = get_cached_power_correct [OF assms(2,3) C, folded c_def e_def k_def]
  have c: "2 ^ 63 \<le> unat c" and near: "\<bar>of_nat (unat c) * 2 powi e - 10 powi k\<bar> \<le> (2 :: rat) powi e / 2"
    using cached(1) by (simp_all add: power_close_def)
  define T where "T = (10 :: rat) powi k / 2 powi e"
  have T: "\<bar>of_nat (unat c) - T\<bar> \<le> 1 / 2"
  proof -
    have "of_nat (unat c) * 2 powi e - 10 powi k = (of_nat (unat c) - T) * 2 powi e"
      by (simp add: T_def left_diff_distrib)
    then have "\<bar>of_nat (unat c) - T\<bar> * 2 powi e = \<bar>of_nat (unat c) * 2 powi e - 10 powi k\<bar>"
      by (simp add: abs_mult)
    also have "\<dots> \<le> 1 / 2 * 2 powi e" using near by simp
    finally show ?thesis by (rule mult_right_le_imp_le) simp
  qed
  define S where "S = nat (- (E + e + 64))"
  have S: "E + e + 64 = - int S" "32 \<le> S" "S \<le> 60" using cached(2,3) by (simp_all add: S_def)
  let ?w = "\<lambda>X. diyfp_mul \<lparr>fp_f = of_nat X, fp_e = E\<rparr> \<lparr>fp_f = c, fp_e = e\<rparr>"
  define Mm Mp where "Mm = (?w X)\<lparr>fp_f := fp_f (?w X) + 1\<rparr>" and "Mp = (?w Z)\<lparr>fp_f := fp_f (?w Z) - 1\<rparr>"
  have gen: "grisu2_digit_gen (- k) Mm (?w Y) Mp = (ds, de)"
    using assms(1) by (simp add: grisu2_scaled_def C Let_def Mm_def Mp_def c_def e_def k_def)
  have X: "X < 2 ^ 64" using assms(4,5,7) by simp
  note r = scaled_range(1) [OF c X] scaled_range [OF c assms(7)]
  have uX: "unat (fp_f Mm) = scaled c X + 1"
    using r(1) by (simp add: Mm_def unat_add scaled_mul [OF X])
  have "unat (fp_f (?w Z)) = scaled c Z" by (rule scaled_mul [OF assms(7)])
  moreover from this have "fp_f (?w Z) \<noteq> 0" using r(3) assms(6) by (auto simp: unat_eq_zero [symmetric])
  ultimately have uZ: "unat (fp_f Mp) = scaled c Z - 1" by (simp add: Mp_def unat_minus_one)
  have gap: "scaled c X + 2 \<le> scaled c Z" using c assms(4,5) by (intro scaled_gap) auto
  have "(2 :: nat) ^ S \<le> 2 ^ 60" using S(3) by (intro power_increasing) auto
  then have big: "2 ^ S \<le> unat (fp_f Mp)" using r(3) assms(6) by (simp add: uZ)
  have p: "0 < scaled c X + 1" "scaled c X + 1 \<le> scaled c Z - 1" using gap by auto
  have "fp_e Mp = - int S" using S(1) by (simp add: Mp_def diyfp_mul_def Let_def)
  note d = grisu2_digit_gen_correct [OF gen this S(2,3), unfolded uX uZ, OF p big [unfolded uZ]]
  show "plain_digits ds" by (rule d(1))
  show "- 330 \<le> int (length ds) + de" "int (length ds) + de \<le> 330"
    using d(2,3) cached(4,5) by auto
  show "length ds \<le> 17"
  proof (rule ccontr)
    let ?d = "scaled c Z - 1 - (scaled c X + 1)"
    assume "\<not> length ds \<le> 17"
    then have "(10 :: nat) ^ 18 \<le> 10 ^ length ds" by (intro power_increasing) auto
    then have "?d * 10 ^ 18 \<le> ?d * 10 ^ length ds" by (rule mult_le_mono2)
    also have "\<dots> < 100 * (scaled c Z - 1)" by (rule d(6))
    also have "\<dots> \<le> 100 * (?d * 10 ^ 16)" using c assms(4,5,8) by (intro mult_le_mono2 scaled_width) auto
    finally show False by simp
  qed
  define D where "D = (of_nat (digits_value ds) * 10 powi de :: rat)"
  define N where "N = 2 powi e * 2 ^ 64 * (2 :: rat) ^ S"
  have N: "2 powi E * N = 1"
  proof -
    have "2 powi E * N = 2 powi (E + e + 64) * 2 powi int S" by (simp add: N_def power_int_add)
    also have "\<dots> = 2 powi (E + e + 64 + int S)" by (simp add: power_int_add)
    finally show ?thesis using S(1) by simp
  qed
  have V: "of_nat (digits_value ds) * 10 powi (de - - k) * 2 ^ S = D * N * (T / 2 ^ 64)"
    by (simp add: D_def N_def T_def power_int_add)
  have pos: "0 < T / 2 ^ 64" by (simp add: T_def)
  have u: "(0 :: rat) < 2 powi E" by simp
  have scale: "of_nat n * 2 powi E < D" if "of_nat n * (T / 2 ^ 64) < D * N * (T / 2 ^ 64)" for n
  proof -
    have "of_nat n * 2 powi E < D * N * 2 powi E" using that pos u by (simp add: mult_less_cancel_right not_le)
    then show ?thesis using N by (simp add: mult.assoc mult.commute [of N])
  qed
  have scale': "D < of_nat n * 2 powi E" if "D * N * (T / 2 ^ 64) < of_nat n * (T / 2 ^ 64)" for n
  proof -
    have "D * N * 2 powi E < of_nat n * 2 powi E" using that pos u by (simp add: mult_less_cancel_right not_le)
    then show ?thesis using N by (simp add: mult.assoc mult.commute [of N])
  qed
  have "of_nat (scaled c X + 1) \<le> D * N * (T / 2 ^ 64)" using d(4) unfolding V .
  then have "of_nat X * (T / 2 ^ 64) < D * N * (T / 2 ^ 64)" using scaled_close(2) [OF X T] by simp
  then show "of_nat X * 2 powi E < (of_nat (digits_value ds) * 10 powi de :: rat)" unfolding D_def [symmetric] by (rule scale)
  have "D * N * (T / 2 ^ 64) \<le> of_nat (scaled c Z - 1)" using d(5) unfolding V .
  then have "D * N * (T / 2 ^ 64) < of_nat Z * (T / 2 ^ 64)" using scaled_close(1) [OF assms(7) T] gap by (simp add: of_nat_diff)
  then show "of_nat (digits_value ds) * 10 powi de < (of_nat Z * 2 powi E :: rat)" unfolding D_def [symmetric] by (rule scale')
qed

lemma closer_lower:
  assumes "f = 2 ^ 52 \<and> - 1074 < e"
  shows "lower_significand f e s = (4 * f - 1) * 2 ^ (s - 1)" and "lower_gap f e = 2 powi e / 4"
  unfolding lower_significand_def lower_gap_def by (rule if_P [OF assms])+

lemma plain_lower:
  assumes "\<not> (f = 2 ^ 52 \<and> - 1074 < e)"
  shows "lower_significand f e s = (2 * f - 1) * 2 ^ s" and "lower_gap f e = 2 powi e / 2"
  unfolding lower_significand_def lower_gap_def by (rule if_not_P [OF assms])+

lemma powi_shift: "of_nat (n * 2 ^ s) * 2 powi (e - int s) = (of_nat n * 2 powi e :: rat)"
  by (simp add: power_int_diff)

text \<open>The digits are those of a number that is rounded to the double, and their decimal point is not far away.\<close>

lemma grisu2_correct:
  assumes "is_double q" and "0 < q" and "grisu2 q = (ds, de)"
  shows "plain_digits ds" and "to_double (of_nat (digits_value ds) * 10 powi de) = Some q"
    and "- 330 \<le> int (length ds) + de" and "int (length ds) + de \<le> 330" and "length ds \<le> 17"
proof -
  let ?e = "double_exp q"
  obtain f where f: "q = of_nat f * 2 powi ?e" "0 < f" "f < 2 ^ 53" "?e = - 1074 \<or> 2 ^ 52 \<le> f" "- 1074 \<le> ?e" "?e \<le> 971" "q < 2 ^ 1024"
    using double_form [OF assms(1,2)] by blast
  obtain s where s: "compute_boundaries q =
      \<lparr>bd_w = \<lparr>fp_f = of_nat (f * 2 ^ Suc s), fp_e = ?e - 1 - int s\<rparr>,
       bd_minus = \<lparr>fp_f = of_nat (lower_significand f ?e s), fp_e = ?e - 1 - int s\<rparr>,
       bd_plus = \<lparr>fp_f = of_nat ((2 * f + 1) * 2 ^ s), fp_e = ?e - 1 - int s\<rparr>\<rparr>"
      "2 ^ 63 \<le> (2 * f + 1) * 2 ^ s" "(2 * f + 1) * 2 ^ s < 2 ^ 64" "10 \<le> s" "s \<le> 62"
      "- 1137 \<le> ?e - 1 - int s" "?e - 1 - int s \<le> 960"
    using compute_boundaries_correct [OF f(1-6)] by blast
  let ?X = "lower_significand f ?e s" and ?Y = "f * 2 ^ Suc s" and ?Z = "(2 * f + 1) * 2 ^ s"
  obtain r where r: "s = Suc r" using s(4) by (cases s) auto
  have pow: "(2 :: nat) ^ 9 \<le> 2 ^ r" "(2 :: nat) ^ 10 \<le> 2 ^ s" 
    using power_increasing [of 9 r "2 :: nat"] power_increasing [of 10 s "2 :: nat"] s(4) r by auto
  have width: "?Z \<le> 2 ^ 53 * (?Z - ?X)"
  proof (cases "f = 2 ^ 52 \<and> - 1074 < ?e")
    case True
    then show ?thesis unfolding closer_lower(1) [OF True] by (simp add: r)
  next
    case False
    have "?Z - ?X = 2 * 2 ^ s" unfolding plain_lower(1) [OF False] diff_mult_distrib [symmetric] using f(2) by simp
    then show ?thesis using f(3) by simp
  qed
  have "?X + 512 \<le> ?Y"
  proof (cases "f = 2 ^ 52 \<and> - 1074 < ?e")
    case True
    have "(4 * f - 1) * 2 ^ r + 2 ^ r = 4 * f * 2 ^ r" using f(2) by (simp add: diff_mult_distrib)
    then show ?thesis using pow(1) unfolding closer_lower(1) [OF True] by (simp add: r)
  next
    case False
    have "(2 * f - 1) * 2 ^ s + 2 ^ s = 2 * f * 2 ^ s" using f(2) by (simp add: diff_mult_distrib)
    then show ?thesis using pow(2) unfolding plain_lower(1) [OF False] by simp
  qed
  moreover have "?Y + 512 \<le> ?Z" using pow(2) by (simp add: algebra_simps)
  moreover have "grisu2_scaled \<lparr>fp_f = of_nat ?X, fp_e = ?e - 1 - int s\<rparr> \<lparr>fp_f = of_nat ?Y, fp_e = ?e - 1 - int s\<rparr>
      \<lparr>fp_f = of_nat ?Z, fp_e = ?e - 1 - int s\<rparr> = (ds, de)"
    using assms(3) by (simp add: grisu2_def Let_def s(1))
  ultimately have c: "plain_digits ds" "of_nat ?X * 2 powi (?e - 1 - int s) < (of_nat (digits_value ds) * 10 powi de :: rat)"
      "of_nat (digits_value ds) * 10 powi de < (of_nat ?Z * 2 powi (?e - 1 - int s) :: rat)"
      "- 330 \<le> int (length ds) + de" "int (length ds) + de \<le> 330" "length ds \<le> 17"
    using grisu2_scaled_correct [of ?X "?e - 1 - int s" ?Y ?Z ds de] s(2,3,6,7) width by blast+
  show "plain_digits ds" "- 330 \<le> int (length ds) + de" "int (length ds) + de \<le> 330" "length ds \<le> 17" by (rule c(1,4-6))+
  have "of_nat ?X * 2 powi (?e - 1 - int s) = q - lower_gap f ?e"
  proof (cases "f = 2 ^ 52 \<and> - 1074 < ?e")
    case True
    have "of_nat ((4 * f - 1) * 2 ^ r) * 2 powi (?e - 2 - int r) = (of_nat (4 * f - 1) * 2 powi (?e - 2) :: rat)"
      by (rule powi_shift)
    also have "\<dots> = (4 * of_nat f - 1) * 2 powi ?e / 4" using f(2) by (simp add: of_nat_diff power_int_diff)
    finally show ?thesis using f(1) unfolding closer_lower [OF True] by (simp add: r algebra_simps)
  next
    case False
    have "of_nat ((2 * f - 1) * 2 ^ s) * 2 powi (?e - 1 - int s) = (of_nat (2 * f - 1) * 2 powi (?e - 1) :: rat)"
      by (rule powi_shift)
    also have "\<dots> = (2 * of_nat f - 1) * 2 powi ?e / 2" using f(2) by (simp add: of_nat_diff power_int_diff)
    finally show ?thesis using f(1) unfolding plain_lower [OF False] by (simp add: algebra_simps)
  qed
  moreover have "of_nat ?Z * 2 powi (?e - 1 - int s) = q + 2 powi ?e / 2"
  proof -
    have "of_nat ?Z * 2 powi (?e - 1 - int s) = (of_nat (2 * f + 1) * 2 powi (?e - 1) :: rat)" by (rule powi_shift)
    also have "\<dots> = (2 * of_nat f + 1) * 2 powi ?e / 2" by (simp add: power_int_diff)
    finally show ?thesis using f(1) by (simp add: algebra_simps)
  qed
  ultimately show "to_double (of_nat (digits_value ds) * 10 powi de) = Some q"
    using to_double_between [OF f(1-5,7), of "of_nat (digits_value ds) * 10 powi de"] c(2,3) by simp
qed

end
