(* ===== verification/Json_Numbers.thy ===== *)
theory Json_Numbers
  imports Json_Dump Grisu_Bounds
begin

section \<open>JSON text: numbers\<close>

text \<open>
  What \<open>json::dump\<close> writes for an integer or a double is read by the lexer as that number,
  whatever follows the value in the text.
\<close>

subsection \<open>Integers\<close>

lemma digits_loop_reference: "digits_loop n buf = nat_string n @ buf"
proof (induction n buf rule: digits_loop.induct)
  case (1 n buf)
  have "nat_string n = nat_string (n div 100) @ digits_to_99 (n mod 100)" if "100 \<le> n"
  proof -
    have "n mod 100 div 10 = n div 10 mod 10" "n mod 100 mod 10 = n mod 10"
      using div_mult2_eq [of n 10 10] mod_mult2_eq [of n 10 10] by (simp_all add: mod_mod_cancel)
    moreover have "nat_string n = nat_string (n div 10) @ [digit (n mod 10)]"
        "nat_string (n div 10) = nat_string (n div 10 div 10) @ [digit (n div 10 mod 10)]"
      using that by (subst nat_string.simps; simp)+
    ultimately show ?thesis by (simp add: digits_to_99_def flip: div_mult2_eq)
  qed
  moreover have "nat_string n = digits_to_99 n" if "10 \<le> n" "n < 100"
    using that by (subst nat_string.simps; subst nat_string.simps) (simp add: digits_to_99_def)
  moreover have "nat_string n = [digit n]" if "n < 10" using that by (subst nat_string.simps) simp
  ultimately show ?case using 1 by (subst digits_loop.simps) simp
qed

text \<open>The buffer is filled exactly.\<close>

lemma count_digits_length: "count_digits n = length (nat_string n)"
proof (induction n rule: count_digits.induct)
  case (1 n)
  have step: "length (nat_string k) = Suc (length (nat_string (k div 10)))" if "10 \<le> k" for k
    using that by (subst nat_string.simps) simp
  have one: "length (nat_string k) = 1" if "k < 10" for k using that by (subst nat_string.simps) simp
  consider "n < 10" | "10 \<le> n" "n < 100" | "100 \<le> n" "n < 1000" | "1000 \<le> n" "n < 10000" | "10000 \<le> n" by linarith
  then show ?case
  proof cases
    case 5
    then have "length (nat_string n) = 4 + length (nat_string (n div 10 div 10 div 10 div 10))"
      using step [of n] step [of "n div 10"] step [of "n div 10 div 10"] step [of "n div 10 div 10 div 10"] by simp
    then show ?thesis using 1 5 by (subst count_digits.simps) (simp flip: div_mult2_eq)
  qed (subst count_digits.simps; simp add: step one)+
qed

lemma byte_decimal: "d < 10 \<Longrightarrow> byte (digit d) = 0x30 + d"
  by (simp add: digit_def)

lemma nat_string_digits: "c \<in> set (nat_string n) \<Longrightarrow> is_digit c"
proof (induction n rule: nat_string.induct)
  case (1 n)
  have "is_digit (digit (n mod 10))" by (simp add: is_digit_def byte_decimal)
  then show ?case using 1 by (subst (asm) (2) nat_string.simps) (auto simp: is_digit_def byte_decimal split: if_splits)
qed

lemma nat_string_value: "digits_value (nat_string n) = n"
proof (induction n rule: nat_string.induct)
  case (1 n)
  then show ?case
    by (subst nat_string.simps) (auto simp: digits_value_def byte_decimal)
qed

lemma nat_string_head: "0 < n \<Longrightarrow> \<exists>c s. nat_string n = c # s \<and> is_digit c \<and> c \<noteq> CHR ''0''"
proof (induction n rule: nat_string.induct)
  case (1 n)
  show ?case
  proof (cases "n < 10")
    case True
    have "digit n \<noteq> CHR ''0''" using True \<open>0 < n\<close> byte_decimal [OF True] by auto
    then show ?thesis using True by (subst nat_string.simps) (simp add: is_digit_def byte_decimal)
  next
    case False
    then obtain c s where "nat_string (n div 10) = c # s" "is_digit c" "c \<noteq> CHR ''0''"
      using 1(1) [OF False] False by (auto simp: div_greater_zero_iff)
    then show ?thesis using False by (subst nat_string.simps) simp
  qed
qed

text \<open>What may follow a value in a text.\<close>

definition value_end :: "string \<Rightarrow> bool" where
  "value_end s \<longleftrightarrow> s = [] \<or> hd s \<in> {CHR '','', CHR '']'', CHR ''}''}"

lemma number_loop_digits:
  assumes "\<forall>c \<in> set ds. is_digit c" and "value_end s"
  shows "number_loop sn_any1 ty buf (ds @ s) = (number_token ty (buf @ ds), s)"
  using assms
proof (induction ds arbitrary: buf)
  case Nil
  then show ?case
    by (cases s) (auto simp: value_end_def number_final_def is_digit_def is_exponent_def)
qed (simp add: enter_type_def)

lemma digit_token:
  assumes "is_digit c"
  shows "scan (c # s) = scan_number c s"
proof -
  have "c \<noteq> d" if "\<not> is_digit d" for d using that assms by auto
  note ne = this [unfolded is_digit_def]
  show ?thesis using assms by (simp add: scan_def is_space_def scan_char_def ne)
qed

lemma scan_integer:
  assumes "- (2 ^ 63) \<le> n" and "n < 2 ^ 64" and "value_end s"
  shows "scan (dump_integer n @ s) = ((if n < 0 then value_integer n else value_unsigned n), s)"
proof -
  consider "n = 0" | "0 < n" | "n < 0" by linarith
  then show ?thesis
  proof cases
    case 1
    have "number_loop sn_zero type_unsigned ''0'' s = (number_token type_unsigned ''0'', s)"
      using assms(3) by (cases s) (auto simp: value_end_def number_final_def is_exponent_def)
    then show ?thesis using 1
      by (simp add: dump_integer_def digit_token is_digit_def scan_number_def number_token_def decimal_int_def digits_value_def)
  next
    case 2
    then obtain c ds where ds: "nat_string (nat n) = c # ds" "is_digit c" "c \<noteq> CHR ''0''" using nat_string_head [of "nat n"] by auto
    then have "c \<noteq> CHR ''-''" by (auto simp: is_digit_def)
    moreover have "\<forall>d \<in> set ds. is_digit d" using nat_string_digits [of _ "nat n"] ds(1) by auto
    moreover have "number_token type_unsigned (c # ds) = value_unsigned n"
      using 2 assms(2) nat_string_value [of "nat n"] ds(1) \<open>c \<noteq> CHR ''-''\<close> by (simp add: number_token_def decimal_int_def Let_def)
    ultimately show ?thesis using 2 ds number_loop_digits [of ds s type_unsigned "[c]"] assms(3)
      by (simp add: dump_integer_def digits_loop_reference digit_token scan_number_def)
  next
    case 3
    have r: "remove_sign n = nat (- n)" using 3 by (simp add: remove_sign_def)
    obtain c ds where ds: "nat_string (nat (- n)) = c # ds" "is_digit c" "c \<noteq> CHR ''0''"
      using nat_string_head [of "nat (- n)"] 3 by auto
    moreover have "\<forall>d \<in> set ds. is_digit d" using nat_string_digits [of _ "nat (- n)"] ds(1) by auto
    moreover have "number_token type_integer (CHR ''-'' # c # ds) = value_integer n"
      using 3 assms(1) nat_string_value [of "nat (- n)"] ds(1) by (simp add: number_token_def decimal_int_def Let_def)
    ultimately show ?thesis using 3 number_loop_digits [of ds s type_integer "''-'' @ [c]"] assms(3)
      by (simp add: dump_integer_def digits_loop_reference r scan_def is_space_def scan_char_def scan_number_def enter_type_def)
  qed
qed

subsection \<open>Doubles\<close>

lemma digits_value_append: "digits_value (xs @ ys) = digits_value xs * 10 ^ length ys + digits_value ys"
  by (induction ys rule: rev_induct) (simp_all add: algebra_simps flip: append_assoc)

lemma digits_value_zeros [simp]: "digits_value (replicate n (CHR ''0'')) = 0"
  by (induction n) (simp_all add: replicate_append_same [symmetric])

lemma zeros_digits [simp]: "list_all is_digit (replicate n (CHR ''0''))"
  by (simp add: list_all_length is_digit_def)

lemma digits_value_zero [simp]: "digits_value ''0'' = 0"
  by (simp add: digits_value_def)

text \<open>Runs of digits in the three states that repeat.\<close>

lemma digit_runs:
  assumes "list_all is_digit ds"
  shows "number_loop sn_any1 ty buf (ds @ s) = number_loop sn_any1 ty (buf @ ds) s"
    and "number_loop sn_decimal2 ty buf (ds @ s) = number_loop sn_decimal2 ty (buf @ ds) s"
    and "number_loop sn_any2 ty buf (ds @ s) = number_loop sn_any2 ty (buf @ ds) s"
  using assms by (induction ds arbitrary: buf) (simp_all add: enter_type_def)

definition number_start :: "char \<Rightarrow> number_state" where
  "number_start c = (if c = CHR ''0'' then sn_zero else sn_any1)"

definition sign_text :: "bool \<Rightarrow> string" where
  "sign_text neg = (if neg then ''-'' else [])"

lemma scan_signed:
  assumes "is_digit c"
  shows "scan (sign_text neg @ c # s) =
    number_loop (number_start c) (if neg then type_integer else type_unsigned) (sign_text neg @ [c]) s"
proof (cases neg)
  case True
  then show ?thesis using assms
    by (simp add: sign_text_def scan_def is_space_def scan_char_def is_digit_def scan_number_def number_start_def enter_type_def)
next
  case False
  have "c \<noteq> CHR ''-''" using assms by (auto simp: is_digit_def)
  then show ?thesis using assms False by (simp add: sign_text_def digit_token scan_number_def number_start_def)
qed

text \<open>A fraction, and an exponent as \<open>append_exponent\<close> writes it.\<close>

lemma scan_fraction:
  assumes "st \<in> {sn_zero, sn_any1}" and "list_all is_digit ds" and "ds \<noteq> []"
  shows "number_loop st ty buf (CHR ''.'' # ds @ s) = number_loop sn_decimal2 type_float (buf @ CHR ''.'' # ds) s"
proof -
  obtain c cs where ds: "ds = c # cs" using assms(3) by (cases ds) auto
  have "number_loop st ty buf (CHR ''.'' # ds @ s) = number_loop sn_decimal1 type_float (buf @ ''.'') (ds @ s)"
    using assms(1) by (auto simp: enter_type_def is_digit_def)
  then show ?thesis using assms(2) by (simp add: ds enter_type_def digit_runs)
qed

lemma scan_exponent:
  assumes "st \<in> {sn_any1, sn_decimal2}" and "list_all is_digit ds" and "ds \<noteq> []"
  shows "number_loop st ty buf (CHR ''e'' # (if neg then CHR ''-'' else CHR ''+'') # ds @ s) =
    number_loop sn_any2 type_float (buf @ CHR ''e'' # (if neg then CHR ''-'' else CHR ''+'') # ds) s"
proof -
  obtain c cs where ds: "ds = c # cs" using assms(3) by (cases ds) auto
  show ?thesis using assms(1,2) by (auto simp: ds enter_type_def is_digit_def is_exponent_def digit_runs)
qed

lemma scan_float_end:
  assumes "st \<in> {sn_decimal2, sn_any2}" and "value_end s"
  shows "number_loop st type_float buf s = (value_float (strtod buf), s)"
  using assms by (cases s) (auto simp: value_end_def number_final_def is_digit_def is_exponent_def number_token_def Let_def)

subsection \<open>The value of a text\<close>

lemma digits_span:
  assumes "list_all is_digit ds" and "s = [] \<or> \<not> is_digit (hd s)"
  shows "takeWhile is_digit (ds @ s) = ds" and "dropWhile is_digit (ds @ s) = s"
  using assms by (induction ds; cases s; simp)+

lemma digits_no_sign:
  assumes "list_all is_digit ds"
  shows "filter (\<lambda>c. c \<noteq> CHR ''+'') ds = ds" and "take 1 (ds @ s) \<noteq> ''-'' \<or> ds = []"
  using assms by (induction ds) (auto simp: is_digit_def)

lemma decimal_int_digits:
  "list_all is_digit ds \<Longrightarrow> decimal_int ds = int (digits_value ds)"
  "decimal_int (CHR ''-'' # ds) = - int (digits_value ds)"
  by (cases ds) (auto simp: decimal_int_def is_digit_def)

lemma decimal_value_sign:
  assumes "list_all is_digit whole" and "whole \<noteq> []"
  shows "decimal_value (sign_text neg @ whole @ s) = (if neg then - 1 else 1) * decimal_value (whole @ s)"
  using digits_no_sign(2) [OF assms(1), of s] assms(2) by (cases neg) (simp_all add: decimal_value_def sign_text_def Let_def)

lemma decimal_value_fraction:
  assumes "list_all is_digit whole" and "whole \<noteq> []" and "list_all is_digit ps"
  shows "decimal_value (whole @ CHR ''.'' # ps) = of_nat (digits_value (whole @ ps)) * 10 powi (- int (length ps))"
proof -
  have "\<not> is_digit (CHR ''.'')" "decimal_int [] = 0" by (simp_all add: is_digit_def decimal_int_def)
  then show ?thesis
    using digits_no_sign(2) [OF assms(1), of "CHR ''.'' # ps"] assms(2)
      digits_span [OF assms(1), of "CHR ''.'' # ps"] digits_span [OF assms(3), of "[]"]
    by (simp add: decimal_value_def Let_def del: takeWhile_eq_all_conv dropWhile_eq_Nil_conv)
qed

lemma decimal_value_exponent:
  assumes "list_all is_digit whole" and "whole \<noteq> []" and "list_all is_digit ps" and "list_all is_digit ds"
  shows "decimal_value (whole @ (if ps = [] then [] else CHR ''.'' # ps) @ CHR ''e'' # (if neg then CHR ''-'' else CHR ''+'') # ds) =
    of_nat (digits_value (whole @ ps)) * 10 powi ((if neg then - int (digits_value ds) else int (digits_value ds)) - int (length ps))"
proof -
  let ?exp = "CHR ''e'' # (if neg then CHR ''-'' else CHR ''+'') # ds"
  have e: "decimal_int (filter (\<lambda>c. c \<noteq> CHR ''+'') (drop 1 ?exp)) = (if neg then - int (digits_value ds) else int (digits_value ds))"
    using digits_no_sign(1) [OF assms(4)] by (simp add: decimal_int_digits assms(4))
  have n: "\<not> is_digit (CHR ''e'')" "\<not> is_digit (CHR ''.'')" by (simp_all add: is_digit_def)
  show ?thesis
  proof (cases "ps = []")
    case True
    then show ?thesis
      using digits_no_sign(2) [OF assms(1), of ?exp] assms(2) digits_span [OF assms(1), of ?exp] n e
      by (simp add: decimal_value_def Let_def del: filter.simps)
  next
    case False
    then show ?thesis
      using digits_no_sign(2) [OF assms(1), of "CHR ''.'' # ps @ ?exp"] assms(2)
        digits_span [OF assms(1), of "CHR ''.'' # ps @ ?exp"] digits_span [OF assms(3), of ?exp] n e
      by (simp add: decimal_value_def Let_def del: filter.simps)
  qed
qed

subsection \<open>The formats\<close>

lemma scan_decimal:
  assumes "list_all is_digit (c # cs)" and "c = CHR ''0'' \<longrightarrow> cs = []" and "list_all is_digit ps" and "ps \<noteq> []" and "value_end s"
  shows "scan (sign_text neg @ (c # cs) @ CHR ''.'' # ps @ s) = (value_float (strtod (sign_text neg @ (c # cs) @ CHR ''.'' # ps)), s)"
proof -
  have "number_loop (number_start c) ty buf (cs @ CHR ''.'' # ps @ s) =
      number_loop sn_decimal2 type_float ((buf @ cs) @ CHR ''.'' # ps) s" for ty buf
    using assms by (cases "c = CHR ''0''") (simp_all add: number_start_def scan_fraction digit_runs del: number_loop.simps)
  then show ?thesis using assms(1) scan_signed [of c neg] scan_float_end [of sn_decimal2 s] assms(5) by simp
qed

lemma scan_scientific:
  assumes "list_all is_digit (c # cs)" and "c \<noteq> CHR ''0''" and "list_all is_digit ps" and "list_all is_digit ds" and "ds \<noteq> []"
    and "value_end s"
    and "t = sign_text neg @ (c # cs) @ (if ps = [] then [] else CHR ''.'' # ps) @ CHR ''e'' # (if below then CHR ''-'' else CHR ''+'') # ds"
  shows "scan (t @ s) = (value_float (strtod t), s)"
proof -
  let ?exp = "CHR ''e'' # (if below then CHR ''-'' else CHR ''+'') # ds"
  have "number_loop sn_any1 ty buf (cs @ (if ps = [] then [] else CHR ''.'' # ps) @ ?exp @ s) =
      number_loop sn_any2 type_float (buf @ cs @ (if ps = [] then [] else CHR ''.'' # ps) @ ?exp) s" for ty buf
    using assms(1,3,4,5) scan_exponent [of sn_any1 ds ty "buf @ cs" below s]
      scan_exponent [of sn_decimal2 ds type_float "(buf @ cs) @ CHR ''.'' # ps" below s]
      scan_fraction [of sn_any1 ps ty "buf @ cs" "?exp @ s"]
    by (cases "ps = []") (simp_all add: digit_runs del: number_loop.simps)
  then show ?thesis using assms(1,2,6,7) scan_signed [of c neg] scan_float_end [of sn_any2 s] by (simp add: number_start_def)
qed

lemma append_exponent_digits:
  assumes "\<bar>e\<bar> < 1000"
  obtains ds where "append_exponent e = (if e < 0 then CHR ''-'' else CHR ''+'') # ds"
    and "list_all is_digit ds" and "ds \<noteq> []" and "int (digits_value ds) = \<bar>e\<bar>"
proof -
  define k where "k = nat \<bar>e\<bar>"
  have k: "k < 1000" using assms by (simp add: k_def)
  define ds where "ds = (if k < 10 then [CHR ''0'', digit_char k]
          else if k < 100 then [digit_char (k div 10), digit_char (k mod 10)]
          else [digit_char (k div 100), digit_char (k mod 100 div 10), digit_char (k mod 100 mod 10)])"
  have d: "k < 100 \<Longrightarrow> k div 10 \<le> 9" "k div 100 \<le> 9" "k mod 100 div 10 \<le> 9" "k mod 10 \<le> 9" "k mod 100 mod 10 \<le> 9"
    using k by auto
  have "digits_value ds = k"
  proof -
    have "k = 100 * (k div 100) + 10 * (k mod 100 div 10) + k mod 100 mod 10" by presburger
    then show ?thesis using d by (auto simp: ds_def digits_value_def)
  qed
  moreover have "list_all is_digit ds" using d by (simp add: ds_def is_digit_def)
  moreover have "append_exponent e = (if e < 0 then CHR ''-'' else CHR ''+'') # ds"
    by (simp add: append_exponent_def ds_def k_def Let_def)
  ultimately show ?thesis using that [of ds] by (simp add: ds_def k_def split: if_splits)
qed

lemma strtod_sign:
  assumes "list_all is_digit whole" and "whole \<noteq> []" and "decimal_value (whole @ t) = x"
  shows "strtod (sign_text neg @ whole @ t) = to_double ((if neg then - 1 else 1) * x)"
  using decimal_value_sign [OF assms(1,2)] assms(3) by (simp add: strtod_def)

lemma format_buffer_scans:
  assumes "plain_digits ds" and "- 330 \<le> int (length ds) + de" and "int (length ds) + de \<le> 330" and "value_end s"
  shows "scan (sign_text neg @ format_buffer ds de (- 4) 15 @ s) =
      (value_float (to_double ((if neg then - 1 else 1) * (of_nat (digits_value ds) * 10 powi de))), s)"
proof -
  define k n where "k = length ds" and "n = int k + de"
  obtain c cs where ds: "ds = c # cs" "c \<noteq> CHR ''0''" "is_digit c" "list_all is_digit cs"
    using assms(1) by (cases ds) (auto simp: plain_digits_def)
  let ?x = "of_nat (digits_value ds) * 10 powi de :: rat" and ?sgn = "if neg then - 1 else 1 :: rat"
  consider "int k \<le> n" "n \<le> 15" | "0 < n" "n \<le> 15" "n < int k" | "- 4 < n" "n \<le> 0" | "n \<le> - 4 \<or> 15 < n" by linarith
  then show ?thesis
  proof cases
    case 1
    define w where "w = ds @ replicate (nat n - k) (CHR ''0'')"
    have f: "format_buffer ds de (- 4) 15 = w @ ''.0''"
      using 1 by (simp add: format_buffer_def w_def n_def k_def Let_def)
    have w: "list_all is_digit w" "w \<noteq> []" "\<exists>ws. w = c # ws"
      using ds by (simp_all add: w_def)
    have "decimal_value (w @ CHR ''.'' # ''0'') = of_nat (digits_value (w @ ''0'')) * 10 powi (- int (length ''0''))"
      using w by (intro decimal_value_fraction) (simp_all add: is_digit_def)
    also have "\<dots> = ?x"
    proof -
      have "de = int (nat n - k)" using 1 by (simp add: n_def)
      then show ?thesis by (simp add: w_def digits_value_append power_int_minus)
    qed
    finally have "strtod (sign_text neg @ w @ CHR ''.'' # ''0'') = to_double (?sgn * ?x)" using w by (intro strtod_sign) auto
    moreover obtain ws where "w = c # ws" using w(3) by blast
    ultimately show ?thesis
      using w ds(2) assms(4) f scan_decimal [of c ws "''0''" s neg] by (simp add: is_digit_def)
  next
    case 2
    define w ps where "w = take (nat n) ds" and "ps = drop (nat n) ds"
    have f: "format_buffer ds de (- 4) 15 = w @ CHR ''.'' # ps"
      using 2 by (simp add: format_buffer_def w_def ps_def n_def k_def Let_def)
    have wp: "w @ ps = ds" "length ps = k - nat n" "ps \<noteq> []" using 2 by (simp_all add: w_def ps_def k_def)
    have "list_all is_digit (w @ ps)" using wp(1) ds by simp
    then have d: "list_all is_digit w" "list_all is_digit ps" by simp_all
    obtain ws where w: "w = c # ws" using 2 ds(1) by (cases "nat n") (auto simp: w_def)
    have "decimal_value (w @ CHR ''.'' # ps) = ?x"
    proof -
      have "w = [] \<longleftrightarrow> False" "- int (length ps) = de" using w wp(2) 2 by (simp_all add: n_def)
      then show ?thesis using decimal_value_fraction [OF d(1) _ d(2)] by (simp only: wp(1) simp_thms)
    qed
    then have "strtod (sign_text neg @ w @ CHR ''.'' # ps) = to_double (?sgn * ?x)" using d w by (intro strtod_sign) auto
    then show ?thesis using f w d wp(3) ds(2) assms(4) scan_decimal [of c ws ps s neg] by simp
  next
    case 3
    define ps where "ps = replicate (nat (- n)) (CHR ''0'') @ ds"
    have f: "format_buffer ds de (- 4) 15 = ''0'' @ CHR ''.'' # ps"
      using 3 ds(1) by (simp add: format_buffer_def ps_def n_def k_def Let_def)
    have d: "list_all is_digit ps" "ps \<noteq> []" using ds by (simp_all add: ps_def)
    have "decimal_value (''0'' @ CHR ''.'' # ps) = of_nat (digits_value (''0'' @ ps)) * 10 powi (- int (length ps))"
      using d by (intro decimal_value_fraction) (simp_all add: is_digit_def)
    also have "\<dots> = ?x"
    proof -
      have "digits_value (''0'' @ ps) = digits_value ds"
        unfolding ps_def digits_value_append [of "''0''"] digits_value_append [of "replicate _ _"] by simp
      moreover have "- int (length ps) = de" using 3 by (simp add: ps_def n_def k_def)
      ultimately show ?thesis by simp
    qed
    finally have "strtod (sign_text neg @ ''0'' @ CHR ''.'' # ps) = to_double (?sgn * ?x)"
      by (intro strtod_sign) (simp_all add: is_digit_def)
    then show ?thesis using f d assms(4) scan_decimal [of "CHR ''0''" "[]" ps s neg] by (simp add: is_digit_def)
  next
    case 4
    have "\<bar>n - 1\<bar> < 1000" using assms(2,3) by (simp add: n_def k_def)
    then obtain es where es: "append_exponent (n - 1) = (if n - 1 < 0 then CHR ''-'' else CHR ''+'') # es"
        "list_all is_digit es" "es \<noteq> []" "int (digits_value es) = \<bar>n - 1\<bar>"
      by (rule append_exponent_digits)
    define t where "t = [c] @ (if cs = [] then [] else CHR ''.'' # cs) @ CHR ''e'' # (if n - 1 < 0 then CHR ''-'' else CHR ''+'') # es"
    have "\<not> (int k \<le> n \<and> n \<le> 15)" "\<not> (0 < n \<and> n \<le> 15)" "\<not> (- 4 < n \<and> n \<le> 0)" using 4 by auto
    then have "format_buffer ds de (- 4) 15 =
        (if int k = 1 then ds else take 1 ds @ ''.'' @ drop 1 ds) @ ''e'' @ append_exponent (n - 1)"
      by (simp only: format_buffer_def Let_def k_def [symmetric] n_def [symmetric] if_False)
    moreover have "int k = 1 \<longleftrightarrow> cs = []" by (simp add: k_def ds(1))
    ultimately have f: "format_buffer ds de (- 4) 15 = t" using ds(1) es(1) by (simp add: t_def)
    have "decimal_value t = ?x"
      using decimal_value_exponent [of "[c]" cs es "n - 1 < 0"] ds es by (auto simp: t_def n_def k_def)
    then have "strtod (sign_text neg @ t) = to_double (?sgn * ?x)"
      using ds(3) strtod_sign [of "[c]"] by (simp add: t_def)
    then show ?thesis
      using scan_scientific [of c "[]" cs es s "sign_text neg @ t" neg "n - 1 < 0"] f ds es assms(4)
      by (simp add: t_def)
  qed
qed

lemma format_buffer_head:
  assumes "plain_digits ds"
  shows "format_buffer ds de i j \<noteq> [] \<and> is_digit (hd (format_buffer ds de i j))"
  using assms
  by (cases ds) (auto simp: plain_digits_def format_buffer_def Let_def is_digit_def take_Cons' hd_append)

text \<open>The text of a double is read as this double.\<close>

lemma scan_to_chars:
  assumes "is_double q" and "value_end s"
  shows "scan (to_chars q @ s) = (value_float (Some q), s)"
proof (cases "q = 0")
  case True
  have "decimal_value (''0'' @ CHR ''.'' # ''0'') = 0"
    by (subst decimal_value_fraction) (simp_all add: is_digit_def digits_value_def)
  then have "strtod (sign_text False @ ''0'' @ CHR ''.'' # ''0'') = Some 0"
    using strtod_sign [of "''0''" "CHR ''.'' # ''0''" 0 False] by (simp add: is_digit_def)
  then show ?thesis
    using scan_decimal [of "CHR ''0''" "[]" "''0''" s False] assms(2) True
    by (simp add: to_chars_def sign_text_def is_digit_def)
next
  case False
  obtain ds de where g: "grisu2 \<bar>q\<bar> = (ds, de)" by fastforce
  have d: "is_double \<bar>q\<bar>" "0 < \<bar>q\<bar>" using assms(1) False by (simp_all add: is_double_abs)
  note c = grisu2_correct [OF d g]
  have "to_double ((if q < 0 then - 1 else 1) * (of_nat (digits_value ds) * 10 powi de)) = Some q"
    using c(2) by (auto simp: to_double_uminus)
  then have "scan (sign_text (q < 0) @ format_buffer ds de (- 4) 15 @ s) = (value_float (Some q), s)"
    using format_buffer_scans [OF c(1,3,4) assms(2), of "q < 0"] by simp
  then show ?thesis using False g by (simp add: to_chars_def sign_text_def)
qed

lemma to_chars_head:
  assumes "is_double q"
  shows "to_chars q \<noteq> []" and "hd (to_chars q) = CHR ''-'' \<or> is_digit (hd (to_chars q))"
proof -
  obtain ds de where g: "grisu2 \<bar>q\<bar> = (ds, de)" by fastforce
  have "plain_digits ds" if "q \<noteq> 0"
    using grisu2_correct(1) [OF is_double_abs [OF assms] _ g] that by simp
  then show "to_chars q \<noteq> []" "hd (to_chars q) = CHR ''-'' \<or> is_digit (hd (to_chars q))"
    using format_buffer_head [of ds de] g by (auto simp: to_chars_def is_digit_def)
qed
text \<open>C7: The text the serializer writes for a double is read back as exactly this double: the digits found by
  Grisu2 stand for a number that is rounded to it, whatever its sign and size, and the lexer takes
  the text, in whichever of the four notations it is laid out, as one floating-point token, up to the
  character that ends the value. Zero, whose sign the model leaves out, is written as 0.0.\<close>

theorem float_text_round_trip:
  assumes "is_double q" and "value_end s"
  shows "scan (dump_float q @ s) = (value_float (Some q), s)"
  using scan_to_chars [OF assms] by (simp add: dump_float_def)

text \<open>The double next to 1/10, as an element of an array.\<close>

theorem float_text_round_trip_witness:
  "scan (dump_float (7205759403792794 / 2 ^ 56) @ '', 2]'') = (value_float (Some (7205759403792794 / 2 ^ 56)), '', 2]'')"
proof -
  have "is_double (of_nat 7205759403792794 * 2 powi (- 56))" by (rule is_double_parts) simp_all
  then have "is_double (7205759403792794 / 2 ^ 56)" by (simp add: power_int_minus)
  then show ?thesis by (rule float_text_round_trip) (simp add: value_end_def)
qed

lemma append_exponent_length: "length (append_exponent e) \<le> 4"
  by (simp add: append_exponent_def Let_def)

lemma format_buffer_length:
  assumes "length ds \<le> 17" and "ds \<noteq> []"
  shows "length (format_buffer ds de (- 4) 15) \<le> 23"
  using assms append_exponent_length [of "int (length ds) + de - 1"]
  by (cases ds) (auto simp: format_buffer_def Let_def)

text \<open>C8: The serializer's number buffer of 64 characters is never overrun: Grisu2 finds at most 17 digits for
  any double other than zero, the exponent of its scientific notation has at most three digits, and
  with sign, point and exponent the text of a double has at most 24 characters.\<close>

theorem float_text_fits_buffer:
  assumes "is_double q"
  shows "(q \<noteq> 0 \<longrightarrow> length (fst (grisu2 \<bar>q\<bar>)) \<le> 17 \<and>
      \<bar>int (length (fst (grisu2 \<bar>q\<bar>))) + snd (grisu2 \<bar>q\<bar>) - 1\<bar> < 1000) \<and> length (dump_float q) \<le> 24"
proof (cases "q = 0")
  case True
  then show ?thesis by (simp add: dump_float_def to_chars_def)
next
  case False
  obtain ds de where g: "grisu2 \<bar>q\<bar> = (ds, de)" by fastforce
  have "is_double \<bar>q\<bar>" "0 < \<bar>q\<bar>" using assms False by (simp_all add: is_double_abs)
  note c = grisu2_correct [OF this g]
  have "length (format_buffer ds de (- 4) 15) \<le> 23"
    using c(1,5) by (intro format_buffer_length) (auto simp: plain_digits_def)
  then show ?thesis using False g c(3-5) by (simp add: dump_float_def to_chars_def)
qed

theorem float_text_fits_buffer_witness:
  "length (dump_float (7205759403792794 / 2 ^ 56)) \<le> 24"
proof -
  have "is_double (of_nat 7205759403792794 * 2 powi (- 56))" by (rule is_double_parts) simp_all
  then have "is_double (7205759403792794 / 2 ^ 56)" by (simp add: power_int_minus)
  from float_text_fits_buffer [OF this] show ?thesis by simp
qed

end
