(* ===== verification/Json_Text.thy ===== *)
theory Json_Text
  imports Json_Utf8 Json_Parser Json_Numbers
begin

section \<open>JSON text: the round trip\<close>

text \<open>
  What \<open>json::dump\<close> writes is read by \<open>json::parse\<close> as the same value, its members in the order
  of their keys; and what \<open>json::parse\<close> reads can always be written.
\<close>

subsection \<open>Values\<close>

text \<open>A text that is read as a value, whatever arrays and objects are open around it.\<close>

definition reads :: "string \<Rightarrow> json \<Rightarrow> bool" where
  "reads t v \<longleftrightarrow> t \<noteq> [] \<and> hd t \<noteq> CHR 0xEF \<and>
     (\<forall>s st. value_end s \<longrightarrow>
        (\<exists>tok s1. scan (t @ s) = (tok, s1) \<and> tok \<noteq> end_array \<and> parse_value tok s1 st = parse_state v s st))"

lemma readsE:
  assumes "reads t v" and "value_end s"
  obtains tok s1 where "scan (t @ s) = (tok, s1)" and "tok \<noteq> end_array" and "parse_value tok s1 st = parse_state v s st"
  using assms unfolding reads_def by blast

lemma value_end_simps [simp]: "value_end []" "value_end (CHR '','' # s)" "value_end (CHR '']'' # s)" "value_end (CHR ''}'' # s)"
  by (simp_all add: value_end_def)

lemma scan_marks [simp]:
  "scan (CHR ''['' # s) = (begin_array, s)" "scan (CHR '']'' # s) = (end_array, s)"
  "scan (CHR ''{'' # s) = (begin_object, s)" "scan (CHR ''}'' # s) = (end_object, s)"
  "scan (CHR '':'' # s) = (name_separator, s)" "scan (CHR '','' # s) = (value_separator, s)"
  "scan (CHR 0x22 # s) = scan_string [] s" "scan [] = (end_of_input, [])"
  by (simp_all add: scan_def scan_char_def is_space_def)

lemma reads_literals: "reads ''null'' JNull" "reads ''true'' (JBool True)" "reads ''false'' (JBool False)"
  by (simp_all add: reads_def scan_def scan_char_def is_space_def is_digit_def scan_literal_def)

lemma reads_integer: "- (2 ^ 63) \<le> n \<Longrightarrow> n < 2 ^ 64 \<Longrightarrow> reads (dump_integer n) (JNum n)"
proof -
  assume n: "- (2 ^ 63) \<le> n" "n < 2 ^ 64"
  have "dump_integer n \<noteq> [] \<and> hd (dump_integer n) \<noteq> CHR 0xEF"
  proof (cases "n \<le> 0")
    case False
    then obtain c s where "nat_string (nat n) = c # s" "is_digit c" using nat_string_head [of "nat n"] by auto
    then show ?thesis using False by (auto simp: dump_integer_def digits_loop_reference is_digit_def)
  qed (auto simp: dump_integer_def)
  then show ?thesis using n by (simp add: reads_def scan_integer)
qed

lemma reads_double: "is_double q \<Longrightarrow> reads (dump_float q) (JFloat q)"
  using to_chars_head [of q] by (auto simp: reads_def dump_float_def scan_to_chars is_digit_def)

lemma dump_string_valid: "dump_string k = (if utf8_valid k then Some (CHR 0x22 # concat (map escape k) @ [CHR 0x22]) else None)"
  using dump_escaped_outcome [of "[]" k] by (simp add: dump_string_def UTF8_ACCEPT_def)

lemma reads_string: "utf8_valid v \<Longrightarrow> reads (CHR 0x22 # concat (map escape v) @ [CHR 0x22]) (JStr v)"
  by (simp add: reads_def scan_escaped)

lemma reads_elements:
  assumes "list_all2 reads ts vs" and "ts \<noteq> []"
  shows "\<exists>tok s1. scan (join ts @ CHR '']'' # s) = (tok, s1) \<and> tok \<noteq> end_array \<and>
    parse_value tok s1 (in_array xs # st) = parse_state (JArr (xs @ vs)) s st"
  using assms
proof (induction ts arbitrary: vs xs rule: join.induct)
  case (2 t)
  then obtain v where v: "vs = [v]" "reads t v" by (auto simp: list_all2_Cons1)
  show ?case
    by (rule readsE [OF v(2), of "CHR '']'' # s" "in_array xs # st"]) (auto simp: v(1) handle_value_def)
next
  case (3 t u ts)
  then obtain v ws where v: "vs = v # ws" "reads t v" "list_all2 reads (u # ts) ws" by (auto simp: list_all2_Cons1)
  obtain tok s1 where "scan (join (u # ts) @ CHR '']'' # s) = (tok, s1)"
      "parse_value tok s1 (in_array (xs @ [v]) # st) = parse_state (JArr ((xs @ [v]) @ ws)) s st"
    using 3(1) [OF v(3)] by blast
  then have step: "parse_state v (CHR '','' # join (u # ts) @ CHR '']'' # s) (in_array xs # st) = parse_state (JArr (xs @ vs)) s st"
    by (simp add: handle_value_def v(1) del: join.simps)
  obtain tok s1 where "scan (t @ CHR '','' # join (u # ts) @ CHR '']'' # s) = (tok, s1)" "tok \<noteq> end_array"
      "parse_value tok s1 (in_array xs # st) = parse_state v (CHR '','' # join (u # ts) @ CHR '']'' # s) (in_array xs # st)"
    by (rule readsE [OF v(2), of "CHR '','' # join (u # ts) @ CHR '']'' # s" "in_array xs # st"]) (simp, blast)
  then show ?case unfolding step join.simps(3) by simp
qed simp

lemma reads_array: "list_all2 reads ts vs \<Longrightarrow> reads (CHR ''['' # join ts @ '']'') (JArr vs)"
proof (cases "ts = []")
  case False
  assume ts: "list_all2 reads ts vs"
  have "parse_value begin_array (join ts @ CHR '']'' # s) st = parse_state (JArr vs) s st" for s st
    using reads_elements [OF ts False, of s "[]" st] by auto
  then show ?thesis by (simp add: reads_def)
qed (simp add: reads_def)

definition member_reads :: "string \<Rightarrow> string \<times> json \<Rightarrow> bool" where
  "member_reads m kv \<longleftrightarrow> utf8_valid (fst kv) \<and> (\<exists>t. m = CHR 0x22 # concat (map escape (fst kv)) @ [CHR 0x22, CHR '':''] @ t \<and> reads t (snd kv))"

lemma parse_key_member:
  "utf8_valid k \<Longrightarrow> parse_key (scan (CHR 0x22 # concat (map escape k) @ CHR 0x22 # CHR '':'' # s)) = Some (k, s)"
  by (simp add: scan_escaped)

lemma update_append: "k \<notin> fst ` set kvs \<Longrightarrow> AList.update k v kvs = kvs @ [(k, v)]"
  by (induction kvs) auto

lemma reads_members:
  assumes "list_all2 member_reads ms kvs" and "ms \<noteq> []" and "distinct (map fst (kvs0 @ kvs))"
  shows "\<exists>k s2 tok s3. parse_key (scan (join ms @ CHR ''}'' # s)) = Some (k, s2) \<and> scan s2 = (tok, s3) \<and>
    parse_value tok s3 (in_object kvs0 k # st) = parse_state (JObj (kvs0 @ kvs)) s st"
  using assms
proof (induction ms arbitrary: kvs kvs0 rule: join.induct)
  case (2 m)
  then obtain k v t where v: "kvs = [(k, v)]" "m = CHR 0x22 # concat (map escape k) @ [CHR 0x22, CHR '':''] @ t" "utf8_valid k" "reads t v"
    by (auto simp: list_all2_Cons1 member_reads_def)
  have up: "AList.update k v kvs0 = kvs0 @ [(k, v)]" using 2(3) v(1) by (intro update_append) auto
  obtain tok s1 where r: "scan (t @ CHR ''}'' # s) = (tok, s1)"
      "parse_value tok s1 (in_object kvs0 k # st) = parse_state v (CHR ''}'' # s) (in_object kvs0 k # st)"
    by (rule readsE [OF v(4), of "CHR ''}'' # s" "in_object kvs0 k # st"]) (simp, blast)
  have "parse_key (scan (join [m] @ CHR ''}'' # s)) = Some (k, t @ CHR ''}'' # s)"
    using parse_key_member [OF v(3)] by (simp only: v(2) join.simps append_assoc append_Cons append_Nil)
  moreover have "parse_value tok s1 (in_object kvs0 k # st) = parse_state (JObj (kvs0 @ kvs)) s st"
    using r(2) by (simp add: handle_value_def up v(1))
  ultimately show ?case using r(1) by blast
next
  case (3 m u ms)
  then obtain kv ws where ws: "kvs = kv # ws" "member_reads m kv" "list_all2 member_reads (u # ms) ws" by (cases kvs) auto
  then obtain k v t where v: "kvs = (k, v) # ws" "m = CHR 0x22 # concat (map escape k) @ [CHR 0x22, CHR '':''] @ t"
      "utf8_valid k" "reads t v" "list_all2 member_reads (u # ms) ws"
    by (cases kv) (auto simp: member_reads_def)
  have up: "AList.update k v kvs0 = kvs0 @ [(k, v)]" using 3(4) v(1) by (intro update_append) auto
  obtain k' s2 tok s3 where "parse_key (scan (join (u # ms) @ CHR ''}'' # s)) = Some (k', s2)" "scan s2 = (tok, s3)"
      "parse_value tok s3 (in_object (kvs0 @ [(k, v)]) k' # st) = parse_state (JObj ((kvs0 @ [(k, v)]) @ ws)) s st"
    using 3(1) [OF v(5), of "kvs0 @ [(k, v)]"] 3(4) v(1) by auto
  then have k': "parse_state v (CHR '','' # join (u # ms) @ CHR ''}'' # s) (in_object kvs0 k # st) = parse_state (JObj (kvs0 @ kvs)) s st"
    by (simp add: handle_value_def up v(1) del: join.simps)
  obtain tok s1 where r: "scan (t @ CHR '','' # join (u # ms) @ CHR ''}'' # s) = (tok, s1)"
      "parse_value tok s1 (in_object kvs0 k # st) = parse_state v (CHR '','' # join (u # ms) @ CHR ''}'' # s) (in_object kvs0 k # st)"
    by (rule readsE [OF v(4), of "CHR '','' # join (u # ms) @ CHR ''}'' # s" "in_object kvs0 k # st"]) (simp, blast)
  have "parse_key (scan (join (m # u # ms) @ CHR ''}'' # s)) = Some (k, t @ CHR '','' # join (u # ms) @ CHR ''}'' # s)"
    using parse_key_member [OF v(3)] by (simp only: v(2) join.simps(3) append_assoc append_Cons append_Nil)
  then show ?case using r unfolding k' by blast
qed simp

lemma reads_object:
  assumes "list_all2 member_reads ms kvs" and "distinct (map fst kvs)"
  shows "reads (CHR ''{'' # join ms @ ''}'') (JObj kvs)"
proof (cases "ms = []")
  case False
  have "parse_value begin_object (join ms @ CHR ''}'' # s) st = parse_state (JObj kvs) s st" for s st
  proof -
    obtain k s2 tok s3 where k: "parse_key (scan (join ms @ CHR ''}'' # s)) = Some (k, s2)" "scan s2 = (tok, s3)"
        "parse_value tok s3 (in_object [] k # st) = parse_state (JObj kvs) s st"
      using reads_members [OF assms(1) False, of "[]" s st] assms(2) by auto
    obtain t s1 where t: "scan (join ms @ CHR ''}'' # s) = (t, s1)" by fastforce
    then have "t \<noteq> end_object" using k(1) by auto
    then show ?thesis using k t by simp
  qed
  then show ?thesis by (simp add: reads_def)
qed (use assms in \<open>simp add: reads_def\<close>)

subsection \<open>The round trip\<close>

text \<open>
  The values that have a text: strings and keys are UTF-8, integers fit into 64 bits (with or
  without a sign), other numbers are doubles, and no key occurs twice, as in every object of
  \<open>std::map\<close>.
\<close>

fun json_ok :: "json \<Rightarrow> bool" where
  "json_ok (JObj kvs) \<longleftrightarrow> distinct (map fst kvs) \<and> list_all (\<lambda>(k, v). utf8_valid k \<and> json_ok v) kvs"
| "json_ok (JArr vs) \<longleftrightarrow> list_all json_ok vs"
| "json_ok (JStr s) \<longleftrightarrow> utf8_valid s"
| "json_ok (JNum n) \<longleftrightarrow> - (2 ^ 63) \<le> n \<and> n < 2 ^ 64"
| "json_ok (JFloat q) \<longleftrightarrow> is_double q"
| "json_ok v \<longleftrightarrow> True"

text \<open>The same value with its members in the order of their keys.\<close>

fun by_keys :: "json \<Rightarrow> json" where
  "by_keys (JObj kvs) = JObj (map (\<lambda>(k, v). (k, by_keys v)) (sort_key fst kvs))"
| "by_keys (JArr vs) = JArr (map by_keys vs)"
| "by_keys v = v"

lemma those_map:
  "(\<And>x. x \<in> set xs \<Longrightarrow> \<exists>t. f x = Some t \<and> P t (g x)) \<Longrightarrow> \<exists>ts. those (map f xs) = Some ts \<and> list_all2 P ts (map g xs)"
proof (induction xs)
  case (Cons x xs)
  then obtain t ts where "f x = Some t" "P t (g x)" "those (map f xs) = Some ts" "list_all2 P ts (map g xs)"
    by (meson list.set_intros)
  then show ?case by simp
qed simp

lemma those_none: "those (map f xs) = None \<longleftrightarrow> (\<exists>x \<in> set xs. f x = None)"
  by (induction xs) (auto split: option.split)

text \<open>A value can be written when all its strings are UTF-8, and only then.\<close>

fun strings_ok :: "json \<Rightarrow> bool" where
  "strings_ok (JObj kvs) \<longleftrightarrow> list_all (\<lambda>(k, v). utf8_valid k \<and> strings_ok v) kvs"
| "strings_ok (JArr vs) \<longleftrightarrow> list_all strings_ok vs"
| "strings_ok (JStr s) \<longleftrightarrow> utf8_valid s"
| "strings_ok v \<longleftrightarrow> True"

lemma dump_outcome: "dump v = None \<longleftrightarrow> \<not> strings_ok v"
proof (induction v rule: dump.induct)
  case (1 kvs)
  have "dump_member k (dump v) = None \<longleftrightarrow> \<not> (utf8_valid k \<and> strings_ok v)" if "(k, v) \<in> set kvs" for k v
  proof -
    have "dump v = None \<longleftrightarrow> \<not> strings_ok v" using 1 [of "(k, v)" k v] that by simp
    then show ?thesis by (auto simp: dump_member_def dump_string_valid)
  qed
  then show ?case by (force simp: those_none list_all_iff)
next
  case (2 vs)
  then show ?case by (auto simp: those_none list_all_iff)
qed (simp_all add: dump_string_valid)

lemma json_ok_strings: "json_ok v \<Longrightarrow> strings_ok v"
  by (induction v rule: json_ok.induct) (auto simp: list_all_iff)

lemma dump_reads:
  "json_ok v \<Longrightarrow> \<exists>t. dump v = Some t \<and> reads t (by_keys v)"
proof (induction v rule: dump.induct)
  case (1 kvs)
  let ?f = "\<lambda>(k, v). dump_member k (dump v)" and ?g = "\<lambda>(k, v). (k, by_keys v)"
  have "\<exists>ms. those (map ?f (sort_key fst kvs)) = Some ms \<and> list_all2 member_reads ms (map ?g (sort_key fst kvs))"
  proof (rule those_map)
    fix x assume x: "x \<in> set (sort_key fst kvs)"
    obtain k v where kv: "x = (k, v)" by fastforce
    have "utf8_valid k" "json_ok v" using 1(2) x kv by (auto simp: list_all_iff)
    moreover from this obtain t where "dump v = Some t" "reads t (by_keys v)" using 1(1) [OF x] kv by auto
    ultimately show "\<exists>t. ?f x = Some t \<and> member_reads t (?g x)"
      by (auto simp: kv dump_member_def dump_string_valid member_reads_def)
  qed
  then obtain ms where ms: "those (map ?f (sort_key fst kvs)) = Some ms" "list_all2 member_reads ms (map ?g (sort_key fst kvs))" by blast
  have "mset (map fst (sort_key fst kvs)) = mset (map fst kvs)" by simp
  then have "distinct (map fst (sort_key fst kvs))" using 1(2) mset_eq_imp_distinct_iff by fastforce
  moreover have "map fst (map ?g (sort_key fst kvs)) = map fst (sort_key fst kvs)" by auto
  ultimately have "distinct (map fst (map ?g (sort_key fst kvs)))" by (simp only:)
  from reads_object [OF ms(2) this] show ?case using ms(1) by simp
next
  case (2 vs)
  have "\<exists>ts. those (map dump vs) = Some ts \<and> list_all2 reads ts (map by_keys vs)"
    using 2 by (intro those_map) (simp add: list_all_iff)
  then show ?case using reads_array by fastforce
qed (auto simp: dump_string_valid reads_string reads_literals reads_integer reads_double)

lemma reads_parse:
  assumes "reads t v"
  shows "json_parse t = Some v"
proof -
  have "t \<noteq> []" "hd t \<noteq> CHR 0xEF" using assms by (simp_all add: reads_def)
  then have "skip_bom t = Some t" by (cases t) (simp_all add: skip_bom_def)
  moreover obtain tok s1 where "scan (t @ []) = (tok, s1)" "parse_value tok s1 [] = parse_state v [] []"
    by (rule readsE [OF assms, of "[]" "[]"]) (simp, blast)
  ultimately show ?thesis by (simp add: json_parse_def first_token_def scan_def)
qed

text \<open>C6: The text of a value is read as the same value: for every value whose strings are UTF-8, whose
  integers fit into 64 bits, whose other numbers are doubles, and whose objects have no key twice,
  \<open>dump\<close> succeeds, and \<open>parse\<close> reads its text as that value with its members in the order of
  their keys.\<close>

theorem json_round_trip:
  assumes "json_ok v"
  shows "\<exists>t. dump v = Some t \<and> json_parse t = Some (by_keys v)"
  using dump_reads [OF assms] reads_parse by blast

theorem json_round_trip_witness:
  "\<exists>t. dump (JObj [(''id'', JStr [CHR 0x22, CHR 0x0A]), (''head'', JArr [JNum (- 120), JFloat 3])]) = Some t \<and>
     json_parse t = Some (JObj [(''head'', JArr [JNum (- 120), JFloat 3]), (''id'', JStr [CHR 0x22, CHR 0x0A])])"
proof -
  have "is_double 3" using to_double_int [of 3] by (simp add: is_double_def)
  then show ?thesis
    using json_round_trip [of "JObj [(''id'', JStr [CHR 0x22, CHR 0x0A]), (''head'', JArr [JNum (- 120), JFloat 3])]"]
    by (simp add: less_char_def)
qed

subsection \<open>What is read can be written\<close>

fun token_ok :: "token_type \<Rightarrow> bool" where
  "token_ok (value_string v) \<longleftrightarrow> utf8_valid v"
| "token_ok (value_unsigned n) \<longleftrightarrow> json_ok (JNum n)"
| "token_ok (value_integer n) \<longleftrightarrow> json_ok (JNum n)"
| "token_ok (value_float (Some q)) \<longleftrightarrow> is_double q"
| "token_ok t \<longleftrightarrow> True"

fun frame_ok :: "frame \<Rightarrow> bool" where
  "frame_ok (in_array xs) \<longleftrightarrow> list_all json_ok xs"
| "frame_ok (in_object kvs k) \<longleftrightarrow> utf8_valid k \<and> json_ok (JObj kvs)"

lemma number_token_ok: "buf \<noteq> [] \<Longrightarrow> (ty = type_unsigned \<longrightarrow> hd buf \<noteq> CHR ''-'') \<Longrightarrow> token_ok (number_token ty buf)"
  by (cases buf; cases "strtod buf")
    (auto simp: number_token_def decimal_int_def strtod_def Let_def dest: to_double_is_double)

lemma number_loop_ok:
  "number_loop st ty buf s = (t, s') \<Longrightarrow> buf \<noteq> [] \<Longrightarrow> (ty = type_unsigned \<longrightarrow> hd buf \<noteq> CHR ''-'') \<Longrightarrow> token_ok t"
proof (induction st ty buf s rule: number_loop.induct)
  case (1 st ty buf)
  then show ?case using number_token_ok [of buf ty] by (auto split: if_splits)
next
  case (2 st ty buf c s)
  show ?case
  proof (cases "number_next st c")
    case (Goto st')
    then show ?thesis using 2 by (auto simp: enter_type_def hd_append)
  next
    case Done
    then show ?thesis using 2 number_token_ok [of buf ty] by auto
  qed (use 2 in auto)
qed

lemma scan_literal_ok: "scan_literal w r s = (t, s') \<Longrightarrow> token_ok r \<Longrightarrow> token_ok t"
  by (auto simp: scan_literal_def split: if_splits)

lemma scan_string_kind: "scan_string buf s = (t, s') \<Longrightarrow> t = parse_error \<or> (\<exists>v. t = value_string v)"
  by (induction buf s rule: scan_string.induct) (auto split: if_splits option.splits)

lemma scan_ok:
  assumes "scan s = (t, s')"
  shows "token_ok t"
proof (cases "dropWhile is_space s")
  case (Cons c r)
  then have *: "scan_char c r = (t, s')" using assms by (simp add: scan_def)
  have str: "scan_string [] r = (u, s'') \<Longrightarrow> token_ok u" for u s''
    using scan_string_valid [of "[]" r] by (cases u) (auto dest: scan_string_kind)
  show ?thesis
    using * str number_loop_ok
    by (auto simp: scan_char_def scan_number_def is_digit_def split: if_splits elim: scan_literal_ok)
next
  case Nil
  then show ?thesis using assms unfolding scan_def Nil by auto
qed

lemma parse_key_ok: "parse_key (t, s) = Some (k, s') \<Longrightarrow> token_ok t \<Longrightarrow> utf8_valid k"
  by (cases t) (auto split: prod.splits if_splits)

lemma update_members: "set (AList.update k v kvs) \<subseteq> insert (k, v) (set kvs)"
  by (induction kvs) auto

lemma handle_value_ok: "json_ok v \<Longrightarrow> frame_ok f \<Longrightarrow> frame_ok (handle_value v f)"
proof (cases f)
  case (in_object kvs k)
  assume "json_ok v" "frame_ok f"
  moreover have "set (AList.update k v kvs) \<subseteq> insert (k, v) (set kvs)" by (rule update_members)
  ultimately show ?thesis
    by (auto simp: in_object handle_value_def list_all_iff distinct_update)
qed (simp add: handle_value_def)

lemma end_frame_ok: "frame_ok f \<Longrightarrow> json_ok (snd (end_frame f))"
  by (cases f) auto

lemma next_frame_ok: "next_frame f s = Some (f', s') \<Longrightarrow> frame_ok f \<Longrightarrow> frame_ok f'"
  using parse_key_ok [of "fst (scan s)" "snd (scan s)"] scan_ok [of s "fst (scan s)" "snd (scan s)"]
  by (cases f) auto

lemma parse_ok:
  "token_ok t \<Longrightarrow> list_all frame_ok st \<Longrightarrow> parse_value t s st = Some (v, s') \<Longrightarrow> json_ok v"
  "json_ok u \<Longrightarrow> list_all frame_ok st \<Longrightarrow> parse_state u s st = Some (v, s') \<Longrightarrow> json_ok v"
proof (induction t s st and u s st arbitrary: v s' and v s' rule: parse_value_parse_state.induct)
  case (1 s st)
  obtain t s1 where t: "scan s = (t, s1)" by fastforce
  show ?case
  proof (cases "t = end_object")
    case True
    then show ?thesis using 1 t by auto
  next
    case False
    then obtain k s2 where k: "parse_key (t, s1) = Some (k, s2)" using 1(5) t by (auto split: option.splits)
    obtain t' s3 where t': "scan s2 = (t', s3)" by fastforce
    have "utf8_valid k" using parse_key_ok [OF k] scan_ok [OF t] by simp
    then show ?thesis using 1(2) [OF t [symmetric] False k refl t' [symmetric]] 1(4,5) False t k t' scan_ok [OF t'] by simp
  qed
next
  case (2 s st)
  obtain t s1 where t: "scan s = (t, s1)" by fastforce
  show ?case
  proof (cases "t = end_array")
    case True
    then show ?thesis using 2 t by auto
  next
    case False
    then show ?thesis using 2(2) [OF t [symmetric] False] 2(4,5) t scan_ok [OF t] by simp
  qed
next
  case (12 u s f st)
  obtain t s1 where t: "scan s = (t, s1)" by fastforce
  show ?case
  proof (cases "t = value_separator")
    case True
    then obtain f' s2 where f': "next_frame (handle_value u f) s1 = Some (f', s2)" using 12(5) t by (auto split: option.splits)
    obtain t' s3 where t': "scan s2 = (t', s3)" by fastforce
    have "frame_ok f'" using next_frame_ok [OF f'] handle_value_ok 12(3,4) by simp
    then show ?thesis using 12(1) [OF t [symmetric] True f' refl t' [symmetric]] 12(4,5) True t f' t' scan_ok [OF t'] by simp
  next
    case False
    then show ?thesis using 12 t end_frame_ok handle_value_ok by (auto split: if_splits)
  qed
qed auto

lemma parsed_ok:
  assumes "json_parse text = Some v"
  shows "json_ok v"
proof -
  obtain t s where t: "first_token text = (t, s)" by fastforce
  then have "token_ok t" by (auto simp: first_token_def scan_ok split: option.splits)
  moreover obtain s' where "parse_value t s [] = Some (v, s')"
    using assms t by (auto simp: json_parse_def split: option.splits if_splits)
  ultimately show ?thesis using parse_ok(1) [of t "[]" s v s'] by simp
qed

text \<open>C32: Every value that \<open>json::parse\<close> reads is one that can be written: its strings are UTF-8 (also when they
  come from escapes, surrogate pairs included), its integers fit into 64 bits, its other numbers
  are doubles and its keys are distinct. So \<open>dump\<close> does not throw for it, and the text it writes is
  read as the same value again.\<close>

theorem parsed_can_be_written:
  assumes "json_parse text = Some v"
  shows "json_ok v \<and> Option.bind (dump v) json_parse = Some (by_keys v)"
proof -
  have ok: "json_ok v" by (rule parsed_ok [OF assms])
  then obtain t where "dump v = Some t" "reads t (by_keys v)" using dump_reads by blast
  then show ?thesis using ok reads_parse by simp
qed

theorem parsed_can_be_written_witness:
  "json_parse (CHR 0x22 # [CHR 0x5C] @ ''u00e9'' @ [CHR 0x22]) = Some (JStr [CHR 0xC3, CHR 0xA9]) \<and>
   Option.bind (dump (JStr [CHR 0xC3, CHR 0xA9])) json_parse = Some (JStr [CHR 0xC3, CHR 0xA9])"
proof -
  have c: "char_of (195 :: nat) = CHR 0xC3" "char_of (169 :: nat) = CHR 0xA9" by code_simp+
  have "json_parse (CHR 0x22 # [CHR 0x5C] @ ''u00e9'' @ [CHR 0x22]) = Some (JStr [CHR 0xC3, CHR 0xA9])"
    by (simp add: json_parse_def first_token_def skip_bom_def scan_unicode_def get_codepoint_def hex_value_def
        codepoint_bytes_def push_bit_eq_mult drop_bit_eq_div and.commute [of _ 63] and_masks or_leads c)
  from this parsed_can_be_written [OF this] show ?thesis by simp
qed

end
