(* ===== verification/Ws_Client.thy ===== *)
theory Ws_Client
  imports Json_Text
begin

section \<open>One exchange with the server: socket/ws\_client.cpp\<close>

text \<open>
  \<open>ws_client_launch\<close> writes a packet to a new WebSocket connection and reads one message back.
  The calls of boost are a \<open>transport\<close>: each may throw (\<open>None\<close>, or false), and what is read may depend
  on what was written. Every exception is caught, and then the answer is a null value. The
  message is handed to the parser as a C string.
\<close>

type_synonym endpoint = "string \<times> nat"

record transport =
  resolve :: "string \<Rightarrow> string \<Rightarrow> endpoint list option"
  connect_to :: "endpoint list \<Rightarrow> endpoint option"
  handshake :: "string \<Rightarrow> string \<Rightarrow> bool"
  write_text :: "string \<Rightarrow> bool"
  read_answer :: "string \<Rightarrow> string option"
  close_normally :: bool

definition exchange :: "transport \<Rightarrow> string \<Rightarrow> string \<Rightarrow> string \<Rightarrow> string option" where
  "exchange tr host port text =
     Option.bind (resolve tr host port) (\<lambda>results.
     Option.bind (connect_to tr results) (\<lambda>ep.
       if \<not> handshake tr (host @ '':'' @ nat_string (snd ep)) ''/'' then None
       else if \<not> write_text tr text then None
       else Option.bind (read_answer tr text) (\<lambda>buffer. if \<not> close_normally tr then None else Some buffer)))"

definition ws_client_launch :: "transport \<Rightarrow> string \<Rightarrow> string \<Rightarrow> json \<Rightarrow> json" where
  "ws_client_launch tr host port packet =
     (case Option.bind (dump packet) (\<lambda>text.
           Option.bind (exchange tr host port text) (\<lambda>buffer. json_parse (c_str buffer))) of
        None \<Rightarrow> JNull
      | Some outJs \<Rightarrow> outJs)"

text \<open>Whatever the server answers, the client's value can be written again.\<close>

lemma ws_client_launch_ok: "json_ok (ws_client_launch tr host port packet)"
  using parsed_ok by (auto simp: ws_client_launch_def split: option.split bind_splits)

text \<open>An exchange with a server that answers carries the packet over and the answer back: the server is
  sent a text that is read as the packet with its members in the order of their keys, and the
  value the client hands on is what the server's message up to its first null byte is read as. It
  is null when the message is not a JSON text.\<close>

theorem exchange_transmits:
  assumes "json_ok packet" and "\<And>text. exchange tr host port text = Some (server text)"
  shows "\<exists>text. json_parse text = Some (by_keys packet) \<and>
    ws_client_launch tr host port packet = (case json_parse (c_str (server text)) of None \<Rightarrow> JNull | Some v \<Rightarrow> v)"
proof -
  obtain t where "dump packet = Some t" "json_parse t = Some (by_keys packet)"
    using dump_reads [OF assms(1)] reads_parse by blast
  then show ?thesis using assms(2) by (auto simp: ws_client_launch_def)
qed

text \<open>A server that sends back what it is sent.\<close>

definition echo_server :: transport where
  "echo_server = \<lparr>resolve = \<lambda>host port. Some [(host, 8080)], connect_to = \<lambda>results. Some (hd results), handshake = \<lambda>_ _. True,
     write_text = \<lambda>_. True, read_answer = Some, close_normally = True\<rparr>"

theorem exchange_transmits_witness:
  "\<exists>text. json_parse text = Some (JObj [(''head'', JNum 2), (''id'', JStr ''CU1'')]) \<and>
     ws_client_launch echo_server ''localhost'' ''8080'' (JObj [(''id'', JStr ''CU1''), (''head'', JNum 2)]) =
       (case json_parse (c_str text) of None \<Rightarrow> JNull | Some v \<Rightarrow> v)"
  using exchange_transmits [of "JObj [(''id'', JStr ''CU1''), (''head'', JNum 2)]" echo_server "''localhost''"
      "''8080''" id]
  by (simp add: echo_server_def exchange_def less_char_def)

end
