(* ===== verification/Socket_Task.thy ===== *)
theory Socket_Task
  imports Sender Ws_Client
begin

section \<open>The socket thread and the exchanges with the server: socket/socket.cpp\<close>

text \<open>
  \<open>socket_task\<close> reads the socket's status, takes a packet and hands it to an exchange thread in
  normal or quick-send mode. Other threads push packages, match acknowledgements and end
  exchanges at any time between its three calls, so one pass of its loop is three steps of a
  step relation, in which an exchange may end with any transport. What the receiver does with the
  answer (\<open>init_receiver\<close>) is a parameter of \<open>launch_client_socket\<close>.
\<close>

datatype SocType = NORMAL | QUICKSEND

record JsonContainer =
  jc_packet :: json
  jc_socType :: SocType

fun socType_status :: "SocType \<Rightarrow> SocketStatus" where
  "socType_status NORMAL = SOC_NORMAL_MODE"
| "socType_status QUICKSEND = SOC_QUICKSEND_MODE"

text \<open>The packet is written to the log first, outside of any \<open>try\<close>: one that is not UTF-8 ends the program.\<close>

definition launch_client_socket ::
  "transport \<Rightarrow> string \<Rightarrow> string \<Rightarrow> (json \<Rightarrow> 'w \<Rightarrow> 'w) \<Rightarrow> JsonContainer \<Rightarrow> 'w \<Rightarrow> Socket \<Rightarrow> ('w \<times> Socket) result"
where
  "launch_client_socket tr host port init_receiver jsonContainer w soc =
     (if dump (jc_packet jsonContainer) = None then Inl UncaughtException
      else let packet = ws_client_launch tr host port (jc_packet jsonContainer); w' = init_receiver packet w in
        if jc_socType jsonContainer = NORMAL then Inr (w', socket_resetFlag SOC_NORMAL_MODE soc)
        else Inr (w', socket_resetFlag SOC_QUICKSEND_MODE soc))"

lemma launch_flags:
  "launch_client_socket tr host port init_receiver c w soc = Inr (w', soc') \<Longrightarrow>
   soc' = socket_resetFlag (socType_status (jc_socType c)) soc"
  by (cases "jc_socType c") (auto simp: launch_client_socket_def Let_def split: if_splits)

text \<open>The end of a pass: the exchange that is started, if any.\<close>

definition dispatch :: "int \<Rightarrow> json \<Rightarrow> SenderSink \<Rightarrow> Socket \<Rightarrow> JsonContainer option \<times> Socket" where
  "dispatch socStatus upPacket sink soc =
     (if \<not> status_has socStatus SOC_NORMAL_MODE
      then (Some \<lparr>jc_packet = upPacket, jc_socType = NORMAL\<rparr>, socket_setFlag SOC_NORMAL_MODE soc)
      else if \<not> status_has socStatus SOC_QUICKSEND_MODE \<and> isSenderInitilized sink
      then (Some \<lparr>jc_packet = upPacket, jc_socType = QUICKSEND\<rparr>, socket_setFlag SOC_QUICKSEND_MODE soc)
      else (None, soc))"

text \<open>The condition on which \<open>Socket::exit\<close> goes on waiting.\<close>

definition socket_exit_waits :: "SenderSink \<Rightarrow> bool" where
  "socket_exit_waits sink \<longleftrightarrow> sink_isEmpty sink = 0"

text \<open>\<open>Socket::exit\<close>, which is meant to wait until all packets are sent, never waits:
  \<open>isEmpty\<close> answers 1 however many packages are queued.\<close>

theorem socket_exit_never_waits: "\<not> socket_exit_waits sink"
  by (simp add: socket_exit_waits_def sink_isEmpty_def)

subsection \<open>The step relation\<close>

datatype phase = Idle | StatusRead int | Holding int json

record link =
  lk_sink :: SenderSink
  lk_soc :: Socket
  lk_phase :: phase
  flights :: "JsonContainer list"
  popped :: "json list"
  launched :: "json list"
  dropped :: "json list"

definition init_link :: link where
  "init_link = \<lparr>lk_sink = new_SenderSink, lk_soc = new_Socket, lk_phase = Idle, flights = [],
     popped = [], launched = [], dropped = []\<rparr>"

inductive link_step :: "link \<Rightarrow> link \<Rightarrow> bool" where
  read_status: "lk_phase l = Idle \<Longrightarrow> \<not> getSocketStopStatus (lk_soc l) \<Longrightarrow>
    link_step l (l\<lparr>lk_phase := StatusRead (getSocketStatus (lk_soc l))\<rparr>)"
| pop_packet: "lk_phase l = StatusRead st \<Longrightarrow>
    popPacket stats wid (lk_sink l) (lk_soc l) = Some (Inr (p, sink', soc')) \<Longrightarrow>
    link_step l (l\<lparr>lk_phase := Holding st p, lk_sink := sink', lk_soc := soc', popped := popped l @ [p]\<rparr>)"
| launch: "lk_phase l = Holding st p \<Longrightarrow> dispatch st p (lk_sink l) (lk_soc l) = (Some c, soc') \<Longrightarrow>
    link_step l (l\<lparr>lk_phase := Idle, lk_soc := soc', flights := flights l @ [c], launched := launched l @ [p]\<rparr>)"
| drop_packet: "lk_phase l = Holding st p \<Longrightarrow> dispatch st p (lk_sink l) (lk_soc l) = (None, soc') \<Longrightarrow>
    link_step l (l\<lparr>lk_phase := Idle, lk_soc := soc', dropped := dropped l @ [p]\<rparr>)"
| exchange_ends: "flights l = fs @ c # gs \<Longrightarrow>
    launch_client_socket tr host port (\<lambda>_ w. w) c () (lk_soc l) = Inr ((), soc') \<Longrightarrow>
    link_step l (l\<lparr>lk_soc := soc', flights := fs @ gs\<rparr>)"
| package_pushed: "pushPacket dat tid st prio (lk_sink l) = Inr (rc, sink') \<Longrightarrow>
    link_step l (l\<lparr>lk_sink := sink'\<rparr>)"
| ack_matched: "matchItemInAwaitStack code tid (lk_sink l) = Inr (rc, sink') \<Longrightarrow>
    link_step l (l\<lparr>lk_sink := sink'\<rparr>)"

inductive_cases link_stepE: "link_step l l'"

inductive link_reachable :: "link \<Rightarrow> bool" where
  init: "link_reachable init_link"
| step: "link_reachable l \<Longrightarrow> link_step l l' \<Longrightarrow> link_reachable l'"

subsection \<open>Invariant\<close>

definition mode_flights :: "SocType \<Rightarrow> link \<Rightarrow> JsonContainer list" where
  "mode_flights t l = filter (\<lambda>c. jc_socType c = t) (flights l)"

fun seen_status :: "phase \<Rightarrow> int option" where
  "seen_status Idle = None"
| "seen_status (StatusRead st) = Some st"
| "seen_status (Holding st p) = Some st"

fun held :: "phase \<Rightarrow> json list" where
  "held (Holding st p) = [p]"
| "held _ = []"

text \<open>
  An exchange in a mode keeps the mode's flag set; while the socket thread goes on with a status
  in which the mode was free, no exchange in that mode is under way.
\<close>

definition mode_ok :: "SocType \<Rightarrow> link \<Rightarrow> bool" where
  "mode_ok t l \<longleftrightarrow> length (mode_flights t l) \<le> 1 \<and>
     (mode_flights t l \<noteq> [] \<longrightarrow> socket_flag (socType_status t) (lk_soc l)) \<and>
     (\<forall>st. seen_status (lk_phase l) = Some st \<and> \<not> status_has st (socType_status t) \<longrightarrow> mode_flights t l = [])"

definition link_inv :: "link \<Rightarrow> bool" where
  "link_inv l \<longleftrightarrow> fs_inv (fwdStack (lk_sink l)) \<and> mode_ok NORMAL l \<and> mode_ok QUICKSEND l \<and>
     length (filter is_handshake (popped l)) = (if handshakeSent (lk_sink l) then 1 else 0) \<and>
     mset (popped l) = mset (launched l) + mset (dropped l) + mset (held (lk_phase l))"

lemma socket_after_flags: "socket_flag f soc \<Longrightarrow> socket_flag f (socket_after st soc)"
  by (cases f) (simp_all add: socket_after_def)

lemma popPacket_outcome:
  assumes inv: "fs_inv (fwdStack sink)" and pop: "popPacket stats wid sink soc = Some (Inr (p, sink', soc'))"
  shows "fs_inv (fwdStack sink')" and "\<And>f. socket_flag f soc \<Longrightarrow> socket_flag f soc'"
    and "is_handshake p \<longleftrightarrow> \<not> handshakeSent sink \<and> handshakeSent sink'"
    and "handshakeSent sink \<Longrightarrow> handshakeSent sink'"
proof -
  have next_ok: "fs_inv (fwdStack s') \<and> (\<forall>f. socket_flag f soc \<longrightarrow> socket_flag f c) \<and> \<not> is_handshake q \<and>
      handshakeSent s' = handshakeSent s"
    if sn: "send_next stats w s soc = Inr (q, s', c)" and s: "fwdStack s = fwdStack sink" for w s q s' c
  proof -
    obtain item fs' where "popForwardStack (fwdStack s) = Inr (item, fs')"
        "s' = s\<lparr>fwdStack := fs'\<rparr>" "c = socket_after (fp_statusCode item) soc" "\<not> is_handshake q"
      using send_next_outcome [of s stats w soc] inv sn s by auto
    moreover from this(1) have "fs_inv fs'" using popForwardStack_outcome [of "fwdStack s"] inv s by auto
    ultimately show ?thesis using socket_after_flags by auto
  qed
  have null: "\<not> is_handshake JNull" by (simp add: is_handshake_def packet_head_of_def json_int_def)
  have hand: "is_handshake (JObj [(''head'', JNum P_HANDSHAKE), (''id'', x)])" for x
    by (simp add: is_handshake_def packet_head_of_def)
  consider (first) "wid 0 = []" "\<not> handshakeSent sink"
    | (wait) k where "wid 0 = []" "handshakeSent sink" "wait_worker_id wid 1 = Some k"
    | (known) "wid 0 \<noteq> []"
    using pop by (auto simp: popPacket_def split: if_splits option.splits)
  then have "fs_inv (fwdStack sink') \<and> (\<forall>f. socket_flag f soc \<longrightarrow> socket_flag f soc') \<and>
      (is_handshake p \<longleftrightarrow> \<not> handshakeSent sink \<and> handshakeSent sink') \<and>
      (handshakeSent sink \<longrightarrow> handshakeSent sink')"
  proof cases
    case first
    then show ?thesis using pop inv hand by (auto simp: popPacket_def)
  next
    case (wait k)
    let ?s = "sink\<lparr>initSender := setFlag (initSender sink)\<rparr>"
    have "send_next stats (wid (k + 3)) ?s soc = Inr (p, sink', soc') \<or> (p, sink', soc') = (JNull, sink, soc)"
      using pop wait by (auto simp: popPacket_def split: if_splits)
    then show ?thesis using next_ok [of "wid (k + 3)" ?s p sink' soc'] inv null wait(2) by auto
  next
    case known
    then have "send_next stats (wid 1) sink soc = Inr (p, sink', soc')" using pop by (simp add: popPacket_def)
    then show ?thesis using next_ok by blast
  qed
  then show "fs_inv (fwdStack sink')" "\<And>f. socket_flag f soc \<Longrightarrow> socket_flag f soc'"
    "is_handshake p \<longleftrightarrow> \<not> handshakeSent sink \<and> handshakeSent sink'"
    "handshakeSent sink \<Longrightarrow> handshakeSent sink'" by auto
qed

lemma mode_ok_read:
  "mode_ok t l \<Longrightarrow> mode_ok t (l\<lparr>lk_phase := StatusRead (getSocketStatus (lk_soc l))\<rparr>)"
  by (auto simp: mode_ok_def mode_flights_def getSocketStatus_has)

lemma mode_ok_phase:
  assumes "mode_ok t l" and "flights l' = flights l" and "seen_status (lk_phase l') \<in> {None, seen_status (lk_phase l)}"
    and "socket_flag (socType_status t) (lk_soc l) \<Longrightarrow> socket_flag (socType_status t) (lk_soc l')"
  shows "mode_ok t l'"
  using assms unfolding mode_ok_def mode_flights_def by auto

lemma dispatch_Some:
  assumes "dispatch st p sink soc = (Some c, soc')"
  shows "jc_packet c = p" and "\<not> status_has st (socType_status (jc_socType c))"
    and "soc' = socket_setFlag (socType_status (jc_socType c)) soc"
  using assms by (auto simp: dispatch_def split: if_splits)

lemma mode_ok_launch:
  assumes ok: "mode_ok t l" and phase: "lk_phase l = Holding st p"
    and d: "dispatch st p (lk_sink l) (lk_soc l) = (Some c, soc')"
  shows "mode_ok t (l\<lparr>lk_phase := Idle, lk_soc := soc', flights := flights l @ [c], launched := launched l @ [p]\<rparr>)"
proof (cases "jc_socType c = t")
  case True
  then have "mode_flights t l = []"
    using ok phase dispatch_Some(2) [OF d] by (auto simp: mode_ok_def)
  then show ?thesis
    using True dispatch_Some(3) [OF d] by (cases t) (auto simp: mode_ok_def mode_flights_def)
next
  case False
  then show ?thesis
    using ok dispatch_Some(3) [OF d]
    by (cases t; cases "jc_socType c") (auto simp: mode_ok_def mode_flights_def)
qed

lemma mode_ok_end:
  assumes ok: "mode_ok t l" and fl: "flights l = fs @ c # gs"
    and e: "launch_client_socket tr host port (\<lambda>_ w. w) c () (lk_soc l) = Inr ((), soc')"
  shows "mode_ok t (l\<lparr>lk_soc := soc', flights := fs @ gs\<rparr>)"
proof -
  have soc': "soc' = socket_resetFlag (socType_status (jc_socType c)) (lk_soc l)"
    by (rule launch_flags [OF e])
  show ?thesis
  proof (cases "jc_socType c = t")
    case True
    then have "mode_flights t (l\<lparr>lk_soc := soc', flights := fs @ gs\<rparr>) = []"
      using ok fl by (auto simp: mode_ok_def mode_flights_def)
    then show ?thesis by (simp add: mode_ok_def)
  next
    case False
    then show ?thesis
      using ok fl soc' by (cases t; cases "jc_socType c") (auto simp: mode_ok_def mode_flights_def)
  qed
qed

lemma link_inv_step:
  assumes "link_step l l'" and inv: "link_inv l"
  shows "link_inv l'"
  using assms(1)
proof cases
  case read_status
  then show ?thesis using inv mode_ok_read by (simp add: link_inv_def)
next
  case (pop_packet st stats wid p sink' soc')
  note pp = popPacket_outcome [OF _ pop_packet(3)]
  have fs: "fs_inv (fwdStack (lk_sink l))" using inv by (simp add: link_inv_def)
  have "mode_ok t l'" if "mode_ok t l" for t
    by (rule mode_ok_phase [OF that]) (use pop_packet pp(2) [OF fs] in auto)
  then show ?thesis
    using inv pop_packet(1,2) pp(1,3,4) [OF fs] by (auto simp: link_inv_def)
next
  case (launch st p c soc')
  then show ?thesis using inv mode_ok_launch by (auto simp: link_inv_def)
next
  case (drop_packet st p soc')
  then have same: "soc' = lk_soc l" by (auto simp: dispatch_def split: if_splits)
  have "mode_ok t l'" if "mode_ok t l" for t
    by (rule mode_ok_phase [OF that]) (use drop_packet same in auto)
  then show ?thesis using inv drop_packet by (auto simp: link_inv_def)
next
  case (exchange_ends fs c gs tr host port soc')
  then show ?thesis using inv mode_ok_end by (auto simp: link_inv_def)
next
  case (package_pushed dat tid st prio rc sink')
  have fs: "fs_inv (fwdStack (lk_sink l))" using inv by (simp add: link_inv_def)
  have s': "fs_inv (fwdStack sink')" "handshakeSent sink' = handshakeSent (lk_sink l)"
    using package_pushed(2) fs by (auto simp: pushPacket_eq [OF fs])
  have "mode_ok t l'" if "mode_ok t l" for t
    by (rule mode_ok_phase [OF that]) (use package_pushed in auto)
  then show ?thesis using inv s' package_pushed(1) by (auto simp: link_inv_def)
next
  case (ack_matched code tid rc sink')
  have fs: "fs_inv (fwdStack (lk_sink l))" using inv by (simp add: link_inv_def)
  have aw: "await_inv (awaitStack (fwdStack (lk_sink l)))" using fs by (simp add: fs_inv_def)
  have s': "fs_inv (fwdStack sink')" "handshakeSent sink' = handshakeSent (lk_sink l)"
    using ack_matched(2) fs matchItem_cases [OF aw, of code tid] ack_slot_inv(1) [OF aw]
    by (auto simp: matchItemInAwaitStack_def fs_inv_def split: option.splits if_splits)
  have "mode_ok t l'" if "mode_ok t l" for t
    by (rule mode_ok_phase [OF that]) (use ack_matched in auto)
  then show ?thesis using inv s' ack_matched(1) by (auto simp: link_inv_def)
qed

lemma link_inv_init: "link_inv init_link"
  by (simp add: link_inv_def init_link_def new_SenderSink_def fs_inv_new mode_ok_def mode_flights_def)

lemma link_reachable_inv: "link_reachable l \<Longrightarrow> link_inv l"
  by (induction rule: link_reachable.induct) (auto intro: link_inv_init link_inv_step)

text \<open>C28: However the socket thread, the exchange threads and the pushing threads interleave,
  at most one exchange per mode is under way, its mode's flag stays set until it ends, and
  every packet taken from the sink is held by the socket thread, was handed to one exchange,
  or was dropped. At most one of them is a handshake.\<close>

theorem exchanges_are_exclusive:
  assumes "link_reachable l"
  shows "length (mode_flights t l) \<le> 1 \<and>
     (mode_flights t l \<noteq> [] \<longrightarrow> socket_flag (socType_status t) (lk_soc l)) \<and>
     mset (popped l) = mset (launched l) + mset (dropped l) + mset (held (lk_phase l)) \<and>
     length (filter is_handshake (popped l)) \<le> 1"
  using link_reachable_inv [OF assms] by (cases t) (auto simp: link_inv_def mode_ok_def)

text \<open>A packet that was taken from the sink is dropped exactly when the status read before
  shows normal mode busy and quick-send mode is busy too or the sender is not initialised:
  nothing puts the packet back.\<close>

theorem dispatch_drops_packets:
  "fst (dispatch st p sink soc) = None \<longleftrightarrow>
     status_has st SOC_NORMAL_MODE \<and> (if initSender sink then status_has st SOC_QUICKSEND_MODE else True)"
  by (auto simp: dispatch_def isSenderInitilized_def)

subsection \<open>Losing normal mode\<close>

definition normal_mode_stuck :: "link \<Rightarrow> bool" where
  "normal_mode_stuck l \<longleftrightarrow> wsLock (lk_soc l) \<and> mode_flights NORMAL l = [] \<and>
     (\<forall>st. seen_status (lk_phase l) = Some st \<longrightarrow> status_has st SOC_NORMAL_MODE)"

lemma stuck_frame:
  assumes "normal_mode_stuck l" and "flights l' = flights l"
    and "seen_status (lk_phase l') \<in> {None, seen_status (lk_phase l)}"
    and "wsLock (lk_soc l) \<Longrightarrow> wsLock (lk_soc l')"
  shows "normal_mode_stuck l'"
  using assms by (auto simp: normal_mode_stuck_def mode_flights_def)

lemma stuck_step:
  assumes "link_step l l'" and inv: "link_inv l" and stuck: "normal_mode_stuck l"
  shows "normal_mode_stuck l'"
  using assms(1)
proof cases
  case read_status
  then show ?thesis
    using stuck getSocketStatus_has [of "lk_soc l" SOC_NORMAL_MODE]
    by (auto simp: normal_mode_stuck_def mode_flights_def)
next
  case (pop_packet st stats wid p sink' soc')
  have fs: "fs_inv (fwdStack (lk_sink l))" using inv by (simp add: link_inv_def)
  show ?thesis
    by (rule stuck_frame [OF stuck])
      (use pop_packet popPacket_outcome(2) [OF fs pop_packet(3), of SOC_NORMAL_MODE] in auto)
next
  case (launch st p c soc')
  then have "jc_socType c = QUICKSEND" "soc' = socket_setFlag SOC_QUICKSEND_MODE (lk_soc l)"
    using stuck by (auto simp: normal_mode_stuck_def dispatch_def split: if_splits)
  then show ?thesis using stuck launch(1) by (simp add: normal_mode_stuck_def mode_flights_def)
next
  case (drop_packet st p soc')
  show ?thesis
    by (rule stuck_frame [OF stuck]) (use drop_packet in \<open>auto simp: dispatch_def split: if_splits\<close>)
next
  case (exchange_ends fs c gs tr host port soc')
  then have "jc_socType c \<noteq> NORMAL" using stuck by (auto simp: normal_mode_stuck_def mode_flights_def)
  then show ?thesis
    using stuck exchange_ends launch_flags [OF exchange_ends(3)]
    by (cases "jc_socType c") (auto simp: normal_mode_stuck_def mode_flights_def)
next
  case (package_pushed dat tid st prio rc sink')
  show ?thesis by (rule stuck_frame [OF stuck]) (use package_pushed in auto)
next
  case (ack_matched code tid rc sink')
  show ?thesis by (rule stuck_frame [OF stuck]) (use ack_matched in auto)
qed


text \<open>
  The start of the worker reaches such a state: the handshake goes out in normal mode, its
  exchange ends while the socket thread waits for the identifier, and the packet it then makes
  is blank.
\<close>

definition late_id :: "nat \<Rightarrow> string" where
  "late_id k = (if k = 0 then [] else ''W1'')"

definition handshake_packet :: json where
  "handshake_packet = JObj [(''head'', JNum P_HANDSHAKE), (''id'', JStr ''W000'')]"

definition handshake_sink :: SenderSink where
  "handshake_sink = new_SenderSink\<lparr>handshakeSent := True\<rparr>"

definition handshake_container :: JsonContainer where
  "handshake_container = \<lparr>jc_packet = handshake_packet, jc_socType = NORMAL\<rparr>"

definition after_handshake :: link where
  "after_handshake = init_link\<lparr>lk_sink := handshake_sink, lk_phase := StatusRead 9, lk_soc := new_Socket,
     popped := [handshake_packet], launched := [handshake_packet]\<rparr>"

lemma after_handshake_reachable: "link_reachable after_handshake"
proof -
  let ?l1 = "init_link\<lparr>lk_phase := StatusRead 1\<rparr>"
  let ?l2 = "init_link\<lparr>lk_phase := Holding 1 handshake_packet, lk_sink := handshake_sink, popped := [handshake_packet]\<rparr>"
  let ?l3 = "init_link\<lparr>lk_sink := handshake_sink, lk_soc := new_Socket\<lparr>wsLock := True\<rparr>, flights := [handshake_container],
      popped := [handshake_packet], launched := [handshake_packet]\<rparr>"
  let ?l4 = "?l3\<lparr>lk_phase := StatusRead 9\<rparr>"
  have st: "getSocketStatus new_Socket = 1" "getSocketStatus (new_Socket\<lparr>wsLock := True\<rparr>) = 9"
    by (simp_all add: getSocketStatus_def new_Socket_def)
  have "link_step init_link ?l1"
    using link_step.read_status [of init_link] st by (simp add: init_link_def getSocketStopStatus_def new_Socket_def)
  moreover have "popPacket JNull (\<lambda>_. []) new_SenderSink new_Socket = Some (Inr (handshake_packet, handshake_sink, new_Socket))"
    by (simp add: popPacket_def new_SenderSink_def handshake_packet_def handshake_sink_def)
  then have "link_step ?l1 ?l2"
    using link_step.pop_packet [of ?l1 1 JNull "\<lambda>_. []" handshake_packet handshake_sink new_Socket]
    by (simp add: init_link_def)
  moreover have "dispatch 1 handshake_packet handshake_sink new_Socket =
      (Some handshake_container, new_Socket\<lparr>wsLock := True\<rparr>)"
    by (simp add: dispatch_def status_has_def handshake_container_def)
  then have "link_step ?l2 ?l3"
    using link_step.launch [of ?l2 1 handshake_packet handshake_container] by (simp add: init_link_def)
  moreover have "link_step ?l3 ?l4"
    using link_step.read_status [of ?l3] st by (simp add: init_link_def getSocketStopStatus_def new_Socket_def)
  moreover have written: "dump handshake_packet \<noteq> None"
    unfolding dump_outcome by (simp add: handshake_packet_def)
  moreover have "launch_client_socket echo_server [] [] (\<lambda>_ w. w) handshake_container ()
      (new_Socket\<lparr>wsLock := True\<rparr>) = Inr ((), new_Socket)"
    using written by (simp add: launch_client_socket_def handshake_container_def new_Socket_def)
  then have "link_step ?l4 after_handshake"
    using link_step.exchange_ends [of ?l4 "[]" handshake_container "[]" echo_server "[]" "[]" new_Socket]
    by (simp add: init_link_def after_handshake_def)
  ultimately show ?thesis
    using link_reachable.init link_reachable.step by metis
qed

lemma stuck_reachable:
  obtains l where "link_reachable l" and "normal_mode_stuck l"
proof -
  have wait: "wait_worker_id late_id 1 = Some 1"
    by (subst wait_worker_id.simps) (simp add: late_id_def)
  obtain p s' where p: "send_next JNull ''W1'' (handshake_sink\<lparr>initSender := True\<rparr>) new_Socket =
      Inr (p, s', new_Socket\<lparr>wsLock := True\<rparr>)"
    by (simp add: send_next_def handshake_sink_def new_SenderSink_def new_ForwardStack_def popForwardStack_def
        create_packet_outcome socket_after_def new_package_def)
  then have "popPacket JNull late_id handshake_sink new_Socket = Some (Inr (p, s', new_Socket\<lparr>wsLock := True\<rparr>))"
    using wait by (simp add: popPacket_def handshake_sink_def new_SenderSink_def late_id_def)
  then have "link_step after_handshake (after_handshake\<lparr>lk_phase := Holding 9 p, lk_sink := s',
      lk_soc := new_Socket\<lparr>wsLock := True\<rparr>, popped := popped after_handshake @ [p]\<rparr>)"
    (is "link_step _ ?l")
    by (intro link_step.pop_packet) (simp_all add: after_handshake_def)
  then have "link_reachable ?l" using after_handshake_reachable link_reachable.step by blast
  moreover have "normal_mode_stuck ?l"
    by (simp add: normal_mode_stuck_def mode_flights_def after_handshake_def init_link_def status_has_def)
  ultimately show ?thesis by (rule that)
qed

theorem exchanges_are_exclusive_witness:
  "mset (popped after_handshake) = mset (launched after_handshake) + mset (dropped after_handshake)
     + mset (held (lk_phase after_handshake))"
  using exchanges_are_exclusive [OF after_handshake_reachable] by simp


end
