(* ===== verification/Process_Manager.thy ===== *)
theory Process_Manager
  imports Process_Types
begin

section \<open>Process manager: scheduler/process_manager.cpp\<close>

text \<open>
  The process tables live on the heap; \<open>pidVector\<close> holds the pointers of the registered
  ones. Allocation takes the next unused address.
\<close>

record ('p, 'a) proc_mem =
  proc_heap :: "ptr \<rightharpoonup> ('p, 'a) ProcessTable"
  proc_next :: ptr
  pidVector :: "ptr list"

text \<open>The inner loop of \<open>registerProcess\<close>: is a drawn pid taken by a registered table?\<close>

fun pid_scan :: "(ptr \<rightharpoonup> ('p, 'a) ProcessTable) \<Rightarrow> 64 word \<Rightarrow> ptr list \<Rightarrow> bool result" where
  "pid_scan h p [] = Inr False"
| "pid_scan h p (it # its) =
     bindR (deref h (Some it)) (\<lambda>t. if p = pid t then Inr True else pid_scan h p its)"

text \<open>
  \<open>while (exitLoop.isFlagSet())\<close>: the successive values \<open>distr(gen)\<close> yields are a
  parameter. A finite list of draws that is used up while the flag is still set stands for
  a loop that has not returned (\<open>Blocked\<close>).
\<close>

fun pid_loop ::
  "(ptr \<rightharpoonup> ('p, 'a) ProcessTable) \<Rightarrow> ptr list \<Rightarrow> Flag \<Rightarrow> 64 word \<Rightarrow> 64 word list \<Rightarrow> (64 word) result"
where
  "pid_loop h vec exitLoop p draws =
     (if \<not> isFlagSet exitLoop then Inr p
      else (case draws of
          [] \<Rightarrow> Inl Blocked
        | d # ds \<Rightarrow> bindR (pid_scan h d vec) (\<lambda>taken.
            pid_loop h vec (if taken then resetFlag (setFlag exitLoop) else setFlag exitLoop) d ds)))"

declare pid_loop.simps [simp del]

text \<open>
  \<open>registerProcess\<close>: \<open>pid0\<close> is the indeterminate value of the uninitialised local \<open>pid\<close>.
\<close>

definition registerProcess ::
  "64 word \<Rightarrow> 64 word list \<Rightarrow> ('p, 'a, 'z) proc_mem_scheme \<Rightarrow> (ptr \<times> ('p, 'a, 'z) proc_mem_scheme) result"
where
  "registerProcess pid0 draws m =
     bindR (pid_loop (proc_heap m) (pidVector m) (initFlag False) pid0 draws) (\<lambda>p.
       let a = proc_next m in
       Inr (a, m\<lparr>proc_heap := (proc_heap m)(a \<mapsto> new_ProcessTable\<lparr>pid := p\<rparr>),
                 proc_next := Suc a,
                 pidVector := pidVector m @ [a]\<rparr>))"

definition unregisterProcess :: "ptr \<Rightarrow> ('p, 'a, 'z) proc_mem_scheme \<Rightarrow> ('p, 'a, 'z) proc_mem_scheme" where
  "unregisterProcess p m =
     (if p \<in> set (pidVector m)
      then m\<lparr>proc_heap := (proc_heap m)(p := None), pidVector := remove1 p (pidVector m)\<rparr>
      else m)"

subsection \<open>The registry is exactly the live tables\<close>

definition proc_inv :: "('p, 'a, 'z) proc_mem_scheme \<Rightarrow> bool" where
  "proc_inv m \<longleftrightarrow> distinct (pidVector m) \<and> dom (proc_heap m) = set (pidVector m) \<and>
     (\<forall>p \<in> set (pidVector m). p < proc_next m)"

lemma pid_loop_unset [simp]: "pid_loop h vec False p draws = Inr p"
  by (simp add: pid_loop.simps)

lemma registerProcess_eq:
  "registerProcess pid0 draws m =
     Inr (proc_next m,
       m\<lparr>proc_heap := (proc_heap m)(proc_next m \<mapsto> new_ProcessTable\<lparr>pid := pid0\<rparr>),
         proc_next := Suc (proc_next m), pidVector := pidVector m @ [proc_next m]\<rparr>)"
  by (simp add: registerProcess_def Let_def)

lemma proc_inv_fresh: "proc_inv m \<Longrightarrow> proc_heap m (proc_next m) = None"
  by (metis domIff less_irrefl proc_inv_def)

lemma registerProcess_inv:
  assumes inv: "proc_inv m" and reg: "registerProcess pid0 draws m = Inr (a, m')"
  shows "proc_inv m'" and "a \<notin> dom (proc_heap m)" and "dom (proc_heap m') = insert a (dom (proc_heap m))"
proof -
  have a: "a = proc_next m" and m': "dom (proc_heap m') = insert a (dom (proc_heap m))"
    "pidVector m' = pidVector m @ [a]" "proc_next m' = Suc a"
    using reg by (auto simp: registerProcess_eq)
  show fresh: "a \<notin> dom (proc_heap m)" using inv a by (metis less_irrefl proc_inv_def)
  show "dom (proc_heap m') = insert a (dom (proc_heap m))" by (rule m')
  show "proc_inv m'"
    using inv fresh a by (auto simp: proc_inv_def m' less_Suc_eq simp del: domIff)
qed

lemma unregisterProcess_inv: "proc_inv m \<Longrightarrow> proc_inv (unregisterProcess p m)"
  by (auto simp: unregisterProcess_def proc_inv_def)

lemma unregisterProcess_frees:
  "proc_inv m \<Longrightarrow> proc_heap (unregisterProcess p m) = (proc_heap m)(p := None)"
  by (auto simp: unregisterProcess_def proc_inv_def fun_eq_iff)

lemma unregisterProcess_dom:
  "proc_inv m \<Longrightarrow> set (pidVector (unregisterProcess p m)) = set (pidVector m) - {p}"
  by (auto simp: unregisterProcess_def proc_inv_def)

end
