(* ===== verification/Task_Pool.thy ===== *)
theory Task_Pool
  imports Process_Manager Queue_Interface
begin

section \<open>Task pool: scheduler/task_pool.cpp\<close>

text \<open>
  The queue of submitted stages. Every method of \<open>TaskPool\<close> takes and releases its lock
  once, so a method is one atomic step of the model; the lock itself is left out.
  Uninitialised members of \<open>TaskData\<close> are parameters.
\<close>

record TaskData =
  procTable :: "ptr option"
  poolPriority :: TaskPriority
  starveCounter :: "16 word"

definition EXIT_FAILURE :: int where [simp]: "EXIT_FAILURE = 1"

subsection \<open>Operations\<close>

fun get_starve_limit :: "int \<Rightarrow> int" where
  "get_starve_limit prior =
     (if prior = 1 then 4
      else if prior = 2 then 6
      else if prior = 3 then 8
      else 0)"

text \<open>
  The body of the inner loop of \<open>pushTask\<close>. The limit is looked up with the counter as
  argument, and \<open>(*j).poolPriority - 1;\<close> computes a value and drops it.
\<close>

definition starve_step :: "TaskData \<Rightarrow> TaskData" where
  "starve_step j =
     (if uint (starveCounter j) > get_starve_limit (uint (starveCounter j))
      then j\<lparr>starveCounter := 0\<rparr>
      else j\<lparr>starveCounter := starveCounter j + 1\<rparr>)"

text \<open>The outer loop: the new task goes in front of the first task with a smaller value.\<close>

fun push_loop :: "TaskData \<Rightarrow> TaskData list \<Rightarrow> TaskData list" where
  "push_loop taskData [] = [taskData]"
| "push_loop taskData (iteratedData # rest) =
     (if poolPriority iteratedData < poolPriority taskData
      then taskData # map starve_step (iteratedData # rest)
      else iteratedData # push_loop taskData rest)"

definition pushTask :: "TaskData \<Rightarrow> TaskData list \<Rightarrow> int \<times> TaskData list" where
  "pushTask taskData taskSink =
     (if length taskSink = 0 then (0, taskSink @ [taskData])
      else (0, push_loop taskData taskSink))"

text \<open>\<open>popTask\<close> leaves its out-parameter alone when the pool is empty.\<close>

definition popTask :: "TaskData \<Rightarrow> TaskData list \<Rightarrow> int \<times> TaskData \<times> TaskData list" where
  "popTask taskData taskSink =
     (case taskSink of
        [] \<Rightarrow> (EXIT_FAILURE, taskData, taskSink)
      | front # rest \<Rightarrow> (0, front, rest))"

definition isProcessTypeValid :: "nat \<Rightarrow> bool" where
  "isProcessTypeValid ty = (if ty < NR_PROCESS then True else False)"

record ('p, 'a) pool_mem = "('p, 'a) proc_mem" +
  taskSink :: "TaskData list"

text \<open>What \<open>scheduleTask\<close> finds in uninitialised storage, and the random draws it would use.\<close>

record uninit =
  u_pid :: "64 word"
  u_draws :: "64 word list"
  u_priority :: TaskPriority
  u_starve :: "16 word"

definition submit_table ::
  "uninit \<Rightarrow> 'p \<Rightarrow> 'a \<Rightarrow> TaskPriority \<Rightarrow> ('p, 'a, 'z) pool_mem_scheme \<Rightarrow> (int \<times> ('p, 'a, 'z) pool_mem_scheme) result"
where
  "submit_table u newProc arg prio m =
     bindR (registerProcess (u_pid u) (u_draws u) m) (\<lambda>(a, m1).
     bindR (deref (proc_heap m1) (Some a)) (\<lambda>t.
       let m2 = m1\<lparr>proc_heap := (proc_heap m1)(a \<mapsto>
                  t\<lparr>processState := Some newProc, pt_args := Some arg, pt_priority := prio\<rparr>)\<rparr>;
           task = \<lparr>procTable = Some a, poolPriority = prio, starveCounter = u_starve u\<rparr>
       in Inr (0, m2\<lparr>taskSink := snd (pushTask task (taskSink m2))\<rparr>)))"

text \<open>\<open>env\<close> holds the stage structs, which are statically allocated in the source.\<close>

definition scheduleTask ::
  "('p \<Rightarrow> ('p, 'a, 'w) ProcessStates) \<Rightarrow> uninit \<Rightarrow> 'p option \<Rightarrow> 'a option \<Rightarrow> TaskPriority \<Rightarrow>
   ('p, 'a, 'z) pool_mem_scheme \<Rightarrow> (int \<times> ('p, 'a, 'z) pool_mem_scheme) result"
where
  "scheduleTask env u newProc arg prio m =
     (case newProc of
        None \<Rightarrow> Inr (EXIT_FAILURE, m)
      | Some p \<Rightarrow>
          (case arg of
             None \<Rightarrow> Inr (EXIT_FAILURE, m)
           | Some a \<Rightarrow>
               if start_proc (env p) = None \<or> end_proc (env p) = None
                  \<or> \<not> isProcessTypeValid (ps_type (env p))
               then Inr (EXIT_FAILURE, m)
               else submit_table u p a prio m))"

definition reScheduleTask :: "uninit \<Rightarrow> ptr option \<Rightarrow> ('p, 'a, 'z) pool_mem_scheme \<Rightarrow> int \<times> ('p, 'a, 'z) pool_mem_scheme" where
  "reScheduleTask u pt m =
     (0, m\<lparr>taskSink := snd (pushTask
        \<lparr>procTable = pt, poolPriority = u_priority u, starveCounter = u_starve u\<rparr> (taskSink m))\<rparr>)"

definition getScheduledTask :: "TaskData \<Rightarrow> ('p, 'a, 'z) pool_mem_scheme \<Rightarrow> int \<times> TaskData \<times> ('p, 'a, 'z) pool_mem_scheme" where
  "getScheduledTask taskData m =
     (case popTask taskData (taskSink m) of
        (rc, td, sink) \<Rightarrow>
          (if rc \<noteq> 0 then EXIT_FAILURE else 0, td, m\<lparr>taskSink := sink\<rparr>))"

subsection \<open>What the queue looks like from outside\<close>

text \<open>A task without its starvation counter.\<close>

definition task_view :: "TaskData \<Rightarrow> ptr option \<times> TaskPriority" where
  "task_view t = (procTable t, poolPriority t)"

definition pool_view :: "TaskData list \<Rightarrow> (ptr option \<times> TaskPriority) list" where
  "pool_view q = map task_view q"

text \<open>The order the insertion keeps: no task stands in front of one with a greater value.\<close>

definition served_before :: "ptr option \<times> TaskPriority \<Rightarrow> ptr option \<times> TaskPriority \<Rightarrow> bool" where
  "served_before s t \<longleftrightarrow> snd t \<le> snd s"

definition pool_ordered :: "TaskData list \<Rightarrow> bool" where
  "pool_ordered q = sorted_wrt served_before (pool_view q)"

lemma starve_step_sel [simp]:
  "procTable (starve_step t) = procTable t" "poolPriority (starve_step t) = poolPriority t"
  by (simp_all add: starve_step_def)

lemma task_view_starve [simp]: "task_view (starve_step t) = task_view t"
  by (simp add: task_view_def)

lemma pool_view_simps [simp]:
  "pool_view [] = []" "pool_view (t # q) = task_view t # pool_view q"
  "pool_view (q @ r) = pool_view q @ pool_view r"
  "pool_view (map starve_step q) = pool_view q"
  by (simp_all add: pool_view_def)

lemma push_loop_view:
  "pool_view (push_loop t q) =
     takeWhile (\<lambda>s. poolPriority t \<le> snd s) (pool_view q) @ task_view t #
     dropWhile (\<lambda>s. poolPriority t \<le> snd s) (pool_view q)"
  by (induction t q rule: push_loop.induct) (auto simp: task_view_def not_less)

lemma pushTask_view:
  "pool_view (snd (pushTask t q)) =
     takeWhile (\<lambda>s. poolPriority t \<le> snd s) (pool_view q) @ task_view t #
     dropWhile (\<lambda>s. poolPriority t \<le> snd s) (pool_view q)"
  by (simp add: pushTask_def push_loop_view)

lemma pushTask_mset:
  "mset (pool_view (snd (pushTask t q))) = add_mset (task_view t) (mset (pool_view q))"
  by (simp add: pushTask_view mset_takeWhile_dropWhile)

lemma push_loop_ordered: "pool_ordered q \<Longrightarrow> pool_ordered (push_loop t q)"
proof (induction t q rule: push_loop.induct)
  case (1 t)
  then show ?case by (simp add: pool_ordered_def)
next
  case (2 t x xs)
  have "set (pool_view (push_loop t xs)) = insert (task_view t) (set (pool_view xs))"
    by (metis push_loop_view set_append set_ConsD list.set(2) Un_insert_right takeWhile_dropWhile_id)
  with 2 show ?case
    by (auto simp: pool_ordered_def served_before_def task_view_def not_less
        dest: order.strict_implies_order order.trans)
qed

lemma pushTask_ordered: "pool_ordered q \<Longrightarrow> pool_ordered (snd (pushTask t q))"
  by (simp add: pushTask_def push_loop_ordered pool_ordered_def [of "[_]"])

lemma pushTask_fifo:
  assumes "pool_ordered q"
  shows "filter (\<lambda>s. snd s = p) (pool_view (snd (pushTask t q))) =
         filter (\<lambda>s. snd s = p) (pool_view q @ [task_view t])"
proof -
  let ?P = "\<lambda>s. poolPriority t \<le> snd s" and ?f = "filter (\<lambda>s. snd s = p)"
  let ?A = "takeWhile ?P (pool_view q)" and ?B = "dropWhile ?P (pool_view q)"
  have "\<forall>s \<in> set (dropWhile ?P (pool_view q)). \<not> ?P s"
  proof (cases "dropWhile ?P (pool_view q)")
    case Nil
    show ?thesis unfolding Nil by simp
  next
    case (Cons s rest)
    then have "\<not> ?P s" by (metis hd_dropWhile list.distinct(1) list.sel(1))
    moreover have "sorted_wrt served_before (s # rest)"
      using assms Cons by (metis pool_ordered_def sorted_wrt_append takeWhile_dropWhile_id)
    ultimately show ?thesis unfolding Cons by (auto simp: served_before_def)
  qed
  then have empty: "p = poolPriority t \<Longrightarrow> ?f ?B = []"
    unfolding filter_empty_conv by (metis order_refl)
  have "?f (pool_view (snd (pushTask t q))) = ?f ?A @ ?f [task_view t] @ ?f ?B"
    by (simp add: pushTask_view)
  also have "\<dots> = (?f ?A @ ?f ?B) @ ?f [task_view t]"
    using empty by (cases "p = poolPriority t") (simp_all add: task_view_def)
  also have "?f ?A @ ?f ?B = ?f (pool_view q)"
    by (simp only: takeWhile_dropWhile_id flip: filter_append)
  finally show ?thesis by (simp only: filter_append)
qed

subsection \<open>The pool as a task queue\<close>

definition pool_push :: "TaskData \<Rightarrow> TaskData list \<Rightarrow> TaskData list" where
  "pool_push t q = snd (pushTask t q)"

definition pool_pop :: "TaskData list \<Rightarrow> (TaskData \<times> TaskData list) option" where
  "pool_pop q =
     (case popTask \<lparr>procTable = None, poolPriority = DEFAULT_PRIORITY, starveCounter = 0\<rparr> q of
        (rc, t, q') \<Rightarrow> if rc \<noteq> 0 then None else Some (t, q'))"

interpretation pool: task_queue "\<lambda>_. True" "[]" pool_push pool_pop pool_view task_view served_before
  "\<lambda>k s. snd s = snd k"
proof unfold_locales
  show "mset (pool_view (pool_push t q)) = add_mset (task_view t) (mset (pool_view q))" for t q
    by (simp add: pool_push_def pushTask_mset)
  show "sorted_wrt served_before (pool_view (pool_push t q))"
    if "sorted_wrt served_before (pool_view q)" for t q
    using that pushTask_ordered by (simp add: pool_push_def pool_ordered_def)
  show "filter (\<lambda>s. snd s = snd k) (pool_view (pool_push t q)) =
      filter (\<lambda>s. snd s = snd k) (pool_view q @ [task_view t])"
    if "sorted_wrt served_before (pool_view q)" for k t q
    using that by (simp add: pool_push_def pushTask_fifo pool_ordered_def del: filter_append)
  show "pool_pop q = None \<longleftrightarrow> pool_view q = []" for q
    by (auto simp: pool_pop_def popTask_def split: list.splits)
  show "pool_view q = task_view t # pool_view q'" if "pool_pop q = Some (t, q')" for q t q'
    using that by (auto simp: pool_pop_def popTask_def split: list.splits)
qed (simp_all add: pool_view_def)

text \<open>C9: Pushing tasks into an empty pool and popping them again is a stable sort by falling
  priority value: every task comes out once, before all tasks with a smaller value, and tasks of
  one priority in the order they were pushed. Since \<open>NON_PREEMTABLE\<close> has the value 0, the least
  urgent tasks are served first.\<close>

theorem pool_service_order:
  fixes ts :: "TaskData list"
  defines "served \<equiv> map task_view (drainQ pool_pop (length ts) (fold pool_push ts []))"
  shows "served = sort_key (\<lambda>s. - int (priority_value (snd s))) (map task_view ts) \<and>
     sorted_wrt (\<lambda>s t. snd t \<le> snd s) served \<and> mset served = mset (map task_view ts) \<and>
     (\<forall>p. filter (\<lambda>s. snd s = p) served = filter (\<lambda>s. snd s = p) (map task_view ts))"
proof -
  let ?f = "\<lambda>s :: ptr option \<times> TaskPriority. - int (priority_value (snd s))"
  have fifo: "filter (\<lambda>s. snd s = p) served = filter (\<lambda>s. snd s = p) (map task_view ts)" for p
    using pool.fill_drain(3) [of "(None, p)" ts] by (simp add: served_def)
  have order: "sorted_wrt (\<lambda>s t. snd t \<le> snd s) served"
    using pool.fill_drain(1) [of ts] by (simp add: served_def served_before_def [abs_def])
  have once: "mset served = mset (map task_view ts)"
    using pool.fill_drain(2) [of ts] by (simp add: served_def)
  have key: "?f k = ?f s \<longleftrightarrow> snd s = snd k" for k s
    by (cases "snd k"; cases "snd s") simp_all
  have "sort_key ?f (map task_view ts) = served"
  proof (rule properties_for_sort_key)
    show "filter (\<lambda>s. ?f k = ?f s) served = filter (\<lambda>s. ?f k = ?f s) (map task_view ts)" for k
      unfolding key by (rule fifo)
    show "sorted (map ?f served)"
      using order by (simp add: sorted_wrt_map less_eq_TaskPriority_def)
  qed (rule once)
  then show ?thesis using fifo order once by simp
qed

text \<open>A stage submitted as \<open>NON_PREEMTABLE\<close>, the priority the receiver and the finalize
  stages use, always goes behind every waiting task, whatever their priorities, and waits
  there: no counter of a waiting task moves.\<close>

theorem non_preemtable_goes_last:
  "pushTask (t\<lparr>poolPriority := NON_PREEMTABLE\<rparr>) q = (0, q @ [t\<lparr>poolPriority := NON_PREEMTABLE\<rparr>])"
proof -
  have "push_loop u q = q @ [u]" if "poolPriority u = NON_PREEMTABLE" for u
    using that by (induction u q rule: push_loop.induct) (auto simp: not_less)
  then show ?thesis by (auto simp: pushTask_def)
qed

text \<open>The starvation counter of a waiting task is at most 4 once the task has been
  displaced, whatever the uninitialised field held, it returns to 0 at every fifth
  displacement, and no displacement changes the task's priority: a starved task is never
  promoted.\<close>

theorem starvation_never_promotes:
  "uint (starveCounter (starve_step j)) \<le> 4 \<and>
   starveCounter ((starve_step ^^ 5) (j\<lparr>starveCounter := 0\<rparr>)) = 0 \<and>
   poolPriority ((starve_step ^^ n) j) = poolPriority j \<and>
   procTable ((starve_step ^^ n) j) = procTable j"
proof -
  have bound: "uint (starveCounter (starve_step j)) \<le> 4"
  proof (cases "uint (starveCounter j) > get_starve_limit (uint (starveCounter j))")
    case True
    then show ?thesis by (simp add: starve_step_def)
  next
    case False
    moreover have "k \<in> {0, 1, 2, 3}" if "\<not> k > get_starve_limit k" and "0 \<le> k" for k
      using that by (auto split: if_splits)
    ultimately have "uint (starveCounter j) \<in> {0, 1, 2, 3}"
      using uint_ge_0 by blast
    then have "uint (starveCounter j + 1) \<le> 4"
      by (auto simp: uint_word_ariths)
    with False show ?thesis by (simp add: starve_step_def)
  qed
  have "poolPriority ((starve_step ^^ n) j) = poolPriority j \<and> procTable ((starve_step ^^ n) j) = procTable j"
    by (induction n) simp_all
  moreover have "(starve_step ^^ 5) t =
      starve_step (starve_step (starve_step (starve_step (starve_step t))))" for t
    by (simp add: numeral_eq_Suc)
  then have "starveCounter ((starve_step ^^ 5) (j\<lparr>starveCounter := 0\<rparr>)) = 0"
    by (simp add: starve_step_def)
  ultimately show ?thesis using bound by simp
qed

subsection \<open>Submitting a stage\<close>

definition acceptable :: "('p \<Rightarrow> ('p, 'a, 'w) ProcessStates) \<Rightarrow> 'p option \<Rightarrow> 'a option \<Rightarrow> bool" where
  "acceptable env newProc arg \<longleftrightarrow>
     (\<exists>p. newProc = Some p \<and> arg \<noteq> None \<and> start_proc (env p) \<noteq> None \<and> end_proc (env p) \<noteq> None
          \<and> isProcessTypeValid (ps_type (env p)))"

lemma submit_table_eq:
  "submit_table u p a prio m =
     Inr (0, m\<lparr>proc_heap := (proc_heap m)(proc_next m \<mapsto>
                 \<lparr>pid = u_pid u, processState = Some p, pt_args = Some a, jobStatus = 0, pt_priority = prio\<rparr>),
               proc_next := Suc (proc_next m), pidVector := pidVector m @ [proc_next m],
               taskSink := pool_push \<lparr>procTable = Some (proc_next m), poolPriority = prio,
                 starveCounter = u_starve u\<rparr> (taskSink m)\<rparr>)"
  by (simp add: submit_table_def registerProcess_eq new_ProcessTable_def pool_push_def Let_def)

lemma scheduleTask_eq:
  "scheduleTask env u newProc arg prio m =
     (if acceptable env newProc arg
      then Inr (0, m\<lparr>proc_heap := (proc_heap m)(proc_next m \<mapsto>
             \<lparr>pid = u_pid u, processState = newProc, pt_args = arg, jobStatus = 0, pt_priority = prio\<rparr>),
           proc_next := Suc (proc_next m), pidVector := pidVector m @ [proc_next m],
           taskSink := pool_push \<lparr>procTable = Some (proc_next m), poolPriority = prio,
             starveCounter = u_starve u\<rparr> (taskSink m)\<rparr>)
      else Inr (EXIT_FAILURE, m))"
  by (cases newProc; cases arg) (auto simp: scheduleTask_def acceptable_def submit_table_eq)

text \<open>\<open>scheduleTask\<close> refuses exactly the submissions with a null stage, a null argument
  bundle, a null start or end handler or an invalid stage type, and then changes nothing;
  every other submission returns 0, registers one new table that carries the stage, its
  arguments and its priority with no status bit set, and queues one task that points to it.\<close>

theorem scheduleTask_outcome:
  "scheduleTask env u newProc arg prio m =
     (if acceptable env newProc arg
      then Inr (0, m\<lparr>proc_heap := (proc_heap m)(proc_next m \<mapsto>
             \<lparr>pid = u_pid u, processState = newProc, pt_args = arg, jobStatus = 0, pt_priority = prio\<rparr>),
           proc_next := Suc (proc_next m), pidVector := pidVector m @ [proc_next m],
           taskSink := pool_push \<lparr>procTable = Some (proc_next m), poolPriority = prio,
             starveCounter = u_starve u\<rparr> (taskSink m)\<rparr>)
      else Inr (EXIT_FAILURE, m))"
  by (rule scheduleTask_eq)

text \<open>The loop that is meant to draw a fresh process id is never entered: the id of a
  new table is whatever the uninitialised local variable held, for every sequence of random
  draws, so two tables can be registered under one id.\<close>

theorem registerProcess_pid_indeterminate:
  "\<exists>a m'. registerProcess pid0 draws m = Inr (a, m') \<and>
     map_option pid (proc_heap m' a) = Some pid0 \<and>
     (\<exists>b m''. registerProcess pid0 draws' m' = Inr (b, m'') \<and> a \<noteq> b \<and>
        map_option pid (proc_heap m'' a) = Some pid0 \<and> map_option pid (proc_heap m'' b) = Some pid0)"
  by (simp add: registerProcess_eq)

end
