(* ===== verification/Thread_Queue.thy ===== *)
theory Thread_Queue
  imports Task_Pool
begin

section \<open>Thread queues: QueueJob and ThreadQueue of scheduler/sched.cpp\<close>

text \<open>
  Jobs live on a heap of their own and point to process tables. \<open>freed_write\<close> records that
  a job wrote to the storage of a process table that had been deleted before: undefined
  behaviour, but one the running program usually survives, so the model notes it and goes
  on. Every other use of freed storage ends the model's run (\<open>UseAfterFree\<close>).
\<close>

definition QUEUE_SIZE :: nat where [simp]: "QUEUE_SIZE = 4"
definition MAX_THREAD :: int where [simp]: "MAX_THREAD = 10"
definition NANOSECS :: int where [simp]: "NANOSECS = 1000000"

record QueueJob =
  cpuSliceMs :: "64 word"
  processTable :: "ptr option"
  jobErrorHandle :: Flag

record ('p, 'a) sched_mem = "('p, 'a) pool_mem" +
  job_heap :: "ptr \<rightharpoonup> QueueJob"
  job_next :: ptr
  freed_write :: bool

record ThreadQueue =
  threadID :: nat
  head :: nat
  jobQueue :: "nat \<Rightarrow> ptr option"
  jobSlotDone :: "nat \<Rightarrow> Flag"
  threadShouldStop :: Flag
  totalJobsInQueue :: int

subsection \<open>Methods of QueueJob\<close>

definition new_QueueJob :: "ptr option \<Rightarrow> QueueJob" where
  "new_QueueJob pt = \<lparr>cpuSliceMs = 0, processTable = pt, jobErrorHandle = False\<rparr>"

text \<open>\<open>this->cpuSliceMs = cpuSliceMs\<close>: the argument is called \<open>cpuTimeSlice\<close>.\<close>

definition setCpuTimeSlice :: "64 word \<Rightarrow> QueueJob \<Rightarrow> QueueJob" where
  "setCpuTimeSlice cpuTimeSlice job = job\<lparr>cpuSliceMs := cpuSliceMs job\<rparr>"

definition getCpuTimeSlice :: "QueueJob \<Rightarrow> 64 word" where
  "getCpuTimeSlice job = cpuSliceMs job"

definition job_status :: "('p, 'a, 'z) sched_mem_scheme \<Rightarrow> ptr option \<Rightarrow> (64 word) result" where
  "job_status m j =
     bindR (deref (job_heap m) j) (\<lambda>job.
     bindR (deref (proc_heap m) (processTable job)) (\<lambda>t. Inr (jobStatus t)))"

definition isJobStatusSet :: "JobStatus \<Rightarrow> ptr option \<Rightarrow> ('p, 'a, 'z) sched_mem_scheme \<Rightarrow> bool result" where
  "isJobStatusSet status j m = bindR (job_status m j) (\<lambda>w. Inr (status_isset status w))"

definition setJobStatus ::
  "JobStatus \<Rightarrow> ptr option \<Rightarrow> ('p, 'a, 'z) sched_mem_scheme \<Rightarrow> ('p, 'a, 'z) sched_mem_scheme result"
where
  "setJobStatus status j m =
     bindR (deref (job_heap m) j) (\<lambda>job.
       (case processTable job of
          None \<Rightarrow> Inl NullPointer
        | Some a \<Rightarrow>
            (case proc_heap m a of
               None \<Rightarrow> Inr (m\<lparr>freed_write := True\<rparr>)
             | Some t \<Rightarrow> Inr (m\<lparr>proc_heap := (proc_heap m)(a \<mapsto>
                           t\<lparr>jobStatus := status_set status (jobStatus t)\<rparr>)\<rparr>))))"

text \<open>
  \<open>start_proc\<close> and its three siblings, called through the job's table. \<open>env\<close> are the stage
  structs; a null function pointer is \<open>NullPointer\<close>.
\<close>

definition job_table :: "('p, 'a, 'z) sched_mem_scheme \<Rightarrow> ptr option \<Rightarrow> ('p, 'a) ProcessTable result" where
  "job_table m j = bindR (deref (job_heap m) j) (\<lambda>job. deref (proc_heap m) (processTable job))"

definition run_handler ::
  "(('p, 'a, 'w) ProcessStates \<Rightarrow> ('a option \<Rightarrow> 'w \<Rightarrow> 'r result) option) \<Rightarrow>
   ('p \<Rightarrow> ('p, 'a, 'w) ProcessStates) \<Rightarrow> ptr option \<Rightarrow> ('p, 'a, 'z) sched_mem_scheme \<Rightarrow> 'w \<Rightarrow> 'r result"
where
  "run_handler field env j m w =
     bindR (job_table m j) (\<lambda>t.
       (case processState t of
          None \<Rightarrow> Inl NullPointer
        | Some p \<Rightarrow>
            (case field (env p) of
               None \<Rightarrow> Inl NullPointer
             | Some f \<Rightarrow> f (pt_args t) w)))"

definition runStartProcess where "runStartProcess = run_handler start_proc"
definition runPauseProcess where "runPauseProcess = run_handler pause_proc"
definition runEndProcess where "runEndProcess = run_handler end_proc"
definition runFailProcess where "runFailProcess = run_handler fail_proc"

subsection \<open>Methods of ThreadQueue\<close>

text \<open>
  The constructor leaves \<open>jobQueue\<close> uninitialised: \<open>g\<close> is what the allocated storage held.
\<close>

definition new_ThreadQueue :: "(nat \<Rightarrow> ptr option) \<Rightarrow> nat \<Rightarrow> ThreadQueue" where
  "new_ThreadQueue g tid =
     \<lparr>threadID = tid, head = 0, jobQueue = g, jobSlotDone = (\<lambda>i. initFlag True),
      threadShouldStop = initFlag False, totalJobsInQueue = 0\<rparr>"

definition addNewTask :: "ptr option \<Rightarrow> ThreadQueue \<Rightarrow> int \<times> ThreadQueue" where
  "addNewTask job q =
     (if job = None then (- 1, q)
      else (case first_slot (\<lambda>i. isFlagSet (jobSlotDone q i)) QUEUE_SIZE of
          None \<Rightarrow> (- 1, q)
        | Some i \<Rightarrow>
            (0, q\<lparr>jobSlotDone := (jobSlotDone q)(i := False),
                  jobQueue := (jobQueue q)(i := job),
                  totalJobsInQueue := totalJobsInQueue q + 1\<rparr>)))"

text \<open>The loop of \<open>getNextTask\<close>, at most \<open>QUEUE_SIZE\<close> rounds.\<close>

fun next_loop :: "nat \<Rightarrow> ThreadQueue \<Rightarrow> ptr option \<times> ThreadQueue" where
  "next_loop 0 q = (None, q)"
| "next_loop (Suc n) q =
     (let q' = q\<lparr>head := Suc (head q) mod QUEUE_SIZE\<rparr> in
      if \<not> isFlagSet (jobSlotDone q' (head q')) then (jobQueue q' (head q'), q')
      else next_loop n q')"

definition getNextTask :: "ThreadQueue \<Rightarrow> ptr option \<times> ThreadQueue" where
  "getNextTask q = next_loop QUEUE_SIZE q"

fun pop_scan :: "('p, 'a, 'z) sched_mem_scheme \<Rightarrow> ThreadQueue \<Rightarrow> nat list \<Rightarrow> (nat option) result" where
  "pop_scan m q [] = Inr None"
| "pop_scan m q (i # is) =
     (if isFlagSet (jobSlotDone q i) then pop_scan m q is
      else bindR (isJobStatusSet JOB_RUNNING (jobQueue q i) m) (\<lambda>running.
        if running then pop_scan m q is
        else bindR (isJobStatusSet JOB_FINALIZED (jobQueue q i) m) (\<lambda>finalized.
          if finalized then pop_scan m q is else Inr (Some i))))"

definition popJob :: "('p, 'a, 'z) sched_mem_scheme \<Rightarrow> ThreadQueue \<Rightarrow> (ptr option \<times> ThreadQueue) result" where
  "popJob m q =
     bindR (pop_scan m q [0..<QUEUE_SIZE]) (\<lambda>r.
       (case r of
          None \<Rightarrow> Inr (None, q)
        | Some i \<Rightarrow>
            Inr (jobQueue q i,
                 q\<lparr>jobSlotDone := (jobSlotDone q)(i := True),
                   totalJobsInQueue := totalJobsInQueue q - 1,
                   jobQueue := (jobQueue q)(i := None)\<rparr>)))"

definition markTaskAsComplete ::
  "('p, 'a, 'z) sched_mem_scheme \<Rightarrow> ThreadQueue \<Rightarrow> (('p, 'a, 'z) sched_mem_scheme \<times> ThreadQueue) result"
where
  "markTaskAsComplete m q =
     bindR (setJobStatus JOB_DONE (jobQueue q (head q)) m) (\<lambda>m'.
       Inr (m', q\<lparr>jobSlotDone := (jobSlotDone q)(head q := True),
                  totalJobsInQueue := totalJobsInQueue q - 1\<rparr>))"

fun flush_loop ::
  "nat list \<Rightarrow> ('p, 'a, 'z) sched_mem_scheme \<Rightarrow> ThreadQueue \<Rightarrow> (('p, 'a, 'z) sched_mem_scheme \<times> ThreadQueue) result"
where
  "flush_loop [] m q = Inr (m, q)"
| "flush_loop (i # is) m q =
     (if isFlagSet (jobSlotDone q i)
      then (case jobQueue q i of
          None \<Rightarrow> flush_loop is m q
        | Some j \<Rightarrow>
            (case job_heap m j of
               None \<Rightarrow> Inl UseAfterFree
             | Some _ \<Rightarrow>
                 flush_loop is (m\<lparr>job_heap := (job_heap m)(j := None)\<rparr>)
                   (q\<lparr>jobQueue := (jobQueue q)(i := None)\<rparr>)))
      else flush_loop is m q)"

definition flushFinishedJobs ::
  "('p, 'a, 'z) sched_mem_scheme \<Rightarrow> ThreadQueue \<Rightarrow> (('p, 'a, 'z) sched_mem_scheme \<times> ThreadQueue) result"
where
  "flushFinishedJobs m q = flush_loop [0..<QUEUE_SIZE] m q"

definition getTotalJobsInQueue :: "ThreadQueue \<Rightarrow> int" where
  "getTotalJobsInQueue q = totalJobsInQueue q"

definition getThreadId :: "ThreadQueue \<Rightarrow> nat" where
  "getThreadId q = threadID q"

definition shouldStop :: "ThreadQueue \<Rightarrow> bool" where
  "shouldStop q = isFlagSet (threadShouldStop q)"

text \<open>\<open>totalWaitTime\<close> is an \<open>int\<close>, the slice an \<open>uint64\<close>: the sum is taken back to \<open>int\<close>.\<close>

fun wait_loop :: "('p, 'a, 'z) sched_mem_scheme \<Rightarrow> ThreadQueue \<Rightarrow> nat list \<Rightarrow> int \<Rightarrow> int result" where
  "wait_loop m q [] acc = Inr acc"
| "wait_loop m q (i # is) acc =
     (if \<not> isFlagSet (jobSlotDone q i) \<and> jobQueue q i \<noteq> None
      then bindR (deref (job_heap m) (jobQueue q i)) (\<lambda>job.
             wait_loop m q is
               (int32 (acc + (if getCpuTimeSlice job \<noteq> 0 then uint (getCpuTimeSlice job) else 999))))
      else wait_loop m q is acc)"

definition getTotalWaitTime :: "('p, 'a, 'z) sched_mem_scheme \<Rightarrow> ThreadQueue \<Rightarrow> int result" where
  "getTotalWaitTime m q =
     (if totalJobsInQueue q = 0 then Inr 0 else wait_loop m q [0..<QUEUE_SIZE] 0)"

subsection \<open>The occupied slots and the invariant of a queue\<close>

definition occupied :: "ThreadQueue \<Rightarrow> nat set" where
  "occupied q = {i. i < QUEUE_SIZE \<and> \<not> jobSlotDone q i}"

definition queue_jobs :: "ThreadQueue \<Rightarrow> ptr option multiset" where
  "queue_jobs q = image_mset (jobQueue q) (mset_set (occupied q))"

definition queue_inv :: "ThreadQueue \<Rightarrow> bool" where
  "queue_inv q \<longleftrightarrow> totalJobsInQueue q = int (size (queue_jobs q)) \<and> None \<notin># queue_jobs q \<and>
     head q < QUEUE_SIZE"

lemma finite_occupied [simp]: "finite (occupied q)"
  by (simp add: occupied_def)

lemma size_queue_jobs: "size (queue_jobs q) = card (occupied q)"
  by (simp add: queue_jobs_def)

lemma card_occupied_le: "card (occupied q) \<le> QUEUE_SIZE"
proof -
  have "card (occupied q) \<le> card {..<QUEUE_SIZE}"
    by (rule card_mono) (auto simp: occupied_def)
  then show ?thesis by simp
qed

lemma queue_jobs_fill:
  assumes "i < QUEUE_SIZE" and "jobSlotDone q i"
    and "jobSlotDone q' = (jobSlotDone q)(i := False)" and "jobQueue q' = (jobQueue q)(i := j)"
  shows "queue_jobs q' = add_mset j (queue_jobs q)"
proof -
  have "occupied q' = insert i (occupied q)" and "i \<notin> occupied q"
    using assms by (auto simp: occupied_def)
  then show ?thesis
    using assms(4) by (auto simp: queue_jobs_def intro!: image_mset_cong)
qed

lemma queue_jobs_clear:
  assumes "i < QUEUE_SIZE" and "\<not> jobSlotDone q i"
    and "jobSlotDone q' = (jobSlotDone q)(i := True)"
    and "\<And>k. k \<noteq> i \<Longrightarrow> jobQueue q' k = jobQueue q k"
  shows "queue_jobs q = add_mset (jobQueue q i) (queue_jobs q')"
proof -
  have occ: "occupied q = insert i (occupied q')" "i \<notin> occupied q'"
    using assms by (auto simp: occupied_def)
  then have "jobQueue q x = jobQueue q' x" if "x \<in> occupied q'" for x
    using that assms(4) by metis
  then have "image_mset (jobQueue q) (mset_set (occupied q')) = queue_jobs q'"
    unfolding queue_jobs_def by (intro image_mset_cong) simp
  then show ?thesis using occ by (simp add: queue_jobs_def)
qed

lemma occupied_clear:
  "jobSlotDone q' = (jobSlotDone q)(i := True) \<Longrightarrow> occupied q' = occupied q - {i}"
  by (auto simp: occupied_def)

lemma queue_inv_new: "queue_inv (new_ThreadQueue g tid)"
  by (simp add: queue_inv_def queue_jobs_def occupied_def new_ThreadQueue_def)

lemma addNewTask_Some:
  assumes "addNewTask job q = (0, q')"
  shows "\<exists>i<QUEUE_SIZE. jobSlotDone q i \<and> job \<noteq> None \<and>
     q' = q\<lparr>jobSlotDone := (jobSlotDone q)(i := False), jobQueue := (jobQueue q)(i := job),
            totalJobsInQueue := totalJobsInQueue q + 1\<rparr>"
  using assms by (auto simp: addNewTask_def split: if_splits option.splits dest!: first_slot_SomeD)

lemma addNewTask_rc: "addNewTask job q = (rc, q') \<Longrightarrow> rc \<noteq> 0 \<Longrightarrow> rc = - 1 \<and> q' = q"
  by (auto simp: addNewTask_def split: if_splits option.splits)

lemma addNewTask_free:
  assumes "card (occupied q) < QUEUE_SIZE"
  shows "fst (addNewTask (Some j) q) = 0"
proof -
  have "\<exists>i<QUEUE_SIZE. jobSlotDone q i"
  proof (rule ccontr)
    assume "\<not> ?thesis"
    then have "occupied q = {..<QUEUE_SIZE}" by (auto simp: occupied_def)
    with assms show False by simp
  qed
  then obtain k where "first_slot (\<lambda>i. isFlagSet (jobSlotDone q i)) QUEUE_SIZE = Some k"
    using first_slot_ex [where P = "\<lambda>i. isFlagSet (jobSlotDone q i)"] by auto
  then show ?thesis by (simp add: addNewTask_def)
qed

lemma addNewTask_full:
  assumes "card (occupied q) = QUEUE_SIZE"
  shows "addNewTask job q = (- 1, q)"
proof -
  have "occupied q = {..<QUEUE_SIZE}"
    using assms by (intro card_subset_eq) (auto simp: occupied_def)
  then have "first_slot (\<lambda>i. isFlagSet (jobSlotDone q i)) QUEUE_SIZE = None"
    by (auto simp: first_slot_None occupied_def)
  then show ?thesis by (simp add: addNewTask_def)
qed

lemma addNewTask_jobs:
  assumes "addNewTask job q = (0, q')"
  shows "queue_jobs q' = add_mset job (queue_jobs q)" and "queue_inv q \<Longrightarrow> queue_inv q'"
proof -
  obtain i where i: "i < QUEUE_SIZE" "jobSlotDone q i" "job \<noteq> None"
    and q': "q' = q\<lparr>jobSlotDone := (jobSlotDone q)(i := False), jobQueue := (jobQueue q)(i := job),
            totalJobsInQueue := totalJobsInQueue q + 1\<rparr>"
    using addNewTask_Some [OF assms] by blast
  show jobs: "queue_jobs q' = add_mset job (queue_jobs q)"
    by (rule queue_jobs_fill [OF i(1,2)]) (simp_all add: q')
  have "totalJobsInQueue q' = totalJobsInQueue q + 1" and "head q' = head q"
    by (simp_all add: q')
  with jobs i(3) show "queue_inv q'" if "queue_inv q"
    using that by (auto simp: queue_inv_def)
qed

lemma pop_scan_SomeD: "pop_scan m q is = Inr (Some i) \<Longrightarrow> i \<in> set is \<and> \<not> jobSlotDone q i"
  by (induction "is") (auto simp: result_simps split: if_splits)

lemma popJob_cases:
  assumes "popJob m q = Inr (r, q')"
  obtains "r = None" and "q' = q"
  | i where "i < QUEUE_SIZE" and "\<not> jobSlotDone q i" and "r = jobQueue q i"
      and "q' = q\<lparr>jobSlotDone := (jobSlotDone q)(i := True),
             totalJobsInQueue := totalJobsInQueue q - 1, jobQueue := (jobQueue q)(i := None)\<rparr>"
  using assms by (auto simp: popJob_def result_simps split: option.splits dest!: pop_scan_SomeD)

lemma popJob_jobs:
  assumes pop: "popJob m q = Inr (Some j, q')"
  shows "queue_jobs q = add_mset (Some j) (queue_jobs q')" and "queue_inv q \<Longrightarrow> queue_inv q'"
proof -
  obtain i where i: "i < QUEUE_SIZE" "\<not> jobSlotDone q i" "Some j = jobQueue q i"
    and q': "q' = q\<lparr>jobSlotDone := (jobSlotDone q)(i := True),
        totalJobsInQueue := totalJobsInQueue q - 1, jobQueue := (jobQueue q)(i := None)\<rparr>"
    using pop by (rule popJob_cases) auto
  show jobs: "queue_jobs q = add_mset (Some j) (queue_jobs q')"
    unfolding i(3) by (rule queue_jobs_clear [OF i(1,2)]) (simp_all add: q')
  have "totalJobsInQueue q' = totalJobsInQueue q - 1" and "head q' = head q"
    by (simp_all add: q')
  with jobs show "queue_inv q'" if "queue_inv q"
    using that by (simp add: queue_inv_def)
qed

lemma popJob_None:
  assumes "popJob m q = Inr (None, q')" and "queue_inv q"
  shows "q' = q"
  using assms(1)
proof (rule popJob_cases)
  fix i assume "i < QUEUE_SIZE" "\<not> jobSlotDone q i" "None = jobQueue q i"
  then have "None \<in># queue_jobs q"
    by (auto simp: queue_jobs_def occupied_def)
  with assms(2) show ?thesis by (simp add: queue_inv_def)
qed

lemma popJob_card:
  assumes "popJob m q = Inr (r, q')" and "r \<noteq> None"
  shows "card (occupied q') < card (occupied q)"
  using assms(1)
proof (rule popJob_cases)
  fix i assume i: "i < QUEUE_SIZE" "\<not> jobSlotDone q i"
    and "q' = q\<lparr>jobSlotDone := (jobSlotDone q)(i := True),
        totalJobsInQueue := totalJobsInQueue q - 1, jobQueue := (jobQueue q)(i := None)\<rparr>"
  then have "occupied q' = occupied q - {i}" by (auto simp: occupied_def)
  moreover have "i \<in> occupied q" using i by (simp add: occupied_def)
  ultimately show ?thesis by (metis card_Diff1_less finite_occupied)
qed (use assms(2) in simp)

subsection \<open>A thread queue as a bounded store of jobs\<close>

definition job_pointers :: "ThreadQueue \<Rightarrow> ptr multiset" where
  "job_pointers q = image_mset the (queue_jobs q)"

lemma size_job_pointers: "size (job_pointers q) = card (occupied q)"
  by (simp add: job_pointers_def size_queue_jobs)

interpretation thread_store: job_store queue_inv job_pointers QUEUE_SIZE
  "\<lambda>j. addNewTask (Some j)" popJob
proof unfold_locales
  show "size (job_pointers q) \<le> QUEUE_SIZE" for q
    using card_occupied_le by (simp add: size_job_pointers)
  show "fst (addNewTask (Some j) q) = 0" if "size (job_pointers q) < QUEUE_SIZE" for q j
    using that by (simp add: size_job_pointers addNewTask_free)
  show "addNewTask (Some j) q = (- 1, q)" if "size (job_pointers q) = QUEUE_SIZE" for q j
    using that by (simp add: size_job_pointers addNewTask_full)
  show "job_pointers q' = add_mset j (job_pointers q)" if "addNewTask (Some j) q = (0, q')" for j q q'
    using addNewTask_jobs(1) [OF that] by (simp add: job_pointers_def)
  show "queue_inv q'" if "queue_inv q" and "addNewTask (Some j) q = (0, q')" for j q q'
    using that addNewTask_jobs(2) by blast
  show "job_pointers q = add_mset j (job_pointers q')" if "popJob m q = Inr (Some j, q')" for m q j q'
    using popJob_jobs(1) [OF that] by (simp add: job_pointers_def)
  show "queue_inv q'" if "queue_inv q" and "popJob m q = Inr (Some j, q')" for m q j q'
    using that popJob_jobs(2) by blast
  show "q' = q" if "queue_inv q" and "popJob m q = Inr (None, q')" for m q q'
    using that popJob_None by blast
qed

subsection \<open>Waiting times\<close>

text \<open>No job ever has a time slice (see \<open>setCpuTimeSlice\<close>).\<close>

definition slices_zero :: "('p, 'a, 'z) sched_mem_scheme \<Rightarrow> bool" where
  "slices_zero m \<longleftrightarrow> (\<forall>j job. job_heap m j = Some job \<longrightarrow> cpuSliceMs job = 0)"

definition jobs_live :: "('p, 'a, 'z) sched_mem_scheme \<Rightarrow> ThreadQueue \<Rightarrow> bool" where
  "jobs_live m q \<longleftrightarrow> set_mset (queue_jobs q) \<subseteq> Some ` dom (job_heap m)"

lemma jobs_live_slot:
  assumes "jobs_live m q" and "i < QUEUE_SIZE" and "\<not> jobSlotDone q i"
  obtains p job where "jobQueue q i = Some p" and "job_heap m p = Some job"
proof -
  have "jobQueue q i \<in># queue_jobs q"
    using assms(2,3) by (auto simp: queue_jobs_def occupied_def)
  then have "jobQueue q i \<in> Some ` dom (job_heap m)"
    using assms(1) by (auto simp: jobs_live_def)
  then show ?thesis using that by blast
qed

lemma wait_loop_zero:
  assumes "slices_zero m" and "jobs_live m q" and "\<forall>i \<in> set is. i < QUEUE_SIZE"
    and "0 \<le> acc" and "acc + 999 * int (length is) < 2 ^ 31"
  shows "wait_loop m q is acc = Inr (acc + 999 * int (length (filter (\<lambda>i. \<not> jobSlotDone q i) is)))"
  using assms(3-5)
proof (induction "is" arbitrary: acc)
  case Nil
  then show ?case by simp
next
  case (Cons i "is")
  show ?case
  proof (cases "jobSlotDone q i")
    case True
    with Cons show ?thesis by simp
  next
    case False
    then obtain p job where "jobQueue q i = Some p" "job_heap m p = Some job"
      using assms(2) Cons.prems(1) by (auto elim: jobs_live_slot)
    moreover then have "cpuSliceMs job = 0" using assms(1) by (auto simp: slices_zero_def)
    moreover have "int32 (acc + 999) = acc + 999"
      using Cons.prems by (intro int32_id) auto
    ultimately show ?thesis
      using False Cons.IH [of "acc + 999"] Cons.prems by (simp add: getCpuTimeSlice_def)
  qed
qed

lemma getTotalWaitTime_zero:
  assumes "slices_zero m" and "jobs_live m q" and "queue_inv q"
  shows "getTotalWaitTime m q = Inr (999 * int (card (occupied q)))"
proof -
  have "card (occupied q) = length (filter (\<lambda>i. \<not> jobSlotDone q i) [0..<QUEUE_SIZE])"
    unfolding occupied_def by (metis slot_count_card slot_count_def)
  moreover have "wait_loop m q [0..<QUEUE_SIZE] 0 =
      Inr (0 + 999 * int (length (filter (\<lambda>i. \<not> jobSlotDone q i) [0..<QUEUE_SIZE])))"
    by (rule wait_loop_zero [OF assms(1,2)]) auto
  moreover have "totalJobsInQueue q = int (card (occupied q))"
    using assms(3) by (simp add: queue_inv_def size_queue_jobs)
  ultimately show ?thesis by (simp add: getTotalWaitTime_def)
qed

subsection \<open>Round robin\<close>

definition advance :: "ThreadQueue \<Rightarrow> ThreadQueue" where
  "advance q = snd (getNextTask q)"

text \<open>How many slots the head has to move to stand on slot \<open>i\<close>: 1 to 4.\<close>

definition distance :: "ThreadQueue \<Rightarrow> nat \<Rightarrow> nat" where
  "distance q i = (i + 3 - head q) mod 4 + 1"

lemma next_loop_slots [simp]:
  "jobSlotDone (snd (next_loop n q)) = jobSlotDone q" "jobQueue (snd (next_loop n q)) = jobQueue q"
  by (induction n arbitrary: q) (simp_all add: Let_def)

lemma advance_slots [simp]:
  "jobSlotDone (advance q) = jobSlotDone q" "jobQueue (advance q) = jobQueue q"
  by (simp_all add: advance_def getNextTask_def)

lemma next_loop_head: "head q < 4 \<Longrightarrow> head (snd (next_loop n q)) < 4"
  by (induction n arbitrary: q) (simp_all add: Let_def)

lemma advance_head: "head q < 4 \<Longrightarrow> head ((advance ^^ n) q) < 4"
  by (induction n) (simp_all add: advance_def getNextTask_def next_loop_head)

lemma advance_n_slots [simp]:
  "jobSlotDone ((advance ^^ n) q) = jobSlotDone q" "jobQueue ((advance ^^ n) q) = jobQueue q"
  by (induction n) simp_all

lemma distance_step:
  assumes "head q < 4" and "i < 4" and "i \<noteq> Suc (head q) mod 4"
  shows "distance q i = Suc (distance (q\<lparr>head := Suc (head q) mod 4\<rparr>) i)"
proof -
  have "head q \<in> {0, 1, 2, 3}" "i \<in> {0, 1, 2, 3}" using assms(1,2) by auto
  then show ?thesis using assms(3) by (auto simp: distance_def)
qed

lemma next_loop_reaches:
  assumes "\<not> jobSlotDone q i" and "i < 4" and "head q < 4" and "distance q i \<le> n"
  shows "head (snd (next_loop n q)) < 4 \<and>
     (head (snd (next_loop n q)) = i \<or> distance (snd (next_loop n q)) i < distance q i)"
  using assms
proof (induction n arbitrary: q)
  case 0
  then show ?case by (simp add: distance_def)
next
  case (Suc n)
  let ?q = "q\<lparr>head := Suc (head q) mod 4\<rparr>"
  show ?case
  proof (cases "i = Suc (head q) mod 4")
    case True
    with Suc.prems show ?thesis by (simp add: Let_def)
  next
    case False
    then have d: "distance q i = Suc (distance ?q i)"
      using Suc.prems by (intro distance_step) auto
    have "head (snd (next_loop n ?q)) < 4 \<and>
       (head (snd (next_loop n ?q)) = i \<or> distance (snd (next_loop n ?q)) i < distance ?q i)"
      using Suc.prems d by (intro Suc.IH) auto
    with d show ?thesis by (auto simp: Let_def)
  qed
qed

lemma distance_le: "distance q i \<le> 4"
  using pos_mod_bound [of 4 "int (i + 3 - head q)"] by (simp add: distance_def Suc_le_eq)

lemma advance_reaches:
  assumes "\<not> jobSlotDone q i" and "i < 4" and "head q < 4"
  shows "\<exists>n. 1 \<le> n \<and> n \<le> distance q i \<and> head ((advance ^^ n) q) = i"
  using assms
proof (induction q rule: measure_induct_rule [where f = "\<lambda>q. distance q i"])
  case (less q)
  have step: "head (advance q) < 4 \<and> (head (advance q) = i \<or> distance (advance q) i < distance q i)"
    using next_loop_reaches [of q i 4] less.prems distance_le [of q i]
    by (simp add: advance_def getNextTask_def)
  show ?case
  proof (cases "head (advance q) = i")
    case True
    then show ?thesis by (intro exI [of _ 1]) (simp add: distance_def)
  next
    case False
    have "\<exists>n. 1 \<le> n \<and> n \<le> distance (advance q) i \<and> head ((advance ^^ n) (advance q)) = i"
      by (rule less.IH) (use step False less.prems in simp_all)
    then obtain n where n: "1 \<le> n" "n \<le> distance (advance q) i"
        "head ((advance ^^ n) (advance q)) = i" by blast
    with step False show ?thesis
      by (intro exI [of _ "Suc n"]) (auto simp: funpow_swap1)
  qed
qed

lemma next_loop_picks:
  assumes "\<not> jobSlotDone r (head (snd (next_loop k r)))" and "head r < 4"
    and "\<exists>j<4. \<not> jobSlotDone r j \<and> distance r j \<le> k"
  shows "fst (next_loop k r) = jobQueue r (head (snd (next_loop k r)))"
  using assms
proof (induction k arbitrary: r)
  case 0
  then show ?case by (auto simp: distance_def)
next
  case (Suc k)
  from Suc.prems(3) obtain j where j: "j < 4" "\<not> jobSlotDone r j" "distance r j \<le> Suc k" by blast
  show ?case
  proof (cases "jobSlotDone r (Suc (head r) mod 4)")
    case True
    then have "j \<noteq> Suc (head r) mod 4" using j(2) by auto
    then have "distance (r\<lparr>head := Suc (head r) mod 4\<rparr>) j \<le> k"
      using distance_step [OF Suc.prems(2) j(1)] j(3) by simp
    then show ?thesis using True Suc.prems(1) j Suc.IH [of "r\<lparr>head := Suc (head r) mod 4\<rparr>"]
      by (auto simp: Let_def)
  qed (simp add: Let_def)
qed

text \<open>C22: Round robin: whichever slot of a thread's queue holds a job, the thread picks that
  slot within its next four turns, and the job it then gets is the slot's.\<close>

theorem getNextTask_fair:
  assumes "queue_inv q" and "i < QUEUE_SIZE" and "\<not> jobSlotDone q i"
  shows "\<exists>n. 1 \<le> n \<and> n \<le> 4 \<and> head ((advance ^^ n) q) = i \<and>
     fst (getNextTask ((advance ^^ (n - 1)) q)) = jobQueue q i"
proof -
  obtain n where n: "1 \<le> n" "n \<le> distance q i" "head ((advance ^^ n) q) = i"
    using advance_reaches [of q i] assms by (auto simp: queue_inv_def)
  let ?r = "(advance ^^ (n - 1)) q"
  have r: "advance ?r = (advance ^^ n) q" using n(1) by (cases n) simp_all
  have "head ?r < 4" using assms(1) by (intro advance_head) (simp add: queue_inv_def)
  then have "fst (getNextTask ?r) = jobQueue q i"
    using next_loop_picks [of ?r 4] assms n r distance_le
    by (auto simp: getNextTask_def advance_def)
  with n distance_le [of q i] show ?thesis by (metis le_trans)
qed

theorem getNextTask_fair_witness:
  "\<exists>n\<in>{1..4}. head ((advance ^^ n) (snd (addNewTask (Some 7) (new_ThreadQueue (\<lambda>_. None) 0)))) = 0"
proof -
  let ?q = "snd (addNewTask (Some 7) (new_ThreadQueue (\<lambda>_. None) 0))"
  have add: "addNewTask (Some 7) (new_ThreadQueue (\<lambda>_. None) 0) = (0, ?q)"
    by (simp add: addNewTask_def new_ThreadQueue_def first_slot_def upt_rec)
  have "queue_inv ?q" by (rule addNewTask_jobs(2) [OF add queue_inv_new])
  moreover have "\<not> jobSlotDone ?q 0"
    by (simp add: addNewTask_def new_ThreadQueue_def first_slot_def upt_rec)
  ultimately show ?thesis using getNextTask_fair [of ?q 0] by auto
qed

end
