(* ===== verification/Scheduler.thy ===== *)
theory Scheduler
  imports Thread_Queue
begin

section \<open>Scheduler and task threads: scheduler/sched.cpp\<close>

text \<open>
  The functions of \<open>sched.cpp\<close> that work on all thread queues, one round of the scheduler
  thread (\<open>sched_task\<close>) and one turn of a task thread (\<open>thread_task\<close>). The source's loops
  over \<open>globalConfigs.getTotalThreadCount()\<close> run over the list of queues: \<open>init_sched\<close>
  creates that many, and the configuration is not written after that.
\<close>

record ('p, 'a) sched_state = "('p, 'a) sched_mem" +
  threadQueueList :: "ThreadQueue list"

subsection \<open>Time slices and timers\<close>

fun calculate_priority_timeslice :: "TaskPriority \<Rightarrow> int" where
  "calculate_priority_timeslice NON_PREEMTABLE = 0"
| "calculate_priority_timeslice HIGH_PRIORITY = 6 * NANOSECS"
| "calculate_priority_timeslice MEDIUM_PRIORITY = 4 * NANOSECS"
| "calculate_priority_timeslice LOW_PRIORITY = 2 * NANOSECS"

record JobTimer =
  allowedCpuSlice :: "64 word"
  jobShouldPause :: bool

text \<open>The timer thread, once it has slept.\<close>

definition start_job_timer :: "JobTimer \<Rightarrow> JobTimer" where
  "start_job_timer jTimer = jTimer\<lparr>jobShouldPause := False\<rparr>"

text \<open>
  The second component tells whether a timer thread has been started. \<open>slice0\<close> is the
  indeterminate member of the new \<open>JobTimer\<close>.
\<close>

definition init_timer :: "64 word \<Rightarrow> QueueJob \<Rightarrow> JobTimer \<times> bool" where
  "init_timer slice0 job =
     (let jTimer = \<lparr>allowedCpuSlice = slice0, jobShouldPause = False\<rparr> in
      if getCpuTimeSlice job = 0 then (jTimer, False)
      else (jTimer\<lparr>allowedCpuSlice := getCpuTimeSlice job\<rparr>, True))"

definition init_job ::
  "('p \<Rightarrow> ('p, 'a, 'w) ProcessStates) \<Rightarrow> TaskData \<Rightarrow> ('p, 'a, 'z) sched_mem_scheme \<Rightarrow>
   (ptr \<times> ('p, 'a, 'z) sched_mem_scheme) result"
where
  "init_job env pTable m =
     bindR (deref (proc_heap m) (procTable pTable)) (\<lambda>t.
       (case processState t of
          None \<Rightarrow> Inl NullPointer
        | Some p \<Rightarrow>
            if ps_type (env p) = 0 then Inl DivideByZero
            else
              let job = setCpuTimeSlice
                    (word_of_int (calculate_priority_timeslice (pt_priority t) div int (ps_type (env p))))
                    (new_QueueJob (procTable pTable))
              in Inr (job_next m, m\<lparr>job_heap := (job_heap m)(job_next m \<mapsto> job), job_next := Suc (job_next m)\<rparr>)))"

subsection \<open>Looking for a queue\<close>

definition get_total_empty_slots :: "ThreadQueue list \<Rightarrow> int" where
  "get_total_empty_slots qs = fold (\<lambda>q totalSlots. totalSlots + (int QUEUE_SIZE - getTotalJobsInQueue q)) qs 0"

text \<open>
  \<open>get_quickest_queue\<close>: the loop variable is the position of the first queue of the list.
  The inner loop of the source assigns the same value again and again.
\<close>

fun quickest_loop ::
  "('p, 'a, 'z) sched_mem_scheme \<Rightarrow> nat \<Rightarrow> ThreadQueue list \<Rightarrow> int \<Rightarrow> 64 word \<Rightarrow> int result"
where
  "quickest_loop m i [] tid lowestWaitTime = Inr tid"
| "quickest_loop m i (q # qs) tid lowestWaitTime =
     (if getTotalJobsInQueue q \<ge> int QUEUE_SIZE then quickest_loop m (Suc i) qs tid lowestWaitTime
      else bindR (getTotalWaitTime m q) (\<lambda>w.
        let totalWaitTime = word_of_int w in
        if lowestWaitTime > totalWaitTime then quickest_loop m (Suc i) qs (int i) totalWaitTime
        else quickest_loop m (Suc i) qs tid lowestWaitTime))"

definition get_quickest_queue :: "('p, 'a, 'z) sched_mem_scheme \<Rightarrow> ThreadQueue list \<Rightarrow> int result" where
  "get_quickest_queue m qs = quickest_loop m 0 qs (- 1) 2147483647"

fun empty_loop :: "('p, 'a, 'z) sched_mem_scheme \<Rightarrow> nat \<Rightarrow> ThreadQueue list \<Rightarrow> int result" where
  "empty_loop m i [] = Inr (- 1)"
| "empty_loop m i (q # qs) =
     bindR (getTotalWaitTime m q) (\<lambda>w. if w = 0 then Inr (int i) else empty_loop m (Suc i) qs)"

definition get_empty_thread_queue :: "('p, 'a, 'z) sched_mem_scheme \<Rightarrow> ThreadQueue list \<Rightarrow> int result" where
  "get_empty_thread_queue m qs = empty_loop m 0 qs"

fun busiest_loop :: "('p, 'a, 'z) sched_mem_scheme \<Rightarrow> nat \<Rightarrow> ThreadQueue list \<Rightarrow> int \<Rightarrow> int \<Rightarrow> int result" where
  "busiest_loop m i [] busiestThreadId largestWaitTime = Inr busiestThreadId"
| "busiest_loop m i (q # qs) busiestThreadId largestWaitTime =
     (if getTotalJobsInQueue q < 2 then busiest_loop m (Suc i) qs busiestThreadId largestWaitTime
      else bindR (getTotalWaitTime m q) (\<lambda>tempWaitTime.
        if tempWaitTime > largestWaitTime then busiest_loop m (Suc i) qs (int i) largestWaitTime
        else busiest_loop m (Suc i) qs busiestThreadId largestWaitTime))"

definition get_busiest_thread_queue :: "('p, 'a, 'z) sched_mem_scheme \<Rightarrow> ThreadQueue list \<Rightarrow> int result" where
  "get_busiest_thread_queue m qs = busiest_loop m 0 qs (- 1) 0"

subsection \<open>Rebalancing\<close>

text \<open>
  The inner \<open>while\<close> of \<open>rebalance_thread_queues\<close>, on the idle queue and the busy one. Each
  round that goes on takes a job out of the busy queue.
\<close>

function move_loop ::
  "('p, 'a, 'z) sched_mem_scheme \<Rightarrow> ThreadQueue \<Rightarrow> ThreadQueue \<Rightarrow> (ThreadQueue \<times> ThreadQueue) result"
where
  "move_loop m qf qb =
     bindR (getTotalWaitTime m qf) (\<lambda>wf.
     bindR (getTotalWaitTime m qb) (\<lambda>wb.
       if wf < wb
       then bindR (popJob m qb) (\<lambda>(job, qb').
              (case addNewTask job qf of (rc, qf') \<Rightarrow>
                 if rc \<noteq> 0 then Inr (qf', qb') else move_loop m qf' qb'))
       else Inr (qf, qb)))"
  by pat_completeness auto
termination
  by (relation "measure (\<lambda>(m, qf, qb). card (occupied qb))") (auto dest!: addNewTask_Some [OF sym] intro: popJob_card)

declare move_loop.simps [simp del]

fun rebalance_loop :: "nat \<Rightarrow> ('p, 'a, 'z) sched_mem_scheme \<Rightarrow> ThreadQueue list \<Rightarrow> (ThreadQueue list) result" where
  "rebalance_loop 0 m qs = Inr qs"
| "rebalance_loop (Suc n) m qs =
     bindR (get_empty_thread_queue m qs) (\<lambda>freeThreadId.
       if freeThreadId < 0 then Inr qs
       else bindR (get_busiest_thread_queue m qs) (\<lambda>busiestThreadId.
         if busiestThreadId = freeThreadId \<or> busiestThreadId < 0 then Inr qs
         else bindR (move_loop m (qs ! nat freeThreadId) (qs ! nat busiestThreadId)) (\<lambda>(qf, qb).
           rebalance_loop n m (qs[nat freeThreadId := qf, nat busiestThreadId := qb]))))"

definition rebalance_thread_queues ::
  "('p, 'a, 'z) sched_mem_scheme \<Rightarrow> ThreadQueue list \<Rightarrow> (ThreadQueue list) result"
where
  "rebalance_thread_queues m qs =
     (if get_total_empty_slots qs \<le> 0 then Inr qs else rebalance_loop (length qs - 1) m qs)"

subsection \<open>One round of the scheduler thread\<close>

fun flush_all ::
  "ThreadQueue list \<Rightarrow> ('p, 'a, 'z) sched_mem_scheme \<Rightarrow> (('p, 'a, 'z) sched_mem_scheme \<times> ThreadQueue list) result"
where
  "flush_all [] m = Inr (m, [])"
| "flush_all (q # qs) m =
     bindR (flushFinishedJobs m q) (\<lambda>(m', q').
     bindR (flush_all qs m') (\<lambda>(m'', qs'). Inr (m'', q' # qs')))"

text \<open>
  The loop over the free slots: take the first task of the pool, make a job of it and put
  it into the quickest queue. \<open>td0\<close> is the content of the local \<open>taskData\<close>.
\<close>

fun dispatch_loop ::
  "nat \<Rightarrow> ('p \<Rightarrow> ('p, 'a, 'w) ProcessStates) \<Rightarrow> TaskData \<Rightarrow> ('p, 'a, 'z) sched_mem_scheme \<Rightarrow> ThreadQueue list \<Rightarrow>
   (('p, 'a, 'z) sched_mem_scheme \<times> ThreadQueue list) result"
where
  "dispatch_loop 0 env td0 m qs = Inr (m, qs)"
| "dispatch_loop (Suc n) env td0 m qs =
     (if length (taskSink m) > 0
      then bindR (get_quickest_queue m qs) (\<lambda>threadId.
             if threadId < 0 then Inr (m, qs)
             else
               (case getScheduledTask td0 m of (rc, taskData, m1) \<Rightarrow>
                  if rc \<noteq> 0 then Inr (m1, qs)
                  else bindR (init_job env taskData m1) (\<lambda>(job, m2).
                    dispatch_loop n env taskData m2
                      (qs[nat threadId := snd (addNewTask (Some job) (qs ! nat threadId))]))))
      else Inr (m, qs))"

definition sched_round ::
  "('p \<Rightarrow> ('p, 'a, 'w) ProcessStates) \<Rightarrow> TaskData \<Rightarrow> ('p, 'a, 'z) sched_mem_scheme \<Rightarrow> ThreadQueue list \<Rightarrow>
   (('p, 'a, 'z) sched_mem_scheme \<times> ThreadQueue list) result"
where
  "sched_round env td0 m qs =
     (let qSlots = get_total_empty_slots qs in
      bindR (flush_all qs m) (\<lambda>(m1, qs1).
      bindR (dispatch_loop (nat qSlots) env td0 m1 qs1) (\<lambda>(m2, qs2).
      bindR (rebalance_thread_queues m2 qs2) (\<lambda>qs3. Inr (m2, qs3)))))"

subsection \<open>One turn of a task thread\<close>

definition set_error ::
  "ptr option \<Rightarrow> ('p, 'a, 'z) sched_mem_scheme \<Rightarrow> ('p, 'a, 'z) sched_mem_scheme result"
where
  "set_error j m =
     (case j of
        None \<Rightarrow> Inl NullPointer
      | Some p \<Rightarrow> bindR (deref (job_heap m) j) (\<lambda>job.
          Inr (m\<lparr>job_heap := (job_heap m)(p \<mapsto> job\<lparr>jobErrorHandle := setFlag (jobErrorHandle job)\<rparr>)\<rparr>)))"

text \<open>
  One pass through the body of \<open>while (!timer->jobShouldPause)\<close>; \<open>True\<close> in the first
  component means \<open>continue\<close>, \<open>False\<close> means the loop is left by \<open>break\<close>.
\<close>

definition run_pass ::
  "('p \<Rightarrow> ('p, 'a, 'w) ProcessStates) \<Rightarrow> JobTimer \<Rightarrow> ptr option \<Rightarrow> ('p, 'a, 'z) sched_mem_scheme \<Rightarrow> 'w \<Rightarrow>
   (bool \<times> ('p, 'a, 'z) sched_mem_scheme \<times> 'w) result"
where
  "run_pass env timer j m w =
     bindR (runStartProcess env j m w) (\<lambda>(st, w1).
     bindR (setJobStatus st j m) (\<lambda>m1.
     bindR (isJobStatusSet JOB_PENDING j m1) (\<lambda>pending.
     bindR (isJobStatusSet JOB_DONE j m1) (\<lambda>finished.
     bindR (isJobStatusSet JOB_FAILED j m1) (\<lambda>failed.
     bindR (deref (job_heap m1) j) (\<lambda>job.
       if pending \<and> \<not> finished
       then (if jobShouldPause timer \<and> getCpuTimeSlice job \<noteq> 0
             then bindR (runPauseProcess env j m1 w1) (\<lambda>(_, w2). Inr (False, m1, w2))
             else Inr (True, m1, w1))
       else if failed
       then bindR (set_error j m1) (\<lambda>m2. Inr (False, m2, w1))
       else Inr (False, m1, w1)))))))"

text \<open>The loop itself may run forever: \<open>None\<close> when the fuel does not suffice.\<close>

fun run_loop ::
  "nat \<Rightarrow> ('p \<Rightarrow> ('p, 'a, 'w) ProcessStates) \<Rightarrow> JobTimer \<Rightarrow> ptr option \<Rightarrow> ('p, 'a, 'z) sched_mem_scheme \<Rightarrow> 'w \<Rightarrow>
   ((('p, 'a, 'z) sched_mem_scheme \<times> 'w) result) option"
where
  "run_loop 0 env timer j m w = None"
| "run_loop (Suc fuel) env timer j m w =
     (if jobShouldPause timer then Some (Inr (m, w))
      else (case run_pass env timer j m w of
          Inl e \<Rightarrow> Some (Inl e)
        | Inr (again, m1, w1) \<Rightarrow> if again then run_loop fuel env timer j m1 w1 else Some (Inr (m1, w1))))"

text \<open>The submissions a handler makes, in order.\<close>

fun submit_all ::
  "('p \<Rightarrow> ('p, 'a, 'w) ProcessStates) \<Rightarrow> uninit \<Rightarrow> ('p, 'a) submission list \<Rightarrow> ('p, 'a, 'z) sched_mem_scheme \<Rightarrow>
   ('p, 'a, 'z) sched_mem_scheme result"
where
  "submit_all env u [] m = Inr m"
| "submit_all env u ((p, a, prio) # subs) m =
     bindR (scheduleTask env u p a prio m) (\<lambda>(rc, m'). submit_all env u subs m')"

text \<open>The branch of \<open>thread_task\<close> for a job whose \<open>JOB_DONE\<close> bit is set.\<close>

definition finish_job ::
  "('p \<Rightarrow> ('p, 'a, 'w) ProcessStates) \<Rightarrow> uninit \<Rightarrow> ptr option \<Rightarrow> ('p, 'a, 'z) sched_mem_scheme \<Rightarrow> ThreadQueue \<Rightarrow> 'w \<Rightarrow>
   (('p, 'a, 'z) sched_mem_scheme \<times> ThreadQueue \<times> 'w) result"
where
  "finish_job env u j m q w =
     bindR (deref (job_heap m) j) (\<lambda>job.
     bindR (if isFlagSet (jobErrorHandle job) then runFailProcess env j m w else runEndProcess env j m w)
       (\<lambda>(w1, subs).
     bindR (submit_all env u subs m) (\<lambda>m1.
       let m2 = (case processTable job of None \<Rightarrow> m1 | Some a \<Rightarrow> unregisterProcess a m1) in
     bindR (markTaskAsComplete m2 q) (\<lambda>(m3, q'). Inr (m3, q', w1)))))"

definition thread_turn ::
  "nat \<Rightarrow> ('p \<Rightarrow> ('p, 'a, 'w) ProcessStates) \<Rightarrow> uninit \<Rightarrow> ('p, 'a, 'z) sched_mem_scheme \<Rightarrow> ThreadQueue \<Rightarrow> 'w \<Rightarrow>
   ((('p, 'a, 'z) sched_mem_scheme \<times> ThreadQueue \<times> 'w) result) option"
where
  "thread_turn fuel env u m q w =
     (case getNextTask q of (j, q1) \<Rightarrow>
        if j = None then Some (Inr (m, q1, w))
        else (case isJobStatusSet JOB_DONE j m of
            Inl e \<Rightarrow> Some (Inl e)
          | Inr True \<Rightarrow> Some (finish_job env u j m q1 w)
          | Inr False \<Rightarrow>
              (case bindR (setJobStatus JOB_RUNNING j m) (\<lambda>m1. bindR (deref (job_heap m1) j) (\<lambda>job. Inr (m1, job))) of
                 Inl e \<Rightarrow> Some (Inl e)
               | Inr (m1, job) \<Rightarrow>
                   map_option (\<lambda>r. bindR r (\<lambda>(m2, w2). Inr (m2, q1, w2)))
                     (run_loop fuel env (fst (init_timer 0 job)) j m1 w))))"

subsection \<open>Starting and stopping\<close>

text \<open>\<open>max_thread\<close>, the argument of \<open>init_sched\<close>, is not used: the count comes from the configuration.\<close>

definition init_sched :: "(nat \<Rightarrow> nat \<Rightarrow> ptr option) \<Rightarrow> int \<Rightarrow> nat \<Rightarrow> ThreadQueue list" where
  "init_sched g totalThreadCount max_thread =
     map (\<lambda>i. new_ThreadQueue (g i) i) [0..<nat totalThreadCount]"

text \<open>The condition on which \<open>exit_sched\<close> goes on waiting.\<close>

definition exit_sched_waits :: "ThreadQueue list \<Rightarrow> bool" where
  "exit_sched_waits qs \<longleftrightarrow> get_total_empty_slots qs - int (length qs) * int QUEUE_SIZE \<noteq> 0"

end
