(* ===== verification/Sched_Jobs.thy ===== *)
theory Sched_Jobs
  imports Scheduler
begin

section \<open>What happens to a job in a task thread\<close>

text \<open>
  Lemmas on \<open>init_job\<close>, on the passes of a task thread over one job and on the branch that
  finishes a job.
\<close>

subsection \<open>Reading and writing a job's status\<close>

text \<open>\<open>live_job m j a w\<close>: job \<open>j\<close> points to the live table \<open>a\<close> whose status word is \<open>w\<close>.\<close>

definition live_job :: "('p, 'a, 'z) sched_mem_scheme \<Rightarrow> ptr \<Rightarrow> QueueJob \<Rightarrow> ptr \<Rightarrow> ('p, 'a) ProcessTable \<Rightarrow> bool" where
  "live_job m j job a t \<longleftrightarrow> job_heap m j = Some job \<and> processTable job = Some a \<and> proc_heap m a = Some t"

lemma isJobStatusSet_live [simp]:
  "live_job m j job a t \<Longrightarrow> isJobStatusSet st (Some j) m = Inr (status_isset st (jobStatus t))"
  by (simp add: isJobStatusSet_def job_status_def live_job_def)

lemma setJobStatus_live:
  assumes "live_job m j job a t"
  obtains m' where "setJobStatus st (Some j) m = Inr m'"
    and "m' = m\<lparr>proc_heap := (proc_heap m)(a \<mapsto> t\<lparr>jobStatus := status_set st (jobStatus t)\<rparr>)\<rparr>"
    and "live_job m' j job a (t\<lparr>jobStatus := status_set st (jobStatus t)\<rparr>)"
proof -
  let ?m = "m\<lparr>proc_heap := (proc_heap m)(a \<mapsto> t\<lparr>jobStatus := status_set st (jobStatus t)\<rparr>)\<rparr>"
  have "setJobStatus st (Some j) m = Inr ?m"
    and "live_job ?m j job a (t\<lparr>jobStatus := status_set st (jobStatus t)\<rparr>)"
    using assms by (simp_all add: setJobStatus_def live_job_def)
  then show ?thesis by (intro that) auto
qed

lemma setJobStatus_cases:
  assumes "setJobStatus st j m = Inr m'"
  obtains (freed) p job a where "j = Some p" and "job_heap m p = Some job"
      and "processTable job = Some a" and "proc_heap m a = None" and "m' = m\<lparr>freed_write := True\<rparr>"
  | (live) p job a t where "j = Some p" and "live_job m p job a t"
      and "m' = m\<lparr>proc_heap := (proc_heap m)(a \<mapsto> t\<lparr>jobStatus := status_set st (jobStatus t)\<rparr>)\<rparr>"
proof -
  obtain p job where p: "j = Some p" "job_heap m p = Some job"
    and rest: "(case processTable job of None \<Rightarrow> Inl NullPointer
        | Some a \<Rightarrow> (case proc_heap m a of None \<Rightarrow> Inr (m\<lparr>freed_write := True\<rparr>)
             | Some t \<Rightarrow> Inr (m\<lparr>proc_heap := (proc_heap m)(a \<mapsto>
                           t\<lparr>jobStatus := status_set st (jobStatus t)\<rparr>)\<rparr>))) = Inr m'"
    using assms by (auto simp: setJobStatus_def bindR_eq_Inr)
  then obtain a where a: "processTable job = Some a" by (cases "processTable job") simp_all
  show ?thesis
  proof (cases "proc_heap m a")
    case None
    with rest a p show ?thesis by (intro freed) simp_all
  next
    case (Some t)
    with rest a p show ?thesis by (intro live [of p job a t]) (simp_all add: live_job_def)
  qed
qed

lemma setJobStatus_frame:
  assumes "setJobStatus st j m = Inr m'"
  shows "job_heap m' = job_heap m" and "taskSink m' = taskSink m" and "pidVector m' = pidVector m"
    and "job_next m' = job_next m" and "proc_next m' = proc_next m"
    and "dom (proc_heap m') = dom (proc_heap m)"
  using assms by (rule setJobStatus_cases; auto simp: live_job_def)+

lemma run_handler_live:
  assumes "live_job m j job a t" and "processState t = Some p" and "field (env p) = Some f"
  shows "run_handler field env (Some j) m w = f (pt_args t) w"
  using assms by (simp add: run_handler_def job_table_def live_job_def)

subsection \<open>No job has a time slice, so no job is ever paused\<close>

lemma init_job_eq:
  assumes "init_job env td m = Inr (j, m')"
  shows "j = job_next m"
    and "m' = m\<lparr>job_heap := (job_heap m)(j \<mapsto>
             \<lparr>cpuSliceMs = 0, processTable = procTable td, jobErrorHandle = False\<rparr>), job_next := Suc j\<rparr>"
  using assms
  by (auto simp: init_job_def result_simps setCpuTimeSlice_def new_QueueJob_def Let_def
      split: option.splits if_splits)

lemma run_pass_pause_irrelevant:
  assumes "job_heap m j = Some job" and "cpuSliceMs job = 0"
  shows "run_pass (\<lambda>p. (env p)\<lparr>pause_proc := f p\<rparr>) timer (Some j) m w = run_pass env timer (Some j) m w"
proof -
  have start: "runStartProcess (\<lambda>p. (env p)\<lparr>pause_proc := f p\<rparr>) (Some j) m w = runStartProcess env (Some j) m w"
    unfolding runStartProcess_def run_handler_def
    by (intro bindR_cong refl) (simp split: option.split)
  show ?thesis
  proof (cases "runStartProcess env (Some j) m w")
    case (Inl e)
    then show ?thesis by (simp add: run_pass_def start)
  next
    case (Inr r)
    obtain st w1 where r: "r = (st, w1)" by (cases r)
    show ?thesis
    proof (cases "setJobStatus st (Some j) m")
      case (Inl e)
      with Inr r show ?thesis by (simp add: run_pass_def start)
    next
      case m1: (Inr m1)
      then have "deref (job_heap m1) (Some j) = Inr job"
        using setJobStatus_frame(1) [OF m1] assms(1) by simp
      with Inr r m1 assms(2) show ?thesis
        by (simp add: run_pass_def start getCpuTimeSlice_def)
    qed
  qed
qed

text \<open>The scheduler gives every job the time slice 0, whatever its priority and stage, so
  no timer thread is ever started for it, and the pause handlers of the stages have no
  influence on what a task thread does with it: a job runs until its start handler stops
  asking for another round.\<close>

theorem no_job_is_ever_paused:
  assumes "init_job env td m = Inr (j, m')"
  shows "\<exists>job. job_heap m' j = Some job \<and> getCpuTimeSlice job = 0 \<and>
     init_timer slice0 job = (\<lparr>allowedCpuSlice = slice0, jobShouldPause = False\<rparr>, False) \<and>
     run_pass (\<lambda>p. (env p)\<lparr>pause_proc := f p\<rparr>) timer (Some j) m' w = run_pass env timer (Some j) m' w"
proof -
  let ?job = "\<lparr>cpuSliceMs = 0, processTable = procTable td, jobErrorHandle = False\<rparr>"
  have "job_heap m' j = Some ?job" by (simp add: init_job_eq [OF assms])
  moreover from this have "run_pass (\<lambda>p. (env p)\<lparr>pause_proc := f p\<rparr>) timer (Some j) m' w =
      run_pass env timer (Some j) m' w"
    by (rule run_pass_pause_irrelevant) simp
  ultimately show ?thesis by (simp add: getCpuTimeSlice_def init_timer_def)
qed

text \<open>A small set of stages for the examples: one stage whose start handler counts down.\<close>

definition count_stage :: "(unit, unit, nat) ProcessStates" where
  "count_stage = \<lparr>ps_type = RECEIVER_STAGE,
     start_proc = Some (\<lambda>_ n. Inr (if n = 0 then (JOB_DONE, n) else (JOB_PENDING, n - 1))),
     pause_proc = None,
     end_proc = Some (\<lambda>_ n. Inr (n, [])),
     fail_proc = None\<rparr>"

definition example_mem :: "(unit, unit) sched_mem" where
  "example_mem = \<lparr>proc_heap = [7 \<mapsto> new_ProcessTable\<lparr>processState := Some (), pt_args := Some ()\<rparr>],
     proc_next = 8, pidVector = [7], taskSink = [], job_heap = [3 \<mapsto> new_QueueJob (Some 7)],
     job_next = 4, freed_write = False\<rparr>"

theorem no_job_is_ever_paused_witness:
  "\<exists>j m'. init_job (\<lambda>_. count_stage) \<lparr>procTable = Some 7, poolPriority = HIGH_PRIORITY, starveCounter = 0\<rparr>
       example_mem = Inr (j, m') \<and>
     (\<exists>job. job_heap m' j = Some job \<and> getCpuTimeSlice job = 0)"
proof -
  let ?td = "\<lparr>procTable = Some 7, poolPriority = HIGH_PRIORITY, starveCounter = 0\<rparr>"
  obtain j m' where i: "init_job (\<lambda>_. count_stage) ?td example_mem = Inr (j, m')"
    by (simp add: init_job_def example_mem_def count_stage_def Let_def)
  from no_job_is_ever_paused [OF i] show ?thesis using i by blast
qed

subsection \<open>The loop over start_proc\<close>

lemma run_pass_start:
  assumes live: "live_job m j job a t" and stage: "processState t = Some p" "start_proc (env p) = Some f"
    and f: "f (pt_args t) w = Inr (st, w1)" and slice: "cpuSliceMs job = 0"
  obtains m1 where
    "m1 = m\<lparr>proc_heap := (proc_heap m)(a \<mapsto> t\<lparr>jobStatus := status_set st (jobStatus t)\<rparr>)\<rparr>"
    and "live_job m1 j job a (t\<lparr>jobStatus := status_set st (jobStatus t)\<rparr>)"
    and "run_pass env timer (Some j) m w =
      (if status_isset JOB_PENDING (status_set st (jobStatus t)) \<and>
          \<not> status_isset JOB_DONE (status_set st (jobStatus t)) then Inr (True, m1, w1)
       else if status_isset JOB_FAILED (status_set st (jobStatus t))
         then bindR (set_error (Some j) m1) (\<lambda>m2. Inr (False, m2, w1))
       else Inr (False, m1, w1))"
proof -
  obtain m1 where m1: "setJobStatus st (Some j) m = Inr m1"
      "m1 = m\<lparr>proc_heap := (proc_heap m)(a \<mapsto> t\<lparr>jobStatus := status_set st (jobStatus t)\<rparr>)\<rparr>"
    and live1: "live_job m1 j job a (t\<lparr>jobStatus := status_set st (jobStatus t)\<rparr>)"
    using live by (rule setJobStatus_live)
  have "runStartProcess env (Some j) m w = Inr (st, w1)"
    using run_handler_live [where field = start_proc and env = env and w = w, OF live stage(1)] stage(2) f by (simp add: runStartProcess_def)
  moreover have "deref (job_heap m1) (Some j) = Inr job" using live1 by (simp add: live_job_def)
  ultimately show ?thesis
    using that [OF m1(2) live1] live1 m1(1) slice
    by (simp add: run_pass_def getCpuTimeSlice_def)
qed

text \<open>C24: A start handler that keeps asking for another round with decreasing measure and then
  reports \<open>JOB_DONE\<close> is run to its end: the loop of the task thread returns with enough fuel,
  and leaves the job with its \<open>JOB_DONE\<close> bit set and its other data untouched.\<close>

theorem run_loop_finishes:
  assumes "live_job m j job a t" and "processState t = Some p" and "start_proc (env p) = Some f"
    and "cpuSliceMs job = 0" and "\<not> jobShouldPause timer"
    and "\<not> status_isset JOB_FAILED (jobStatus t)"
    and "\<And>w. (\<exists>w'. f (pt_args t) w = Inr (JOB_PENDING, w') \<and> \<mu> w' < (\<mu> w :: nat)) \<or>
              (\<exists>w'. f (pt_args t) w = Inr (JOB_DONE, w'))"
    and "\<mu> w < fuel"
  shows "\<exists>m' w' s. run_loop fuel env timer (Some j) m w = Some (Inr (m', w')) \<and>
     live_job m' j job a (t\<lparr>jobStatus := s\<rparr>) \<and> status_isset JOB_DONE s \<and> job_heap m' = job_heap m"
  using assms(1,2,6,7,8)
proof (induction fuel arbitrary: m t w)
  case 0
  then show ?case by simp
next
  case (Suc fuel)
  from Suc.prems(4) consider
    (pending) w' where "f (pt_args t) w = Inr (JOB_PENDING, w')" "\<mu> w' < \<mu> w"
    | (finished) w' where "f (pt_args t) w = Inr (JOB_DONE, w')" by blast
  then show ?case
  proof cases
    case pending
    let ?t = "t\<lparr>jobStatus := status_set JOB_PENDING (jobStatus t)\<rparr>"
    obtain m1 where m1: "m1 = m\<lparr>proc_heap := (proc_heap m)(a \<mapsto> ?t)\<rparr>" "live_job m1 j job a ?t"
      and pass: "run_pass env timer (Some j) m w =
        (if status_isset JOB_PENDING (status_set JOB_PENDING (jobStatus t)) \<and>
          \<not> status_isset JOB_DONE (status_set JOB_PENDING (jobStatus t)) then Inr (True, m1, w')
       else if status_isset JOB_FAILED (status_set JOB_PENDING (jobStatus t))
         then bindR (set_error (Some j) m1) (\<lambda>m2. Inr (False, m2, w'))
       else Inr (False, m1, w'))"
      using Suc.prems(1,2) assms(3) pending(1) assms(4) by (rule run_pass_start)
    show ?thesis
    proof (cases "status_isset JOB_DONE (jobStatus t)")
      case True
      then have "run_loop (Suc fuel) env timer (Some j) m w = Some (Inr (m1, w'))"
        using pass assms(5) Suc.prems(3) by simp
      then show ?thesis using m1 True by auto
    next
      case False
      then have "run_loop (Suc fuel) env timer (Some j) m w = run_loop fuel env timer (Some j) m1 w'"
        using pass assms(5) by simp
      moreover have "\<mu> w' < fuel" using pending(2) Suc.prems(5) by simp
      ultimately show ?thesis
        using Suc.IH [OF m1(2) _ _ _ \<open>\<mu> w' < fuel\<close>] Suc.prems(2-4) m1(1) by auto
    qed
  next
    case finished
    let ?t = "t\<lparr>jobStatus := status_set JOB_DONE (jobStatus t)\<rparr>"
    obtain m1 where m1: "m1 = m\<lparr>proc_heap := (proc_heap m)(a \<mapsto> ?t)\<rparr>" "live_job m1 j job a ?t"
      and pass: "run_pass env timer (Some j) m w =
        (if status_isset JOB_PENDING (status_set JOB_DONE (jobStatus t)) \<and>
          \<not> status_isset JOB_DONE (status_set JOB_DONE (jobStatus t)) then Inr (True, m1, w')
       else if status_isset JOB_FAILED (status_set JOB_DONE (jobStatus t))
         then bindR (set_error (Some j) m1) (\<lambda>m2. Inr (False, m2, w'))
       else Inr (False, m1, w'))"
      using Suc.prems(1,2) assms(3) finished assms(4) by (rule run_pass_start)
    then have "run_loop (Suc fuel) env timer (Some j) m w = Some (Inr (m1, w'))"
      using assms(5) Suc.prems(3) by simp
    with m1 show ?thesis by auto
  qed
qed

definition blank_timer :: JobTimer where
  "blank_timer = \<lparr>allowedCpuSlice = 0, jobShouldPause = False\<rparr>"

theorem run_loop_finishes_witness:
  "\<exists>m' w' s. run_loop 3 (\<lambda>_. count_stage) blank_timer (Some 3) example_mem 2 = Some (Inr (m', w')) \<and>
     live_job m' 3 (new_QueueJob (Some 7)) 7
       (new_ProcessTable\<lparr>processState := Some (), pt_args := Some ()\<rparr>\<lparr>jobStatus := s\<rparr>) \<and>
     status_isset JOB_DONE s \<and> job_heap m' = job_heap example_mem"
proof (rule run_loop_finishes [where \<mu> = "\<lambda>w. w"])
  show "live_job example_mem 3 (new_QueueJob (Some 7)) 7
      (new_ProcessTable\<lparr>processState := Some (), pt_args := Some ()\<rparr>)"
    by (simp add: live_job_def example_mem_def new_QueueJob_def)
  show "start_proc count_stage =
      Some (\<lambda>_ n. Inr (if n = 0 then (JOB_DONE, n) else (JOB_PENDING, n - 1)))"
    by (simp add: count_stage_def)
qed (auto simp: new_QueueJob_def new_ProcessTable_def blank_timer_def)

subsection \<open>Failure of a job\<close>

lemma failed_job_turn:
  assumes "getNextTask q = (Some j, q1)" and "live_job m j job a t"
    and "processState t = Some p" and "start_proc (env p) = Some f" and "cpuSliceMs job = 0"
    and "\<not> status_isset JOB_DONE (jobStatus t)" and "\<not> status_isset JOB_PENDING (jobStatus t)"
    and "f (pt_args t) w = Inr (JOB_FAILED, w')"
  shows "\<exists>m' job' s. thread_turn (Suc fuel) env u m q w = Some (Inr (m', q1, w')) \<and>
     live_job m' j job' a (t\<lparr>jobStatus := s\<rparr>) \<and> jobErrorHandle job' \<and> cpuSliceMs job' = 0 \<and>
     \<not> status_isset JOB_DONE s \<and> \<not> status_isset JOB_PENDING s \<and> taskSink m' = taskSink m"
proof -
  let ?t1 = "t\<lparr>jobStatus := status_set JOB_RUNNING (jobStatus t)\<rparr>"
  let ?s = "status_set JOB_FAILED (jobStatus ?t1)"
  obtain m1 where m1: "setJobStatus JOB_RUNNING (Some j) m = Inr m1"
      "m1 = m\<lparr>proc_heap := (proc_heap m)(a \<mapsto> ?t1)\<rparr>" and live1: "live_job m1 j job a ?t1"
    using assms(2) by (rule setJobStatus_live)
  have f: "f (pt_args ?t1) w = Inr (JOB_FAILED, w')" using assms(8) by simp
  let ?timer = "fst (init_timer 0 job)"
  obtain m2 where m2: "m2 = m1\<lparr>proc_heap := (proc_heap m1)(a \<mapsto> ?t1\<lparr>jobStatus := ?s\<rparr>)\<rparr>"
      and live2: "live_job m2 j job a (?t1\<lparr>jobStatus := ?s\<rparr>)"
      and pass: "run_pass env ?timer (Some j) m1 w =
        (if status_isset JOB_PENDING ?s \<and> \<not> status_isset JOB_DONE ?s then Inr (True, m2, w')
         else if status_isset JOB_FAILED ?s then bindR (set_error (Some j) m2) (\<lambda>m2. Inr (False, m2, w'))
         else Inr (False, m2, w'))"
    by (rule run_pass_start [where env = env and p = p and f = f, OF live1 _ assms(4) f assms(5)])
      (use assms(3) in auto)
  let ?m3 = "m2\<lparr>job_heap := (job_heap m2)(j \<mapsto> job\<lparr>jobErrorHandle := True\<rparr>)\<rparr>"
  have "set_error (Some j) m2 = Inr ?m3"
    using live2 by (simp add: set_error_def live_job_def)
  then have "run_pass env ?timer (Some j) m1 w = Inr (False, ?m3, w')"
    using pass assms(7) by simp
  then have "run_loop (Suc fuel) env ?timer (Some j) m1 w = Some (Inr (?m3, w'))"
    by (simp add: init_timer_def Let_def)
  moreover have "isJobStatusSet JOB_DONE (Some j) m = Inr False"
    using isJobStatusSet_live [OF assms(2)] assms(6) by simp
  moreover have "deref (job_heap m1) (Some j) = Inr job" using live1 by (simp add: live_job_def)
  ultimately have turn: "isJobStatusSet JOB_DONE (Some j) m = Inr False"
    "deref (job_heap m1) (Some j) = Inr job"
    "run_loop (Suc fuel) env ?timer (Some j) m1 w = Some (Inr (?m3, w'))" by simp_all
  then have "thread_turn (Suc fuel) env u m q w = Some (Inr (?m3, q1, w'))"
    using assms(1) turn by (simp add: thread_turn_def m1(1) del: run_loop.simps)
  moreover have "live_job ?m3 j (job\<lparr>jobErrorHandle := True\<rparr>) a (t\<lparr>jobStatus := ?s\<rparr>)"
    using live2 by (simp add: live_job_def)
  moreover have "taskSink ?m3 = taskSink m" by (simp add: m1 m2)
  ultimately show ?thesis
    using assms(5-7) by (intro exI [of _ ?m3] exI [of _ "job\<lparr>jobErrorHandle := True\<rparr>"] exI [of _ ?s]) simp
qed

text \<open>A job whose start handler reports \<open>JOB_FAILED\<close> has its error flag set and stays in
  its slot without the \<open>JOB_DONE\<close> bit. So the thread's next turn on the slot does not call the
  fail handler: it is in the same situation again, and starts the handler once more.\<close>

theorem failed_job_is_rerun:
  assumes "getNextTask q = (Some j, q1)" and "live_job m j job a t"
    and "processState t = Some p" and "start_proc (env p) = Some f" and "cpuSliceMs job = 0"
    and "\<not> status_isset JOB_DONE (jobStatus t)" and "\<not> status_isset JOB_PENDING (jobStatus t)"
    and "f (pt_args t) w = Inr (JOB_FAILED, w')"
  shows "\<exists>m' job' s. thread_turn (Suc fuel) env u m q w = Some (Inr (m', q1, w')) \<and>
     live_job m' j job' a (t\<lparr>jobStatus := s\<rparr>) \<and> jobErrorHandle job' \<and> cpuSliceMs job' = 0 \<and>
     \<not> status_isset JOB_DONE s \<and> \<not> status_isset JOB_PENDING s \<and> taskSink m' = taskSink m"
  using assms by (rule failed_job_turn [where f = f])

definition fail_stage :: "(unit, unit, nat) ProcessStates" where
  "fail_stage = count_stage\<lparr>start_proc := Some (\<lambda>_ n. Inr (JOB_FAILED, Suc n))\<rparr>"

definition example_queue :: ThreadQueue where
  "example_queue = snd (addNewTask (Some 3) (new_ThreadQueue (\<lambda>_. None) 0))"

lemma example_queue_eq:
  "example_queue = \<lparr>threadID = 0, head = 0, jobQueue = (\<lambda>_. None)(0 := Some 3),
     jobSlotDone = (\<lambda>_. True)(0 := False), threadShouldStop = False, totalJobsInQueue = 1\<rparr>"
  by (simp add: example_queue_def addNewTask_def new_ThreadQueue_def first_slot_def upt_conv_Cons)

text \<open>The head stands on the last slot, so the next turn wraps around to slot 0.\<close>

lemma getNextTask_hit:
  assumes "\<not> jobSlotDone q (Suc (head q) mod 4)"
  shows "getNextTask q = (jobQueue q (Suc (head q) mod 4), q\<lparr>head := Suc (head q) mod 4\<rparr>)"
proof -
  have four: "QUEUE_SIZE = Suc 3" by simp
  show ?thesis
    unfolding getNextTask_def four next_loop.simps using assms by (simp add: Let_def)
qed

lemma example_queue_next: "getNextTask (example_queue\<lparr>head := 3\<rparr>) = (Some 3, example_queue)"
  by (subst getNextTask_hit) (simp_all add: example_queue_eq)

definition example_uninit :: uninit where
  "example_uninit = \<lparr>u_pid = 0, u_draws = [], u_priority = LOW_PRIORITY, u_starve = 0\<rparr>"

lemma example_live:
  "live_job example_mem 3 (new_QueueJob (Some 7)) 7
     (new_ProcessTable\<lparr>processState := Some (), pt_args := Some ()\<rparr>)"
  by (simp add: live_job_def example_mem_def new_QueueJob_def)

theorem failed_job_is_rerun_witness:
  "\<exists>m' job' s. thread_turn (Suc 0) (\<lambda>_. fail_stage) example_uninit example_mem (example_queue\<lparr>head := 3\<rparr>) 5
        = Some (Inr (m', example_queue, 6)) \<and>
     live_job m' 3 job' 7
       (new_ProcessTable\<lparr>processState := Some (), pt_args := Some ()\<rparr>\<lparr>jobStatus := s\<rparr>) \<and>
     jobErrorHandle job' \<and> cpuSliceMs job' = 0 \<and> \<not> status_isset JOB_DONE s \<and>
     \<not> status_isset JOB_PENDING s \<and> taskSink m' = taskSink example_mem"
  by (rule failed_job_is_rerun [OF example_queue_next example_live,
        where p = "()" and f = "\<lambda>_ n. Inr (JOB_FAILED, Suc n)"])
     (simp_all add: fail_stage_def new_QueueJob_def new_ProcessTable_def)

text \<open>A failure that follows a \<open>JOB_PENDING\<close> is not noticed at all: the pending bit is never
  cleared, so the loop takes the failure for another request to go on. If the handler keeps
  failing, the task thread never leaves the loop, however long it runs.\<close>

theorem failure_after_pending_spins:
  assumes "live_job m j job a t" and "processState t = Some p" and "start_proc (env p) = Some f"
    and "cpuSliceMs job = 0" and "\<not> jobShouldPause timer"
    and "status_isset JOB_PENDING (jobStatus t)" and "\<not> status_isset JOB_DONE (jobStatus t)"
    and "\<And>w. \<exists>w'. f (pt_args t) w = Inr (JOB_FAILED, w')"
  shows "run_loop fuel env timer (Some j) m w = None"
  using assms(1,2,6,7,8)
proof (induction fuel arbitrary: m t w)
  case 0
  then show ?case by simp
next
  case (Suc fuel)
  let ?t = "t\<lparr>jobStatus := status_set JOB_FAILED (jobStatus t)\<rparr>"
  from Suc.prems(5) obtain w' where f: "f (pt_args t) w = Inr (JOB_FAILED, w')" by blast
  obtain m1 where m1: "m1 = m\<lparr>proc_heap := (proc_heap m)(a \<mapsto> ?t)\<rparr>" "live_job m1 j job a ?t"
    and pass: "run_pass env timer (Some j) m w =
      (if status_isset JOB_PENDING (status_set JOB_FAILED (jobStatus t)) \<and>
          \<not> status_isset JOB_DONE (status_set JOB_FAILED (jobStatus t)) then Inr (True, m1, w')
       else if status_isset JOB_FAILED (status_set JOB_FAILED (jobStatus t))
         then bindR (set_error (Some j) m1) (\<lambda>m2. Inr (False, m2, w'))
       else Inr (False, m1, w'))"
    by (rule run_pass_start [where env = env and p = p and f = f, OF Suc.prems(1,2) assms(3) f assms(4)])
  have "run_loop fuel env timer (Some j) m1 w' = None"
    by (rule Suc.IH [OF m1(2)]) (use Suc.prems in auto)
  with pass Suc.prems(3,4) assms(5) show ?case by simp
qed

definition pending_mem :: "(unit, unit) sched_mem" where
  "pending_mem = example_mem\<lparr>proc_heap := [7 \<mapsto>
     new_ProcessTable\<lparr>processState := Some (), pt_args := Some (), jobStatus := 3\<rparr>]\<rparr>"

theorem failure_after_pending_spins_witness:
  "run_loop 1000 (\<lambda>_. fail_stage) blank_timer (Some 3) pending_mem 0 = None"
proof (rule failure_after_pending_spins)
  show "live_job pending_mem 3 (new_QueueJob (Some 7)) 7
      (new_ProcessTable\<lparr>processState := Some (), pt_args := Some (), jobStatus := 3\<rparr>)"
    by (simp add: live_job_def pending_mem_def example_mem_def new_QueueJob_def)
  show "start_proc fail_stage = Some (\<lambda>_ n. Inr (JOB_FAILED, Suc n))"
    by (simp add: fail_stage_def)
qed (simp_all add: new_QueueJob_def new_ProcessTable_def blank_timer_def status_isset_def)

subsection \<open>Completion of a job\<close>

text \<open>What a submission leaves alone: every table allocated before, and all jobs.\<close>

definition mem_grows :: "('p, 'a, 'z) sched_mem_scheme \<Rightarrow> ('p, 'a, 'z) sched_mem_scheme \<Rightarrow> bool" where
  "mem_grows m m' \<longleftrightarrow> job_heap m' = job_heap m \<and> job_next m' = job_next m \<and>
     freed_write m' = freed_write m \<and> proc_next m \<le> proc_next m' \<and>
     (\<forall>a < proc_next m. proc_heap m' a = proc_heap m a) \<and> (proc_inv m \<longrightarrow> proc_inv m')"

lemma mem_grows_refl: "mem_grows m m"
  by (simp add: mem_grows_def)

lemma mem_grows_trans: "mem_grows m m' \<Longrightarrow> mem_grows m' m'' \<Longrightarrow> mem_grows m m''"
  by (auto simp: mem_grows_def)

lemma proc_inv_extend:
  assumes "proc_inv m" and "dom (proc_heap m') = insert (proc_next m) (dom (proc_heap m))"
    and "pidVector m' = pidVector m @ [proc_next m]" and "proc_next m' = Suc (proc_next m)"
  shows "proc_inv m'"
  using assms by (auto simp: proc_inv_def less_Suc_eq simp del: domIff)

lemma scheduleTask_grows:
  assumes "scheduleTask env u p a prio m = Inr (rc, m')"
  shows "mem_grows m m'"
proof (cases "acceptable env p a")
  case True
  then have m': "m' = m\<lparr>proc_heap := (proc_heap m)(proc_next m \<mapsto>
             \<lparr>pid = u_pid u, processState = p, pt_args = a, jobStatus = 0, pt_priority = prio\<rparr>),
           proc_next := Suc (proc_next m), pidVector := pidVector m @ [proc_next m],
           taskSink := pool_push \<lparr>procTable = Some (proc_next m), poolPriority = prio,
             starveCounter = u_starve u\<rparr> (taskSink m)\<rparr>"
    using assms by (simp add: scheduleTask_eq)
  have "proc_inv m'" if "proc_inv m"
    using that by (rule proc_inv_extend) (simp_all add: m')
  then show ?thesis by (simp add: mem_grows_def m')
next
  case False
  with assms show ?thesis by (simp add: scheduleTask_eq mem_grows_refl)
qed

lemma scheduleTask_returns: "\<exists>rc m'. scheduleTask env u p a prio m = Inr (rc, m')"
  by (simp add: scheduleTask_eq)

lemma submit_all_grows: "submit_all env u subs m = Inr m' \<Longrightarrow> mem_grows m m'"
proof (induction subs arbitrary: m)
  case Nil
  then show ?case by (simp add: mem_grows_refl)
next
  case (Cons sub subs)
  obtain p a prio where "sub = (p, a, prio)" by (cases sub)
  with Cons show ?case
    by (auto simp: bindR_eq_Inr dest: scheduleTask_grows intro: mem_grows_trans)
qed

lemma submit_all_returns: "\<exists>m'. submit_all env u subs m = Inr m'"
proof (induction subs arbitrary: m)
  case (Cons sub subs)
  obtain p a prio where "sub = (p, a, prio)" by (cases sub)
  moreover obtain rc m1 where "scheduleTask env u p a prio m = Inr (rc, m1)"
    using scheduleTask_returns by blast
  ultimately show ?case using Cons [of m1] by simp
qed simp

lemma finish_job_shape:
  assumes "proc_inv m" and "live_job m j job a t" and "jobQueue q (head q) = Some j"
    and "finish_job env u (Some j) m q w = Inr (m', q', w')"
  obtains subs m1 where
    "(if jobErrorHandle job then runFailProcess env (Some j) m w else runEndProcess env (Some j) m w) = Inr (w', subs)"
    and "submit_all env u subs m = Inr m1" and "mem_grows m m1"
    and "m' = (unregisterProcess a m1)\<lparr>freed_write := True\<rparr>" and "proc_heap m' a = None" and "job_heap m' j = Some job"
    and "q' = q\<lparr>jobSlotDone := (jobSlotDone q)(head q := True), totalJobsInQueue := totalJobsInQueue q - 1\<rparr>"
proof -
  have live: "job_heap m j = Some job" "processTable job = Some a" "proc_heap m a = Some t"
    using assms(2) by (auto simp: live_job_def)
  obtain subs m1 where handler:
      "(if jobErrorHandle job then runFailProcess env (Some j) m w else runEndProcess env (Some j) m w) = Inr (w', subs)"
    and sub: "submit_all env u subs m = Inr m1"
    and mark: "markTaskAsComplete (unregisterProcess a m1) q = Inr (m', q')"
    using assms(4) live by (auto simp: finish_job_def bindR_eq_Inr Let_def)
  have grows: "mem_grows m m1" using sub by (rule submit_all_grows)
  then have "proc_inv m1" using assms(1) by (simp add: mem_grows_def)
  then have gone: "proc_heap (unregisterProcess a m1) a = None" by (simp add: unregisterProcess_frees)
  have job: "job_heap (unregisterProcess a m1) j = Some job"
    using grows live by (simp add: mem_grows_def unregisterProcess_def)
  have "setJobStatus JOB_DONE (Some j) (unregisterProcess a m1) = Inr ((unregisterProcess a m1)\<lparr>freed_write := True\<rparr>)"
    using live gone job by (simp add: setJobStatus_def)
  then have "m' = (unregisterProcess a m1)\<lparr>freed_write := True\<rparr>"
    and "q' = q\<lparr>jobSlotDone := (jobSlotDone q)(head q := True), totalJobsInQueue := totalJobsInQueue q - 1\<rparr>"
    using mark assms(3) by (simp_all add: markTaskAsComplete_def)
  with handler sub grows gone job show ?thesis by (intro that [of subs m1]) simp_all
qed

text \<open>C34: When a task thread finishes a job whose table is registered, the table is deleted
  before the job is marked as complete, and marking the job writes the status into the
  deleted table. This happens on every completion, with the end handler as with the fail
  handler; the slot is freed and the count of jobs goes down by one all the same.\<close>

theorem finish_job_writes_freed_table:
  assumes "proc_inv m" and "live_job m j job a t" and "jobQueue q (head q) = Some j"
    and "finish_job env u (Some j) m q w = Inr (m', q', w')"
  shows "freed_write m' \<and> a \<notin> dom (proc_heap m') \<and> jobSlotDone q' = (jobSlotDone q)(head q := True) \<and>
     totalJobsInQueue q' = totalJobsInQueue q - 1 \<and> job_heap m' j = Some job"
  by (rule finish_job_shape [OF assms]) (simp add: domIff)

definition finished_mem :: "(unit, unit) sched_mem" where
  "finished_mem = example_mem\<lparr>proc_heap := [7 \<mapsto>
     new_ProcessTable\<lparr>processState := Some (), pt_args := Some (), jobStatus := 33\<rparr>]\<rparr>"

lemma finished_mem_finishes:
  "\<exists>m' q' w'. finish_job (\<lambda>_. count_stage) example_uninit (Some 3) finished_mem example_queue 0 = Inr (m', q', w')"
  by (simp add: finish_job_def finished_mem_def example_mem_def new_QueueJob_def runEndProcess_def
      run_handler_def job_table_def count_stage_def new_ProcessTable_def unregisterProcess_def
      markTaskAsComplete_def example_queue_eq setJobStatus_def)

theorem finish_job_writes_freed_table_witness:
  "\<exists>m' q' w'. finish_job (\<lambda>_. count_stage) example_uninit (Some 3) finished_mem example_queue 0
       = Inr (m', q', w') \<and> freed_write m' \<and> 7 \<notin> dom (proc_heap m')"
proof -
  obtain m' q' w' where f:
    "finish_job (\<lambda>_. count_stage) example_uninit (Some 3) finished_mem example_queue 0 = Inr (m', q', w')"
    using finished_mem_finishes by blast
  have "freed_write m' \<and> 7 \<notin> dom (proc_heap m') \<and>
      jobSlotDone q' = (jobSlotDone example_queue)(head example_queue := True) \<and>
      totalJobsInQueue q' = totalJobsInQueue example_queue - 1 \<and>
      job_heap m' 3 = Some (new_QueueJob (Some 7))"
    by (rule finish_job_writes_freed_table [OF _ _ _ f])
      (simp_all add: proc_inv_def live_job_def finished_mem_def example_mem_def new_QueueJob_def
        example_queue_eq)
  with f show ?thesis by blast
qed

end
