(* ===== verification/Sched_Queues.thy ===== *)
theory Sched_Queues
  imports Sched_Jobs
begin

section \<open>The scheduler's choice of queues and the rebalancing of jobs\<close>

text \<open>
  What \<open>get_quickest_queue\<close>, \<open>get_empty_thread_queue\<close>, \<open>get_busiest_thread_queue\<close> and
  \<open>rebalance_thread_queues\<close> do on queues that are in order.
\<close>

definition queues_ok :: "('p, 'a, 'z) sched_mem_scheme \<Rightarrow> ThreadQueue list \<Rightarrow> bool" where
  "queues_ok m qs \<longleftrightarrow> slices_zero m \<and> (\<forall>q \<in> set qs. queue_inv q \<and> jobs_live m q)"

text \<open>The number of jobs a queue holds.\<close>

definition load :: "ThreadQueue \<Rightarrow> nat" where
  "load q = card (occupied q)"

lemma load_le: "load q \<le> 4"
  using card_occupied_le [of q] by (simp add: load_def)

lemma queues_ok_Cons:
  "queues_ok m (q # qs) \<longleftrightarrow> slices_zero m \<and> queue_inv q \<and> jobs_live m q \<and> queues_ok m qs"
  by (auto simp: queues_ok_def)

lemma queue_inv_total: "queue_inv q \<Longrightarrow> getTotalJobsInQueue q = int (load q)"
  by (simp add: queue_inv_def getTotalJobsInQueue_def size_queue_jobs load_def)

lemma wait_ok: "slices_zero m \<Longrightarrow> queue_inv q \<Longrightarrow> jobs_live m q \<Longrightarrow> getTotalWaitTime m q = Inr (999 * int (load q))"
  by (simp add: getTotalWaitTime_zero load_def)

subsection \<open>Free slots\<close>

lemma get_total_empty_slots_eq:
  assumes "\<forall>q \<in> set qs. queue_inv q"
  shows "get_total_empty_slots qs = (\<Sum>q\<leftarrow>qs. 4 - int (load q))"
proof -
  have "fold (\<lambda>q totalSlots. totalSlots + (int QUEUE_SIZE - getTotalJobsInQueue q)) qs acc =
      acc + (\<Sum>q\<leftarrow>qs. 4 - int (load q))" for acc
    using assms
  proof (induction qs arbitrary: acc)
    case (Cons q qs)
    then have "getTotalJobsInQueue q = int (load q)" by (simp add: queue_inv_total)
    with Cons show ?case by simp
  qed simp
  then show ?thesis by (simp add: get_total_empty_slots_def)
qed

lemma get_total_empty_slots_nonneg:
  assumes "\<forall>q \<in> set qs. queue_inv q"
  shows "0 \<le> get_total_empty_slots qs"
  unfolding get_total_empty_slots_eq [OF assms] using load_le by (intro sum_list_nonneg) auto

subsection \<open>The quickest queue\<close>

lemma word_small_less:
  assumes "0 \<le> i" "i < 2 ^ 31" "0 \<le> k" "k < 2 ^ 31"
  shows "(word_of_int i :: 64 word) < word_of_int k \<longleftrightarrow> i < k"
  using assms by (simp add: word_less_def uint_word_of_int)

lemma quickest_loop_spec:
  assumes "queues_ok m qs" and "0 \<le> L" and "L < 2 ^ 31"
  shows "(quickest_loop m i qs tid (word_of_int L) = Inr tid \<and>
            (\<forall>k < length qs. load (qs ! k) = 4 \<or> L \<le> 999 * int (load (qs ! k)))) \<or>
         (\<exists>k < length qs. quickest_loop m i qs tid (word_of_int L) = Inr (int (i + k)) \<and>
            load (qs ! k) < 4 \<and> 999 * int (load (qs ! k)) < L \<and>
            (\<forall>k' < length qs. load (qs ! k) \<le> load (qs ! k')) \<and> (\<forall>k' < k. load (qs ! k) < load (qs ! k')))"
  using assms
proof (induction qs arbitrary: i tid L)
  case Nil
  then show ?case by simp
next
  case (Cons q qs)
  have q: "getTotalJobsInQueue q = int (load q)" "getTotalWaitTime m q = Inr (999 * int (load q))"
    and ok: "queues_ok m qs"
    using Cons.prems(1) by (auto simp: queues_ok_Cons queue_inv_total wait_ok)
  let ?l = "999 * int (load q)"
  have l: "0 \<le> ?l" "?l < 2 ^ 31" using load_le [of q] by auto
  show ?case
  proof (cases "load q < 4 \<and> ?l < L")
    case False
    then have same: "quickest_loop m i (q # qs) tid (word_of_int L) =
        quickest_loop m (Suc i) qs tid (word_of_int L)"
      using q l Cons.prems(2,3) load_le [of q] word_small_less [of ?l L] by (auto simp: Let_def)
    have head: "load q = 4 \<or> L \<le> ?l" using False load_le [of q] by linarith
    from Cons.IH [OF ok Cons.prems(2,3), of "Suc i" tid] show ?thesis
    proof (elim disjE exE conjE, goal_cases)
      case 1
      then show ?case
        unfolding same using head by (auto simp: nth_Cons split: nat.split)
    next
      case (2 k)
      then show ?case
        unfolding same using head load_le
        by (intro disjI2 exI [of _ "Suc k"]) (auto simp: nth_Cons split: nat.split)
    qed
  next
    case True
    then have less: "quickest_loop m i (q # qs) tid (word_of_int L) =
        quickest_loop m (Suc i) qs (int i) (word_of_int ?l)"
      using q l Cons.prems(2,3) word_small_less [of ?l L] by (auto simp: Let_def)
    from Cons.IH [OF ok l, of "Suc i" "int i"] show ?thesis
    proof (elim disjE exE conjE, goal_cases)
      case 1
      then have "load q \<le> load (qs ! k)" if "k < length qs" for k
        using that True by fastforce
      then show ?case
        unfolding less using 1 True
        by (intro disjI2 exI [of _ 0]) (auto simp: nth_Cons split: nat.split)
    next
      case (2 k)
      then show ?case
        unfolding less using True
        by (intro disjI2 exI [of _ "Suc k"]) (auto simp: nth_Cons split: nat.split)
    qed
  qed
qed

lemma quickest_queue_spec:
  assumes "queues_ok m qs"
  shows "(get_quickest_queue m qs = Inr (- 1) \<and> (\<forall>q \<in> set qs. load q = 4)) \<or>
     (\<exists>k < length qs. get_quickest_queue m qs = Inr (int k) \<and> load (qs ! k) < 4 \<and>
        (\<forall>k' < length qs. load (qs ! k) \<le> load (qs ! k')) \<and> (\<forall>k' < k. load (qs ! k) < load (qs ! k')))"
proof -
  have max: "(2147483647 :: 64 word) = word_of_int 2147483647" by simp
  have "(load q = 4 \<or> (2147483647 :: int) \<le> 999 * int (load q)) \<longleftrightarrow> load q = 4" for q
    using load_le [of q] by auto
  then show ?thesis
    using quickest_loop_spec [OF assms, of 2147483647 0 "- 1"]
    unfolding get_quickest_queue_def max by (auto simp: all_set_conv_all_nth)
qed

text \<open>C23: Among thread queues that are in order, \<open>get_quickest_queue\<close> returns -1 exactly when
  every queue is full, and otherwise the first of the queues with the fewest jobs, which then
  has a free slot.\<close>

theorem quickest_queue_least_loaded:
  assumes "queues_ok m qs"
  shows "(get_quickest_queue m qs = Inr (- 1) \<and> (\<forall>q \<in> set qs. load q = 4)) \<or>
     (\<exists>k < length qs. get_quickest_queue m qs = Inr (int k) \<and> load (qs ! k) < 4 \<and>
        (\<forall>k' < length qs. load (qs ! k) \<le> load (qs ! k')) \<and> (\<forall>k' < k. load (qs ! k) < load (qs ! k')))"
  using assms by (rule quickest_queue_spec)

subsection \<open>Idle and busy queues\<close>

lemma empty_loop_spec:
  assumes "queues_ok m qs"
  shows "(empty_loop m i qs = Inr (- 1) \<and> (\<forall>q \<in> set qs. load q \<noteq> 0)) \<or>
     (\<exists>k < length qs. empty_loop m i qs = Inr (int (i + k)) \<and> load (qs ! k) = 0)"
  using assms
proof (induction qs arbitrary: i)
  case (Cons q qs)
  have q: "getTotalWaitTime m q = Inr (999 * int (load q))" and ok: "queues_ok m qs"
    using Cons.prems by (auto simp: queues_ok_Cons wait_ok)
  show ?case
  proof (cases "load q = 0")
    case True
    then show ?thesis using q by (intro disjI2 exI [of _ 0]) simp
  next
    case False
    then have same: "empty_loop m i (q # qs) = empty_loop m (Suc i) qs" using q by simp
    from Cons.IH [OF ok, of "Suc i"] show ?thesis
    proof (elim disjE exE conjE, goal_cases)
      case 1
      then show ?case unfolding same using False by simp
    next
      case (2 k)
      then show ?case unfolding same by (intro disjI2 exI [of _ "Suc k"]) simp
    qed
  qed
qed simp

lemma busiest_loop_spec:
  assumes "queues_ok m qs"
  shows "(busiest_loop m i qs b 0 = Inr b \<and> (\<forall>q \<in> set qs. load q < 2)) \<or>
     (\<exists>k < length qs. busiest_loop m i qs b 0 = Inr (int (i + k)) \<and> 2 \<le> load (qs ! k) \<and>
        (\<forall>k' < length qs. k < k' \<longrightarrow> load (qs ! k') < 2))"
  using assms
proof (induction qs arbitrary: i b)
  case (Cons q qs)
  have q: "getTotalJobsInQueue q = int (load q)" "getTotalWaitTime m q = Inr (999 * int (load q))"
    and ok: "queues_ok m qs"
    using Cons.prems by (auto simp: queues_ok_Cons queue_inv_total wait_ok)
  show ?case
  proof (cases "load q < 2")
    case True
    then have same: "busiest_loop m i (q # qs) b 0 = busiest_loop m (Suc i) qs b 0" using q by simp
    from Cons.IH [OF ok, of "Suc i" b] show ?thesis
    proof (elim disjE exE conjE, goal_cases)
      case 1
      then show ?case unfolding same using True by simp
    next
      case (2 k)
      then show ?case unfolding same
        by (intro disjI2 exI [of _ "Suc k"]) (auto simp: nth_Cons split: nat.split)
    qed
  next
    case False
    then have same: "busiest_loop m i (q # qs) b 0 = busiest_loop m (Suc i) qs (int i) 0" using q by simp
    from Cons.IH [OF ok, of "Suc i" "int i"] show ?thesis
    proof (elim disjE exE conjE, goal_cases)
      case 1
      then show ?case unfolding same using False
        by (intro disjI2 exI [of _ 0]) (auto simp: nth_Cons split: nat.split)
    next
      case (2 k)
      then show ?case unfolding same
        by (intro disjI2 exI [of _ "Suc k"]) (auto simp: nth_Cons split: nat.split)
    qed
  qed
qed simp

lemma busiest_queue_spec:
  assumes "queues_ok m qs"
  shows "\<exists>b. get_busiest_thread_queue m qs = Inr b \<and> (b < 0 \<or> (\<exists>k < length qs. b = int k))"
  using busiest_loop_spec [OF assms, of 0 "- 1"] by (auto simp: get_busiest_thread_queue_def)

text \<open>\<open>get_busiest_thread_queue\<close> does not look for the largest waiting time: among thread
  queues that are in order it returns the last queue with at least two jobs, -1 if there is
  none, because the largest time seen so far is never updated.\<close>

theorem busiest_queue_is_last:
  assumes "queues_ok m qs"
  shows "(get_busiest_thread_queue m qs = Inr (- 1) \<and> (\<forall>q \<in> set qs. load q < 2)) \<or>
     (\<exists>k < length qs. get_busiest_thread_queue m qs = Inr (int k) \<and> 2 \<le> load (qs ! k) \<and>
        (\<forall>k' < length qs. k < k' \<longrightarrow> load (qs ! k') < 2))"
  using busiest_loop_spec [OF assms, of 0 "- 1"] by (simp add: get_busiest_thread_queue_def)

subsection \<open>Filled queues, for examples\<close>

definition filled_queue :: "ptr list \<Rightarrow> ThreadQueue" where
  "filled_queue js = fold (\<lambda>j q. snd (addNewTask (Some j) q)) js (new_ThreadQueue (\<lambda>_. None) 0)"

lemma fold_addNewTask:
  assumes "queue_inv q" and "size (queue_jobs q) + length js \<le> 4"
  shows "queue_inv (fold (\<lambda>j q. snd (addNewTask (Some j) q)) js q) \<and>
    queue_jobs (fold (\<lambda>j q. snd (addNewTask (Some j) q)) js q) = queue_jobs q + mset (map Some js)"
  using assms
proof (induction js arbitrary: q)
  case (Cons j js)
  obtain rc q' where add: "addNewTask (Some j) q = (rc, q')" by (cases "addNewTask (Some j) q")
  moreover have "rc = 0"
    using addNewTask_free [of q j] Cons.prems(2) add by (simp add: size_queue_jobs)
  ultimately have q': "addNewTask (Some j) q = (0, q')" by simp
  have "queue_inv q'" and jobs: "queue_jobs q' = add_mset (Some j) (queue_jobs q)"
    using addNewTask_jobs [OF q'] Cons.prems(1) by auto
  with Cons.IH [of q'] Cons.prems(2) show ?case by (simp add: q')
qed simp

lemma filled_queue:
  assumes "length js \<le> 4"
  shows "queue_inv (filled_queue js)" and "queue_jobs (filled_queue js) = mset (map Some js)"
    and "load (filled_queue js) = length js"
proof -
  have new: "queue_jobs (new_ThreadQueue (\<lambda>_. None) 0) = {#}"
    by (simp add: queue_jobs_def occupied_def new_ThreadQueue_def)
  show "queue_inv (filled_queue js)" and jobs: "queue_jobs (filled_queue js) = mset (map Some js)"
    using fold_addNewTask [OF queue_inv_new, of "\<lambda>_. None" 0 js] assms by (auto simp: filled_queue_def new)
  show "load (filled_queue js) = length js"
    by (simp add: load_def jobs flip: size_queue_jobs)
qed

definition idle_mem :: "nat \<Rightarrow> (unit, unit) sched_mem" where
  "idle_mem n = \<lparr>proc_heap = (\<lambda>a. if a < n then Some new_ProcessTable else None), proc_next = n,
     pidVector = [0..<n], taskSink = [],
     job_heap = (\<lambda>j. if j < n then Some (new_QueueJob (Some j)) else None), job_next = n, freed_write = False\<rparr>"

lemma filled_queues_ok:
  assumes "\<forall>js \<in> set jss. length js \<le> 4 \<and> set js \<subseteq> {..<n}"
  shows "queues_ok (idle_mem n) (map filled_queue jss)"
  using assms
  by (fastforce simp: queues_ok_def slices_zero_def idle_mem_def new_QueueJob_def jobs_live_def
      filled_queue split: if_splits)

theorem quickest_queue_least_loaded_witness:
  "get_quickest_queue (idle_mem 5) (map filled_queue [[0, 1, 2], [3], [4]]) = Inr 1"
proof -
  let ?qs = "map filled_queue [[0, 1, 2], [3], [4]]"
  have ok: "queues_ok (idle_mem 5) ?qs" by (rule filled_queues_ok) auto
  have load: "load (?qs ! 0) = 3" "load (?qs ! 1) = 1" "load (?qs ! 2) = 1" "length ?qs = 3"
    by (simp_all add: filled_queue)
  from quickest_queue_least_loaded [OF ok] show ?thesis
  proof (elim disjE exE conjE)
    fix k assume k: "k < length ?qs" "get_quickest_queue (idle_mem 5) ?qs = Inr (int k)"
      "\<forall>k' < length ?qs. load (?qs ! k) \<le> load (?qs ! k')" "\<forall>k' < k. load (?qs ! k) < load (?qs ! k')"
    have "k \<noteq> 0" using k(3) [rule_format, of 1] load by (cases "k = 0") auto
    moreover have "\<not> 1 < k" using k(1) k(4) [rule_format, of 1] load by (cases "k = 2") auto
    ultimately show ?thesis using k(2) by simp
  qed (use load in \<open>simp add: filled_queue\<close>)
qed

text \<open>The queue with three jobs is passed over for the one with two.\<close>

theorem busiest_queue_is_last_witness:
  "get_busiest_thread_queue (idle_mem 5) (map filled_queue [[], [0, 1, 2], [3, 4]]) = Inr 2"
proof -
  let ?qs = "map filled_queue [[], [0, 1, 2], [3, 4]]"
  have ok: "queues_ok (idle_mem 5) ?qs" by (rule filled_queues_ok) auto
  have load: "load (?qs ! 2) = 2" "length ?qs = 3"
    by (simp_all add: filled_queue)
  from busiest_queue_is_last [OF ok] show ?thesis
  proof (elim disjE exE conjE)
    fix k assume k: "k < length ?qs" "get_busiest_thread_queue (idle_mem 5) ?qs = Inr (int k)"
      "\<forall>k' < length ?qs. k < k' \<longrightarrow> load (?qs ! k') < 2"
    have "k = 2" using k(1) k(3) [rule_format, of 2] load by linarith
    then show ?thesis using k(2) by simp
  qed (simp add: filled_queue)
qed

subsection \<open>Rebalancing moves jobs and loses none\<close>

definition all_jobs :: "ThreadQueue list \<Rightarrow> ptr multiset" where
  "all_jobs qs = (\<Sum>q\<leftarrow>qs. job_pointers q)"

text \<open>Every job in an occupied slot has a live process table.\<close>

definition tables_live :: "('p, 'a, 'z) sched_mem_scheme \<Rightarrow> ThreadQueue \<Rightarrow> bool" where
  "tables_live m q \<longleftrightarrow> (\<forall>j \<in># queue_jobs q. \<exists>w. job_status m j = Inr w)"

lemma pop_scan_returns:
  assumes "tables_live m q" and "set is \<subseteq> {..<QUEUE_SIZE}"
  shows "\<exists>r. pop_scan m q is = Inr r"
  using assms(2)
proof (induction "is")
  case (Cons i "is")
  show ?case
  proof (cases "jobSlotDone q i")
    case False
    then have "jobQueue q i \<in># queue_jobs q"
      using Cons.prems by (auto simp: queue_jobs_def occupied_def)
    then obtain w where "job_status m (jobQueue q i) = Inr w"
      using assms(1) by (auto simp: tables_live_def)
    then show ?thesis using Cons False by (auto simp: isJobStatusSet_def)
  qed (use Cons in simp)
qed simp

lemma popJob_returns: "tables_live m q \<Longrightarrow> \<exists>r q'. popJob m q = Inr (r, q')"
  using pop_scan_returns [of m q "[0..<QUEUE_SIZE]"]
  by (auto simp: popJob_def lessThan_atLeast0 split: option.split)

text \<open>What rebalancing keeps of a queue.\<close>

definition queue_ok :: "('p, 'a, 'z) sched_mem_scheme \<Rightarrow> ThreadQueue \<Rightarrow> bool" where
  "queue_ok m q \<longleftrightarrow> queue_inv q \<and> jobs_live m q \<and> tables_live m q"

lemma queue_ok_mono:
  assumes "queue_inv q'" and "set_mset (queue_jobs q') \<subseteq> set_mset (queue_jobs q) \<union> set_mset (queue_jobs r)"
    and "queue_ok m q" and "queue_ok m r"
  shows "queue_ok m q'"
  using assms unfolding queue_ok_def jobs_live_def tables_live_def by blast

lemma move_loop_conserves:
  assumes "slices_zero m" and "queue_ok m qf" and "queue_ok m qb"
  shows "\<exists>qf' qb'. move_loop m qf qb = Inr (qf', qb') \<and> queue_ok m qf' \<and> queue_ok m qb' \<and>
     job_pointers qf' + job_pointers qb' = job_pointers qf + job_pointers qb"
  using assms
proof (induction m qf qb rule: move_loop.induct)
  case (1 m qf qb)
  have w: "getTotalWaitTime m qf = Inr (999 * int (load qf))" "getTotalWaitTime m qb = Inr (999 * int (load qb))"
    and inv: "queue_inv qf" "queue_inv qb"
    using "1.prems" by (auto simp: queue_ok_def wait_ok)
  show ?case
  proof (cases "load qf < load qb")
    case False
    then show ?thesis using "1.prems" by (simp add: move_loop.simps [of m qf qb] w)
  next
    case True
    obtain r qb' where pop: "popJob m qb = Inr (r, qb')"
      using popJob_returns [of m qb] "1.prems"(3) by (auto simp: queue_ok_def)
    show ?thesis
    proof (cases r)
      case None
      then have "qb' = qb" using pop inv(2) thread_store.take_empty by blast
      then show ?thesis
        using "1.prems" True pop None by (simp add: move_loop.simps [of m qf qb] w addNewTask_def)
    next
      case (Some j)
      have "size (job_pointers qf) < QUEUE_SIZE"
        using True load_le [of qb] by (simp add: size_job_pointers flip: load_def)
      then obtain qf' where add: "addNewTask (Some j) qf = (0, qf')"
        by (rule thread_store.move_succeeds)
      have add': "(0, qf') = addNewTask r qf" using add Some by simp
      have popj: "popJob m qb = Inr (Some j, qb')" using pop Some by simp
      have "queue_inv qb'" and "queue_inv qf'"
        using thread_store.move_inv [OF inv(2,1) popj add] by auto
      moreover have "queue_jobs qb = add_mset (Some j) (queue_jobs qb')"
        and "queue_jobs qf' = add_mset (Some j) (queue_jobs qf)"
        using popJob_jobs(1) [OF popj] addNewTask_jobs(1) [OF add] by auto
      ultimately have ok: "queue_ok m qf'" "queue_ok m qb'"
        using queue_ok_mono [of qf' qf qb m] queue_ok_mono [of qb' qb qb m] "1.prems" by auto
      have step: "move_loop m qf qb = move_loop m qf' qb'"
        using True popj add by (simp add: move_loop.simps [of m qf qb] w)
      have sum: "job_pointers qf' + job_pointers qb' = job_pointers qf + job_pointers qb"
        using thread_store.move_conserves [OF inv(2) popj add] by (simp add: add.commute)
      show ?thesis
        unfolding step sum [symmetric]
        by (rule "1.IH" [OF w _ pop refl add' _ "1.prems"(1) ok]) (use True in auto)
    qed
  qed
qed

lemma rebalance_loop_conserves:
  assumes "slices_zero m" and "\<forall>q \<in> set qs. queue_ok m q"
  shows "\<exists>qs'. rebalance_loop n m qs = Inr qs' \<and> length qs' = length qs \<and> all_jobs qs' = all_jobs qs \<and>
     (\<forall>q \<in> set qs'. queue_ok m q)"
  using assms(2)
proof (induction n arbitrary: qs)
  case (Suc n)
  have ok: "queues_ok m qs" using Suc.prems assms(1) by (simp add: queues_ok_def queue_ok_def)
  obtain f where f: "get_empty_thread_queue m qs = Inr f" "f < 0 \<or> (\<exists>k < length qs. f = int k)"
    using empty_loop_spec [OF ok, of 0] by (auto simp: get_empty_thread_queue_def)
  obtain b where b: "get_busiest_thread_queue m qs = Inr b" "b < 0 \<or> (\<exists>k < length qs. b = int k)"
    using busiest_queue_spec [OF ok] by auto
  show ?case
  proof (cases "f < 0 \<or> b = f \<or> b < 0")
    case True
    then show ?thesis using f b Suc.prems by auto
  next
    case False
    then obtain i k where ik: "f = int i" "b = int k" "i < length qs" "k < length qs" "i \<noteq> k"
      using f b by auto
    then obtain qf qb where move: "move_loop m (qs ! i) (qs ! k) = Inr (qf, qb)"
      and okq: "queue_ok m qf" "queue_ok m qb"
      and sum: "job_pointers qf + job_pointers qb = job_pointers (qs ! i) + job_pointers (qs ! k)"
      using move_loop_conserves [OF assms(1), of "qs ! i" "qs ! k"] Suc.prems by auto
    let ?qs = "qs[i := qf, k := qb]"
    have "\<forall>q \<in> set ?qs. queue_ok m q"
      using Suc.prems okq by (auto dest!: set_update_subset_insert [THEN subsetD])
    moreover have "all_jobs ?qs = all_jobs qs"
      unfolding all_jobs_def using ik sum by (intro sum_list_update2) auto
    moreover have "rebalance_loop (Suc n) m qs = rebalance_loop n m ?qs"
      using f(1) b(1) ik move by simp
    ultimately show ?thesis using Suc.IH [of ?qs] by simp
  qed
qed (use assms(2) in simp)

text \<open>C21: \<open>rebalance_thread_queues\<close> never faults on queues that are in order, and it neither
  loses nor duplicates a job: the jobs of all queues together are the same before and after,
  and every queue is in order again.\<close>

theorem rebalance_conserves_jobs:
  assumes "slices_zero m" and "\<forall>q \<in> set qs. queue_ok m q"
  shows "\<exists>qs'. rebalance_thread_queues m qs = Inr qs' \<and> length qs' = length qs \<and>
     all_jobs qs' = all_jobs qs \<and> (\<forall>q \<in> set qs'. queue_ok m q)"
  using rebalance_loop_conserves [OF assms, of "length qs - 1"] assms(2)
  by (simp add: rebalance_thread_queues_def)

lemma filled_queues_live:
  assumes "\<forall>js \<in> set jss. length js \<le> 4 \<and> set js \<subseteq> {..<n}"
  shows "\<forall>q \<in> set (map filled_queue jss). queue_ok (idle_mem n) q"
proof -
  have "tables_live (idle_mem n) (filled_queue js)" if "js \<in> set jss" for js
  proof -
    have "\<exists>w. job_status (idle_mem n) (Some j) = Inr w" if "j < n" for j
      using that by (simp add: job_status_def idle_mem_def new_QueueJob_def)
    then show ?thesis using assms that by (fastforce simp: tables_live_def filled_queue)
  qed
  then show ?thesis using filled_queues_ok [OF assms] by (auto simp: queue_ok_def queues_ok_def)
qed

theorem rebalance_conserves_jobs_witness:
  "\<exists>qs'. rebalance_thread_queues (idle_mem 5) (map filled_queue [[], [0, 1, 2], [3, 4]]) = Inr qs' \<and>
     all_jobs qs' = {#0, 1, 2, 3, 4#}"
proof -
  let ?qs = "map filled_queue [[], [0, 1, 2], [3, 4]]"
  have "slices_zero (idle_mem 5)"
    by (simp add: slices_zero_def idle_mem_def new_QueueJob_def)
  moreover have "\<forall>q \<in> set ?qs. queue_ok (idle_mem 5) q" by (rule filled_queues_live) auto
  ultimately obtain qs' where "rebalance_thread_queues (idle_mem 5) ?qs = Inr qs'" "all_jobs qs' = all_jobs ?qs"
    using rebalance_conserves_jobs [of "idle_mem 5" ?qs] by blast
  then show ?thesis by (simp add: all_jobs_def job_pointers_def filled_queue)
qed

end
