(* ===== verification/Sched_Round.thy ===== *)
theory Sched_Round
  imports Sched_Queues
begin

section \<open>A round of the scheduler thread\<close>

text \<open>
  The abstract scheduler: the pool is a list of tasks, the thread queues are one bag of process
  tables, and a round fills the free slots with the tasks at the front of the pool. Lemmas show
  that flushing, dispatching and rebalancing together do exactly that.
\<close>

subsection \<open>The tables in the queues\<close>

definition table_of :: "('p, 'a, 'z) sched_mem_scheme \<Rightarrow> ptr \<Rightarrow> ptr option" where
  "table_of m j = Option.bind (job_heap m j) processTable"

definition queued_tables :: "('p, 'a, 'z) sched_mem_scheme \<Rightarrow> ThreadQueue list \<Rightarrow> ptr option multiset" where
  "queued_tables m qs = image_mset (table_of m) (all_jobs qs)"

text \<open>A task a job can be made of: its table is live, names a stage, and the stage has a type.\<close>

definition ready_task ::
  "('p \<Rightarrow> ('p, 'a, 'w) ProcessStates) \<Rightarrow> ('p, 'a, 'z) sched_mem_scheme \<Rightarrow> TaskData \<Rightarrow> bool"
where
  "ready_task env m t \<longleftrightarrow>
     (\<exists>a tab p. procTable t = Some a \<and> proc_heap m a = Some tab \<and> processState tab = Some p \<and> ps_type (env p) \<noteq> 0)"

definition fill_ok ::
  "('p \<Rightarrow> ('p, 'a, 'w) ProcessStates) \<Rightarrow> ('p, 'a, 'z) sched_mem_scheme \<Rightarrow> ThreadQueue list \<Rightarrow> bool"
where
  "fill_ok env m qs \<longleftrightarrow> slices_zero m \<and> (\<forall>q \<in> set qs. queue_ok m q) \<and> dom (job_heap m) \<subseteq> {..<job_next m} \<and>
     (\<forall>t \<in> set (taskSink m). ready_task env m t)"

lemma all_jobs_update:
  assumes "k < length qs" and "job_pointers q = add_mset j (job_pointers (qs ! k))"
  shows "all_jobs (qs[k := q]) = add_mset j (all_jobs qs)"
proof -
  have "all_jobs qs = all_jobs (take k qs @ qs ! k # drop (Suc k) qs)"
    using assms(1) by (simp flip: id_take_nth_drop)
  then show ?thesis using assms by (simp add: upd_conv_take_nth_drop all_jobs_def)
qed

lemma size_all_jobs: "size (all_jobs qs) = (\<Sum>q\<leftarrow>qs. load q)"
  by (induction qs) (simp_all add: all_jobs_def size_job_pointers load_def)

lemma all_jobs_size: "size (all_jobs qs) \<le> 4 * length qs"
  unfolding size_all_jobs using load_le by (induction qs) (simp_all add: add_mono)

lemma empty_slots_eq:
  assumes "\<forall>q \<in> set qs. queue_inv q"
  shows "nat (get_total_empty_slots qs) = 4 * length qs - size (all_jobs qs)"
proof -
  have "(\<Sum>q\<leftarrow>qs. 4 - int (load q)) = 4 * int (length qs) - int (\<Sum>q\<leftarrow>qs. load q)"
    by (induction qs) simp_all
  then show ?thesis
    using get_total_empty_slots_eq [OF assms] all_jobs_size [of qs] by (simp add: size_all_jobs)
qed

lemma all_jobs_full: "\<forall>q \<in> set qs. load q = 4 \<Longrightarrow> size (all_jobs qs) = 4 * length qs"
  unfolding size_all_jobs by (induction qs) simp_all

lemma all_jobs_room:
  assumes "k < length qs" and "load (qs ! k) < 4"
  shows "size (all_jobs qs) < 4 * length qs"
proof -
  have "size (all_jobs qs) = size (all_jobs (take k qs @ qs ! k # drop (Suc k) qs))"
    using assms(1) by (simp flip: id_take_nth_drop)
  also have "\<dots> = size (all_jobs (take k qs)) + load (qs ! k) + size (all_jobs (drop (Suc k) qs))"
    by (simp add: all_jobs_def size_job_pointers load_def)
  also have "\<dots> < 4 * length qs"
    using all_jobs_size [of "take k qs"] all_jobs_size [of "drop (Suc k) qs"] assms by simp
  finally show ?thesis .
qed

lemma queue_job_dom: "queue_ok m q \<Longrightarrow> Some j \<in># queue_jobs q \<Longrightarrow> j \<in> dom (job_heap m)"
  by (auto simp: queue_ok_def jobs_live_def)

lemma all_jobs_dom: "\<forall>q \<in> set qs. queue_ok m q \<Longrightarrow> j \<in># all_jobs qs \<Longrightarrow> j \<in> dom (job_heap m)"
proof (induction qs)
  case (Cons q qs)
  then show ?case
    by (auto simp: all_jobs_def job_pointers_def queue_ok_def jobs_live_def)
qed (simp add: all_jobs_def)

subsection \<open>Dispatching\<close>

lemma init_job_ready:
  "ready_task env m t \<Longrightarrow> init_job env t m = Inr (job_next m,
     m\<lparr>job_heap := (job_heap m)(job_next m \<mapsto> \<lparr>cpuSliceMs = 0, processTable = procTable t, jobErrorHandle = False\<rparr>),
       job_next := Suc (job_next m)\<rparr>)"
  by (auto simp: ready_task_def init_job_def Let_def setCpuTimeSlice_def new_QueueJob_def)

lemma queue_ok_new_job:
  assumes "queue_ok m q" and "job_heap m j = None"
  shows "queue_ok (m\<lparr>taskSink := s, job_heap := (job_heap m)(j \<mapsto> job), job_next := n\<rparr>) q"
proof -
  have "job_status (m\<lparr>taskSink := s, job_heap := (job_heap m)(j \<mapsto> job), job_next := n\<rparr>) k = job_status m k"
    if "k \<in># queue_jobs q" for k
  proof -
    have "k \<in> Some ` dom (job_heap m)" using that assms(1) by (auto simp: queue_ok_def jobs_live_def)
    then obtain p where "k = Some p" "p \<in> dom (job_heap m)" by blast
    moreover from this(2) assms(2) have "p \<noteq> j" by (auto simp only: domIff)
    ultimately show ?thesis by (simp add: job_status_def deref_def)
  qed
  then show ?thesis
    using assms by (auto simp: queue_ok_def jobs_live_def tables_live_def)
qed

lemma dispatch_one:
  assumes ok: "fill_ok env m qs" and sink: "taskSink m = t # rest" and k: "k < length qs" "load (qs ! k) < 4"
  defines "j \<equiv> job_next m"
  defines "m' \<equiv> m\<lparr>taskSink := rest, job_heap := (job_heap m)(j \<mapsto> \<lparr>cpuSliceMs = 0, processTable = procTable t, jobErrorHandle = False\<rparr>),
      job_next := Suc j\<rparr>"
  defines "qs' \<equiv> qs[k := snd (addNewTask (Some j) (qs ! k))]"
  shows "fill_ok env m' qs'" and "all_jobs qs' = add_mset j (all_jobs qs)"
    and "queued_tables m' qs' = add_mset (procTable t) (queued_tables m qs)"
proof -
  let ?q = "snd (addNewTask (Some j) (qs ! k))"
  have qk: "queue_ok m (qs ! k)" using ok k(1) by (simp add: fill_ok_def)
  have new: "job_heap m j = None" using ok by (auto simp: fill_ok_def j_def)
  have add: "addNewTask (Some j) (qs ! k) = (0, ?q)"
    using addNewTask_free [of "qs ! k" j] k(2) by (simp add: load_def prod_eq_iff)
  note q = addNewTask_jobs [OF add]
  show jobs: "all_jobs qs' = add_mset j (all_jobs qs)"
    unfolding qs'_def using k(1) q(1) by (intro all_jobs_update) (simp_all add: job_pointers_def)
  have rd: "ready_task env m t" using ok sink by (simp add: fill_ok_def)
  have old: "queue_ok m' q" if "q \<in> set qs" for q
    unfolding m'_def using ok that new by (intro queue_ok_new_job) (simp_all add: fill_ok_def)
  have "job_status m' (Some j) \<noteq> Inl e" for e
    using rd by (auto simp: m'_def job_status_def ready_task_def)
  then have "\<exists>w. job_status m' (Some j) = Inr w" by (cases "job_status m' (Some j)") auto
  moreover have "queue_ok m' (qs ! k)" using old k(1) by simp
  ultimately have "queue_ok m' ?q"
    using q qk by (auto simp: queue_ok_def jobs_live_def tables_live_def m'_def)
  then have "\<forall>q \<in> set qs'. queue_ok m' q"
    using old unfolding qs'_def by (auto dest!: set_update_subset_insert [THEN subsetD])
  moreover have "\<forall>u \<in> set rest. ready_task env m' u"
    using ok sink by (simp add: fill_ok_def ready_task_def m'_def)
  ultimately show "fill_ok env m' qs'"
    using ok by (auto simp: fill_ok_def slices_zero_def m'_def j_def)
  have "table_of m' i = table_of m i" if "i \<in># all_jobs qs" for i
    using that all_jobs_dom [of qs m i] ok new by (auto simp: fill_ok_def table_of_def m'_def)
  then show "queued_tables m' qs' = add_mset (procTable t) (queued_tables m qs)"
    by (simp add: queued_tables_def jobs table_of_def [of m' j]) (simp add: m'_def cong: image_mset_cong)
qed

text \<open>What the memory and the queues are after the first \<open>k\<close> tasks of the pool went to the queues.\<close>

definition filled ::
  "('p \<Rightarrow> ('p, 'a, 'w) ProcessStates) \<Rightarrow> ('p, 'a, 'z) sched_mem_scheme \<Rightarrow> ThreadQueue list \<Rightarrow> nat \<Rightarrow>
   ('p, 'a, 'z) sched_mem_scheme \<Rightarrow> ThreadQueue list \<Rightarrow> bool"
where
  "filled env m qs k m' qs' \<longleftrightarrow> fill_ok env m' qs' \<and> length qs' = length qs \<and>
     taskSink m' = drop k (taskSink m) \<and> proc_heap m' = proc_heap m \<and> pidVector m' = pidVector m \<and>
     proc_next m' = proc_next m \<and>
     (dom (job_heap m) = set_mset (all_jobs qs) \<longrightarrow> dom (job_heap m') = set_mset (all_jobs qs')) \<and>
     queued_tables m' qs' = queued_tables m qs + mset (map procTable (take k (taskSink m))) \<and>
     size (all_jobs qs') = size (all_jobs qs) + k"

lemma dispatch_loop_fills:
  assumes "fill_ok env m qs"
  shows "\<exists>m' qs'. dispatch_loop n env td0 m qs = Inr (m', qs') \<and>
    filled env m qs (min n (min (length (taskSink m)) (4 * length qs - size (all_jobs qs)))) m' qs'"
  using assms
proof (induction n arbitrary: td0 m qs)
  case 0
  then show ?case by (simp add: filled_def)
next
  case (Suc n)
  have ok: "queues_ok m qs" using Suc.prems by (auto simp: fill_ok_def queues_ok_def queue_ok_def)
  show ?case
  proof (cases "taskSink m")
    case Nil
    then show ?thesis using Suc.prems by (simp add: filled_def)
  next
    case (Cons t rest)
    from quickest_queue_spec [OF ok] show ?thesis
    proof (elim disjE exE conjE)
      assume full: "get_quickest_queue m qs = Inr (- 1)" "\<forall>q \<in> set qs. load q = 4"
      then show ?thesis using Suc.prems Cons all_jobs_full [OF full(2)] by (simp add: filled_def)
    next
      fix k
      assume k: "k < length qs" "get_quickest_queue m qs = Inr (int k)" "load (qs ! k) < 4"
      let ?j = "job_next m"
      let ?m = "m\<lparr>taskSink := rest, job_heap := (job_heap m)(?j \<mapsto> \<lparr>cpuSliceMs = 0, processTable = procTable t, jobErrorHandle = False\<rparr>),
          job_next := Suc ?j\<rparr>"
      let ?qs = "qs[k := snd (addNewTask (Some ?j) (qs ! k))]"
      note one = dispatch_one [OF Suc.prems Cons k(1,3)]
      have "ready_task env (m\<lparr>taskSink := rest\<rparr>) t"
        using Suc.prems Cons by (simp add: fill_ok_def ready_task_def)
      then have "dispatch_loop (Suc n) env td0 m qs = dispatch_loop n env t ?m ?qs"
        using k(2) Cons by (simp add: getScheduledTask_def popTask_def init_job_ready)
      moreover obtain m' qs' where run: "dispatch_loop n env t ?m ?qs = Inr (m', qs')"
        and fin: "filled env ?m ?qs (min n (min (length rest) (4 * length qs - Suc (size (all_jobs qs))))) m' qs'"
        using Suc.IH [OF one(1), of t] one(2) by auto
      have room: "size (all_jobs qs) < 4 * length qs" using k(1,3) by (rule all_jobs_room)
      have "filled env m qs (Suc (min n (min (length rest) (4 * length qs - Suc (size (all_jobs qs)))))) m' qs'"
        using fin one(2,3) Cons by (simp add: filled_def)
      moreover have "Suc (min n (min (length rest) (4 * length qs - Suc (size (all_jobs qs))))) =
          min (Suc n) (min (length (taskSink m)) (4 * length qs - size (all_jobs qs)))"
        using room Cons by simp
      ultimately show ?thesis using run by auto
    qed
  qed
qed

subsection \<open>Flushing\<close>

text \<open>The jobs in slots that are done but have not been flushed.\<close>

definition doomed :: "ThreadQueue \<Rightarrow> nat list \<Rightarrow> ptr list" where
  "doomed q is = map (\<lambda>i. the (jobQueue q i)) (filter (\<lambda>i. jobSlotDone q i \<and> jobQueue q i \<noteq> None) is)"

definition all_doomed :: "ThreadQueue list \<Rightarrow> ptr list" where
  "all_doomed qs = concat (map (\<lambda>q. doomed q [0..<QUEUE_SIZE]) qs)"

definition flushed :: "nat list \<Rightarrow> ThreadQueue \<Rightarrow> ThreadQueue" where
  "flushed is q = q\<lparr>jobQueue := (\<lambda>i. if i \<in> set is \<and> jobSlotDone q i then None else jobQueue q i)\<rparr>"

lemma doomed_simps [simp]:
  "doomed q [] = []"
  "doomed q (i # is) = (if jobSlotDone q i \<and> jobQueue q i \<noteq> None then [the (jobQueue q i)] else []) @ doomed q is"
  by (simp_all add: doomed_def)

lemma flush_loop_eq:
  assumes "distinct is" and "distinct (doomed q is)" and "set (doomed q is) \<subseteq> dom (job_heap m)"
  shows "flush_loop is m q = Inr (m\<lparr>job_heap := job_heap m |` (- set (doomed q is))\<rparr>, flushed is q)"
  using assms
proof (induction "is" arbitrary: m q)
  case Nil
  then show ?case by (simp add: flushed_def)
next
  case (Cons i "is")
  show ?case
  proof (cases "jobSlotDone q i \<and> jobQueue q i \<noteq> None")
    case False
    have "flushed (i # is) q = flushed is q"
      unfolding flushed_def by (rule arg_cong [where f = "\<lambda>g. q\<lparr>jobQueue := g\<rparr>"]) (use False in \<open>auto simp: fun_eq_iff\<close>)
    moreover have "flush_loop (i # is) m q = flush_loop is m q" using False by auto
    moreover have "flush_loop is m q = Inr (m\<lparr>job_heap := job_heap m |` (- set (doomed q is))\<rparr>, flushed is q)"
      using Cons.prems False by (intro Cons.IH) auto
    ultimately show ?thesis using False by auto
  next
    case True
    then obtain j where j: "jobQueue q i = Some j" "jobSlotDone q i" by auto
    let ?m = "m\<lparr>job_heap := (job_heap m)(j := None)\<rparr>" and ?q = "q\<lparr>jobQueue := (jobQueue q)(i := None)\<rparr>"
    have rest: "doomed ?q is = doomed q is"
      using Cons.prems(1) by (auto simp: doomed_def intro!: map_cong filter_cong)
    have "flush_loop is ?m ?q = Inr (?m\<lparr>job_heap := job_heap ?m |` (- set (doomed ?q is))\<rparr>, flushed is ?q)"
      using Cons.prems j by (intro Cons.IH) (auto simp: rest)
    moreover have "flushed is ?q = flushed (i # is) q"
      using j by (auto simp: flushed_def fun_eq_iff)
    moreover have "(job_heap m)(j := None) |` (- set (doomed q is)) = job_heap m |` (- set (doomed q (i # is)))"
      using j by (auto simp: fun_eq_iff restrict_map_def)
    moreover have "flush_loop (i # is) m q = flush_loop is ?m ?q"
      using Cons.prems(3) j by auto
    ultimately show ?thesis by (simp add: rest)
  qed
qed

lemma flush_all_eq:
  assumes "distinct (all_doomed qs)" and "set (all_doomed qs) \<subseteq> dom (job_heap m)"
  shows "flush_all qs m = Inr (m\<lparr>job_heap := job_heap m |` (- set (all_doomed qs))\<rparr>, map (flushed [0..<QUEUE_SIZE]) qs)"
  using assms
proof (induction qs arbitrary: m)
  case Nil
  then show ?case by (simp add: all_doomed_def)
next
  case (Cons q qs)
  let ?D = "doomed q [0..<QUEUE_SIZE]"
  let ?m = "m\<lparr>job_heap := job_heap m |` (- set ?D)\<rparr>"
  have doomed: "all_doomed (q # qs) = ?D @ all_doomed qs" by (simp add: all_doomed_def)
  have "flushFinishedJobs m q = Inr (?m, flushed [0..<QUEUE_SIZE] q)"
    using Cons.prems unfolding flushFinishedJobs_def doomed by (intro flush_loop_eq) auto
  moreover have "flush_all qs ?m =
      Inr (?m\<lparr>job_heap := job_heap ?m |` (- set (all_doomed qs))\<rparr>, map (flushed [0..<QUEUE_SIZE]) qs)"
    using Cons.prems unfolding doomed by (intro Cons.IH) auto
  moreover have "job_heap m |` (- set ?D) |` (- set (all_doomed qs)) = job_heap m |` (- set (all_doomed (q # qs)))"
    by (auto simp: doomed fun_eq_iff restrict_map_def)
  ultimately show ?case by simp
qed

lemma flushed_slots [simp]:
  "occupied (flushed is q) = occupied q" "queue_jobs (flushed is q) = queue_jobs q"
  "queue_inv (flushed is q) = queue_inv q" "job_pointers (flushed is q) = job_pointers q"
proof -
  show occ: "occupied (flushed is q) = occupied q" by (simp add: flushed_def occupied_def)
  show jobs: "queue_jobs (flushed is q) = queue_jobs q"
    unfolding queue_jobs_def occ by (intro image_mset_cong) (simp add: flushed_def occupied_def)
  show "queue_inv (flushed is q) = queue_inv q" by (simp add: queue_inv_def jobs) (simp add: flushed_def)
  show "job_pointers (flushed is q) = job_pointers q" by (simp add: job_pointers_def jobs)
qed

lemma all_jobs_flushed [simp]: "all_jobs (map (flushed is) qs) = all_jobs qs"
  by (induction qs) (simp_all add: all_jobs_def)

text \<open>A queue without unflushed jobs stays so when a job is added or taken out.\<close>

definition swept :: "ThreadQueue \<Rightarrow> bool" where
  "swept q \<longleftrightarrow> (\<forall>i < QUEUE_SIZE. jobSlotDone q i \<longrightarrow> jobQueue q i = None)"

lemma swept_doomed: "swept q \<longleftrightarrow> doomed q [0..<QUEUE_SIZE] = []"
  by (auto simp: swept_def doomed_def filter_empty_conv)

lemma swept_all_doomed: "(\<forall>q \<in> set qs. swept q) \<longleftrightarrow> all_doomed qs = []"
  by (auto simp: swept_doomed all_doomed_def)

lemma swept_flushed: "swept (flushed [0..<QUEUE_SIZE] q)"
  by (simp add: swept_def flushed_def)

lemma swept_add: "swept q \<Longrightarrow> swept (snd (addNewTask j q))"
  by (auto simp: swept_def addNewTask_def split: option.split)

lemma swept_pop: "popJob m q = Inr (j, q') \<Longrightarrow> swept q \<Longrightarrow> swept q'"
  by (erule popJob_cases) (auto simp: swept_def)

lemma swept_move: "move_loop m qf qb = Inr (qf', qb') \<Longrightarrow> swept qf \<Longrightarrow> swept qb \<Longrightarrow> swept qf' \<and> swept qb'"
proof (induction m qf qb rule: move_loop.induct)
  case (1 m qf qb)
  note run = "1.prems"(1) [unfolded move_loop.simps [of m qf qb]]
  from run obtain wf wb where w: "getTotalWaitTime m qf = Inr wf" "getTotalWaitTime m qb = Inr wb"
    by (auto simp: result_simps)
  show ?case
  proof (cases "wf < wb")
    case False
    then show ?thesis using run w "1.prems"(2,3) by simp
  next
    case True
    then obtain j qb1 where pop: "popJob m qb = Inr (j, qb1)"
      using run w by (auto simp: result_simps)
    obtain rc qf1 where add: "addNewTask j qf = (rc, qf1)" by force
    have "swept qb1" "swept qf1"
      using swept_pop [OF pop "1.prems"(3)] swept_add [OF "1.prems"(2), of j] by (simp_all add: add)
    moreover have "rc \<noteq> 0 \<and> qf' = qf1 \<and> qb' = qb1 \<or> rc = 0 \<and> move_loop m qf1 qb1 = Inr (qf', qb')"
      using run w True pop add by (auto split: if_splits)
    ultimately show ?thesis using "1.IH" [OF w True pop refl add [symmetric]] by auto
  qed
qed

lemma swept_update: "\<forall>q \<in> set qs. swept q \<Longrightarrow> swept q' \<Longrightarrow> \<forall>q \<in> set (qs[k := q']). swept q"
  by (auto dest!: set_update_subset_insert [THEN subsetD])

lemma swept_add_at: "\<forall>q \<in> set qs. swept q \<Longrightarrow> \<forall>q \<in> set (qs[k := snd (addNewTask j (qs ! k))]). swept q"
proof (cases "k < length qs")
  case True
  assume "\<forall>q \<in> set qs. swept q"
  then show ?thesis using True by (intro swept_update swept_add) auto
qed (simp add: list_update_beyond)

lemma swept_dispatch:
  "dispatch_loop n env td m qs = Inr (m', qs') \<Longrightarrow> \<forall>q \<in> set qs. swept q \<Longrightarrow> \<forall>q \<in> set qs'. swept q"
proof (induction n arbitrary: td m qs)
  case (Suc n)
  show ?case
  proof (cases "qs' = qs")
    case False
    obtain k where k: "get_quickest_queue m qs = Inr k" "0 \<le> k"
      using Suc.prems(1) False by (cases "get_quickest_queue m qs") (auto split: if_splits)
    then obtain td' j m2 where "dispatch_loop n env td' m2 (qs[nat k := snd (addNewTask (Some j) (qs ! nat k))]) = Inr (m', qs')"
      using Suc.prems(1) False
      by (cases "getScheduledTask td m") (auto simp: result_simps split: if_splits)
    then show ?thesis using Suc.IH swept_add_at [OF Suc.prems(2)] by blast
  qed (use Suc.prems in simp)
qed simp

lemma swept_rebalance_loop:
  assumes "slices_zero m" and "\<forall>q \<in> set qs. queue_ok m q"
    and "rebalance_loop n m qs = Inr qs'" and "\<forall>q \<in> set qs. swept q"
  shows "\<forall>q \<in> set qs'. swept q"
  using assms(2-4)
proof (induction n arbitrary: qs)
  case (Suc n)
  have ok: "queues_ok m qs" using Suc.prems(1) assms(1) by (simp add: queues_ok_def queue_ok_def)
  obtain f where f: "get_empty_thread_queue m qs = Inr f" "f < 0 \<or> (\<exists>k < length qs. f = int k)"
    using empty_loop_spec [OF ok, of 0] by (auto simp: get_empty_thread_queue_def)
  obtain b where b: "get_busiest_thread_queue m qs = Inr b" "b < 0 \<or> (\<exists>k < length qs. b = int k)"
    using busiest_queue_spec [OF ok] by auto
  show ?case
  proof (cases "f < 0 \<or> b = f \<or> b < 0")
    case True
    then show ?thesis using f b Suc.prems by auto
  next
    case False
    then obtain i k where ik: "f = int i" "b = int k" "i < length qs" "k < length qs"
      using f b by auto
    then obtain qf qb where move: "move_loop m (qs ! i) (qs ! k) = Inr (qf, qb)"
      and okq: "queue_ok m qf" "queue_ok m qb"
      using move_loop_conserves [OF assms(1), of "qs ! i" "qs ! k"] Suc.prems(1) by auto
    let ?qs = "qs[i := qf, k := qb]"
    have "swept qf" "swept qb" using swept_move [OF move] Suc.prems(3) ik by auto
    then have "\<forall>q \<in> set ?qs. swept q" using Suc.prems(3) by (intro swept_update) auto
    moreover have "\<forall>q \<in> set ?qs. queue_ok m q"
      using Suc.prems(1) okq by (auto dest!: set_update_subset_insert [THEN subsetD])
    moreover have "rebalance_loop n m ?qs = Inr qs'"
      using Suc.prems(2) f(1) b(1) ik False move by simp
    ultimately show ?thesis using Suc.IH by blast
  qed
qed simp

subsection \<open>The whole round\<close>

definition round_ok ::
  "('p \<Rightarrow> ('p, 'a, 'w) ProcessStates) \<Rightarrow> ('p, 'a, 'z) sched_mem_scheme \<Rightarrow> ThreadQueue list \<Rightarrow> bool"
where
  "round_ok env m qs \<longleftrightarrow> fill_ok env m qs \<and> distinct (all_doomed qs) \<and>
     set (all_doomed qs) \<subseteq> dom (job_heap m) - set_mset (all_jobs qs)"

text \<open>The abstract round, on a pool and a bag of tables with room for \<open>cap\<close>.\<close>

fun abs_round :: "nat \<Rightarrow> TaskData list \<times> ptr option multiset \<Rightarrow> TaskData list \<times> ptr option multiset" where
  "abs_round cap (pool, bag) =
     (let k = min (length pool) (cap - size bag)
      in (drop k pool, bag + mset (map procTable (take k pool))))"

lemma fill_ok_flush:
  assumes "round_ok env m qs"
  defines "m1 \<equiv> m\<lparr>job_heap := job_heap m |` (- set (all_doomed qs))\<rparr>"
  shows "fill_ok env m1 (map (flushed [0..<QUEUE_SIZE]) qs)"
    and "queued_tables m1 (map (flushed [0..<QUEUE_SIZE]) qs) = queued_tables m qs"
proof -
  have keep: "job_heap m1 j = job_heap m j" if "j \<in># all_jobs qs" for j
  proof -
    have "j \<notin> set (all_doomed qs)" using assms(1) that by (auto simp: round_ok_def)
    then show ?thesis by (simp add: m1_def)
  qed
  have mem: "j \<in># all_jobs qs" if "q \<in> set qs" "Some j \<in># queue_jobs q" for q j
  proof -
    have "job_pointers q \<subseteq># all_jobs qs"
      using that(1) by (induction qs) (auto simp: all_jobs_def intro: subset_mset.add_increasing subset_mset.add_increasing2)
    moreover have "j \<in># job_pointers q" using that(2) by (force simp: job_pointers_def)
    ultimately show ?thesis by (rule mset_subset_eqD)
  qed
  have ok: "queue_ok m q" if "q \<in> set qs" for q using assms(1) that by (simp add: round_ok_def fill_ok_def)
  have "queue_ok m1 (flushed [0..<QUEUE_SIZE] q)" if q: "q \<in> set qs" for q
  proof -
    have k: "k \<in> Some ` dom (job_heap m1) \<and> job_status m1 k = job_status m k" if k: "k \<in># queue_jobs q" for k
    proof -
      have "k \<in> Some ` dom (job_heap m)" using ok [OF q] k by (auto simp: queue_ok_def jobs_live_def)
      then obtain j where j: "k = Some j" "j \<in> dom (job_heap m)" by blast
      then have "job_heap m1 j = job_heap m j" using mem [OF q] k keep by blast
      then show ?thesis using j by (auto simp: job_status_def deref_def m1_def)
    qed
    show ?thesis using ok [OF q] k by (auto simp: queue_ok_def jobs_live_def tables_live_def)
  qed
  moreover have "dom (job_heap m1) \<subseteq> {..<job_next m1}"
  proof -
    have "dom (job_heap m) \<subseteq> {..<job_next m}" using assms(1) by (simp add: round_ok_def fill_ok_def)
    then have "dom (job_heap m) \<inter> - set (all_doomed qs) \<subseteq> {..<job_next m}" by blast
    then show ?thesis by (simp add: m1_def)
  qed
  moreover have "slices_zero m1" "\<forall>t \<in> set (taskSink m1). ready_task env m1 t"
    using assms(1) by (auto simp: round_ok_def fill_ok_def slices_zero_def m1_def ready_task_def restrict_map_def split: if_splits)
  ultimately show "fill_ok env m1 (map (flushed [0..<QUEUE_SIZE]) qs)" by (simp add: fill_ok_def)
  show "queued_tables m1 (map (flushed [0..<QUEUE_SIZE]) qs) = queued_tables m qs"
    unfolding queued_tables_def all_jobs_flushed by (intro image_mset_cong) (simp add: table_of_def keep)
qed

lemma sched_round_runs:
  assumes "round_ok env m qs"
  shows "\<exists>m' qs'. sched_round env td0 m qs = Inr (m', qs') \<and> round_ok env m' qs' \<and> length qs' = length qs \<and>
    (taskSink m', queued_tables m' qs') = abs_round (4 * length qs) (taskSink m, queued_tables m qs) \<and>
    proc_heap m' = proc_heap m \<and> pidVector m' = pidVector m \<and> proc_next m' = proc_next m \<and> all_doomed qs' = [] \<and>
    (dom (job_heap m) = set_mset (all_jobs qs) \<union> set (all_doomed qs) \<longrightarrow> dom (job_heap m') = set_mset (all_jobs qs'))"
proof -
  let ?m1 = "m\<lparr>job_heap := job_heap m |` (- set (all_doomed qs))\<rparr>" and ?qs1 = "map (flushed [0..<QUEUE_SIZE]) qs"
  let ?free = "4 * length qs - size (all_jobs qs)"
  have inv: "\<forall>q \<in> set qs. queue_inv q" using assms by (simp add: round_ok_def fill_ok_def queue_ok_def)
  have flush: "flush_all qs m = Inr (?m1, ?qs1)"
    using assms by (intro flush_all_eq) (auto simp: round_ok_def)
  note f = fill_ok_flush [OF assms]
  obtain m2 qs2 where disp: "dispatch_loop ?free env td0 ?m1 ?qs1 = Inr (m2, qs2)"
    and fin: "filled env ?m1 ?qs1 (min ?free (min (length (taskSink m)) ?free)) m2 qs2"
    using dispatch_loop_fills [OF f(1), of ?free td0] by auto
  have fill2: "fill_ok env m2 qs2" and ok2: "slices_zero m2" "\<forall>q \<in> set qs2. queue_ok m2 q"
    using fin by (auto simp: filled_def fill_ok_def)
  have swept2: "\<forall>q \<in> set qs2. swept q" by (rule swept_dispatch [OF disp]) (simp add: swept_flushed [simplified])
  obtain qs3 where reb: "rebalance_thread_queues m2 qs2 = Inr qs3" "length qs3 = length qs2"
      "all_jobs qs3 = all_jobs qs2" "\<forall>q \<in> set qs3. queue_ok m2 q" "\<forall>q \<in> set qs3. swept q"
  proof (cases "get_total_empty_slots qs2 \<le> 0")
    case True
    then show ?thesis using that [of qs2] ok2 swept2 by (simp add: rebalance_thread_queues_def)
  next
    case False
    then show ?thesis
      using that rebalance_loop_conserves [OF ok2, of "length qs2 - 1"] swept_rebalance_loop [OF ok2 _ swept2]
      by (metis rebalance_thread_queues_def)
  qed
  have "sched_round env td0 m qs = Inr (m2, qs3)"
    using flush disp reb(1) by (simp add: sched_round_def empty_slots_eq [OF inv] Let_def)
  moreover have "round_ok env m2 qs3"
    using fill2 reb(4,5) by (simp add: round_ok_def fill_ok_def swept_all_doomed)
  moreover have "(taskSink m2, queued_tables m2 qs3) = abs_round (4 * length qs) (taskSink m, queued_tables m qs)"
    using fin reb(3) f(2) by (simp add: filled_def queued_tables_def min.commute Let_def)
  moreover have "dom (job_heap m2) = set_mset (all_jobs qs3)"
    if leak: "dom (job_heap m) = set_mset (all_jobs qs) \<union> set (all_doomed qs)"
  proof -
    have "set (all_doomed qs) \<inter> set_mset (all_jobs qs) = {}" using assms by (auto simp: round_ok_def)
    with leak have "dom (job_heap ?m1) = set_mset (all_jobs ?qs1)" by auto
    then show ?thesis using fin reb(3) by (simp add: filled_def)
  qed
  ultimately show ?thesis using reb(2,5) fin by (auto simp: filled_def swept_all_doomed)
qed

text \<open>C1: A round of the scheduler thread implements the abstract scheduler. From queues that are in
  order and a pool of submitted tasks it runs without a fault; it takes tasks from the front of the
  pool into the thread queues until the queues are full or the pool is empty, loses and duplicates
  none, whatever flushing and rebalancing do in between, and leaves the queues in order.\<close>

theorem sched_round_refines:
  assumes "round_ok env m qs"
  shows "\<exists>m' qs'. sched_round env td0 m qs = Inr (m', qs') \<and> round_ok env m' qs' \<and> length qs' = length qs \<and>
    (taskSink m', queued_tables m' qs') = abs_round (4 * length qs) (taskSink m, queued_tables m qs)"
  using sched_round_runs [OF assms, of td0] by blast

text \<open>Two threads; the first has finished a job that is not flushed yet, two tasks wait.\<close>

definition round_mem :: "(unit, unit) sched_mem" where
  "round_mem =
     \<lparr>proc_heap = (\<lambda>_. Some (new_ProcessTable\<lparr>processState := Some ()\<rparr>)), proc_next = 9, pidVector = [],
      taskSink = [\<lparr>procTable = Some 5, poolPriority = LOW_PRIORITY, starveCounter = 0\<rparr>,
                  \<lparr>procTable = Some 6, poolPriority = HIGH_PRIORITY, starveCounter = 0\<rparr>],
      job_heap = [0 \<mapsto> new_QueueJob (Some 3)], job_next = 1, freed_write = False\<rparr>"

definition round_queues :: "ThreadQueue list" where
  "round_queues = [(new_ThreadQueue (\<lambda>_. None) 0)\<lparr>jobQueue := (\<lambda>_. None)(2 := Some 0)\<rparr>,
     new_ThreadQueue (\<lambda>_. None) 1]"

theorem sched_round_refines_witness:
  "\<exists>m' qs'. sched_round (\<lambda>_. \<lparr>ps_type = 1, start_proc = None, pause_proc = None, end_proc = None, fail_proc = None\<rparr>
      :: (unit, unit, unit) ProcessStates) (hd (taskSink round_mem)) round_mem round_queues = Inr (m', qs') \<and>
     taskSink m' = [] \<and> queued_tables m' qs' = {#Some 5, Some 6#}"
proof -
  let ?env = "\<lambda>_. \<lparr>ps_type = 1, start_proc = None, pause_proc = None, end_proc = None, fail_proc = None\<rparr>
      :: (unit, unit, unit) ProcessStates"
  have none: "all_jobs round_queues = {#}"
    by (simp add: all_jobs_def job_pointers_def queue_jobs_def occupied_def round_queues_def new_ThreadQueue_def)
  have doomed: "all_doomed round_queues = [0]"
    by (simp add: all_doomed_def round_queues_def new_ThreadQueue_def upt_rec)
  have "queue_ok round_mem q" if "q \<in> set round_queues" for q
    using that
    by (auto simp: round_queues_def queue_ok_def queue_inv_def jobs_live_def tables_live_def queue_jobs_def
        occupied_def new_ThreadQueue_def)
  then have "round_ok ?env round_mem round_queues"
    using none doomed
    by (simp add: round_ok_def fill_ok_def slices_zero_def ready_task_def round_mem_def new_QueueJob_def)
  from sched_round_refines [OF this, of "hd (taskSink round_mem)"] none show ?thesis
    by (auto simp: queued_tables_def round_mem_def round_queues_def Let_def)
qed

end
