(* ===== verification/Sched_Ownership.thy ===== *)
theory Sched_Ownership
  imports Sched_Round Sched_Jobs
begin

section \<open>Who owns the tables and the jobs\<close>

text \<open>
  The accounts of the scheduler: every registered process table belongs to one task of the pool or
  to one job, every job object to one slot of one queue. Lemmas show that submissions, rounds, the
  passes over a job and the completion of a job keep the accounts.
\<close>

subsection \<open>Running a job changes status words and error flags only\<close>

definition bare_table :: "('p, 'a) ProcessTable \<Rightarrow> ('p, 'a) ProcessTable" where
  "bare_table t = t\<lparr>jobStatus := 0\<rparr>"

definition bare_job :: "QueueJob \<Rightarrow> QueueJob" where
  "bare_job job = job\<lparr>jobErrorHandle := False\<rparr>"

definition status_only :: "('p, 'a, 'z) sched_mem_scheme \<Rightarrow> ('p, 'a, 'z) sched_mem_scheme \<Rightarrow> bool" where
  "status_only m m' \<longleftrightarrow>
     (\<forall>a. map_option bare_table (proc_heap m' a) = map_option bare_table (proc_heap m a)) \<and>
     (\<forall>j. map_option bare_job (job_heap m' j) = map_option bare_job (job_heap m j)) \<and>
     taskSink m' = taskSink m \<and> pidVector m' = pidVector m \<and> proc_next m' = proc_next m \<and> job_next m' = job_next m"

lemma status_only_refl: "status_only m m"
  by (simp add: status_only_def)

lemma status_only_trans: "status_only m m' \<Longrightarrow> status_only m' m'' \<Longrightarrow> status_only m m''"
  by (simp add: status_only_def)

lemma setJobStatus_only: "setJobStatus st j m = Inr m' \<Longrightarrow> status_only m m'"
  by (erule setJobStatus_cases) (auto simp: status_only_def bare_table_def live_job_def)

lemma set_error_only: "set_error j m = Inr m' \<Longrightarrow> status_only m m'"
  by (auto simp: set_error_def status_only_def bare_job_def bindR_eq_Inr split: option.splits)

lemma run_pass_only:
  assumes "run_pass env timer j m w = Inr (again, m', w')"
  shows "status_only m m'"
proof -
  obtain st w1 m1 where m1: "setJobStatus st j m = Inr m1"
    and rest: "m' = m1 \<or> set_error j m1 = Inr m'"
    using assms unfolding run_pass_def
    by (elim bindR_eq_Inr [THEN iffD1, elim_format] exE conjE prod.exhaust) (auto simp: bindR_eq_Inr split: if_splits)
  from rest show ?thesis
  proof
    assume "set_error j m1 = Inr m'"
    then show ?thesis using setJobStatus_only [OF m1] set_error_only status_only_trans by blast
  qed (use setJobStatus_only [OF m1] in simp)
qed

lemma run_loop_only: "run_loop fuel env timer j m w = Some (Inr (m', w')) \<Longrightarrow> status_only m m'"
proof (induction fuel env timer j m w rule: run_loop.induct)
  case (2 fuel env timer j m w)
  then show ?case
    by (auto simp: status_only_refl split: if_splits sum.splits prod.splits
        dest: run_pass_only intro: status_only_trans)
qed simp

lemma status_only_table:
  assumes "status_only m m'" and "proc_heap m' a = Some t'"
  obtains t where "proc_heap m a = Some t" and "processState t' = processState t" and "pt_args t' = pt_args t"
proof -
  have "map_option bare_table (proc_heap m a) = Some (bare_table t')"
    using assms unfolding status_only_def by (metis option.simps(9))
  then obtain t where "proc_heap m a = Some t" "bare_table t = bare_table t'" by auto
  moreover from this(2) have "processState t' = processState t" "pt_args t' = pt_args t"
    unfolding bare_table_def by (cases t; cases t'; simp)+
  ultimately show ?thesis by (intro that)
qed

lemma status_only_job:
  assumes "status_only m m'" and "job_heap m' j = Some job'"
  obtains job where "job_heap m j = Some job" and "processTable job' = processTable job"
    and "cpuSliceMs job' = cpuSliceMs job"
proof -
  have "map_option bare_job (job_heap m j) = Some (bare_job job')"
    using assms unfolding status_only_def by (metis option.simps(9))
  then obtain job where "job_heap m j = Some job" "bare_job job = bare_job job'" by auto
  moreover from this(2) have "processTable job' = processTable job" "cpuSliceMs job' = cpuSliceMs job"
    unfolding bare_job_def by (cases job; cases job'; simp)+
  ultimately show ?thesis by (intro that)
qed

lemma status_only_doms:
  assumes "status_only m m'"
  shows "dom (proc_heap m') = dom (proc_heap m)" and "dom (job_heap m') = dom (job_heap m)"
    and "table_of m' = table_of m"
proof -
  have "proc_heap m' a = None \<longleftrightarrow> proc_heap m a = None" for a
    using assms unfolding status_only_def by (metis map_option_is_None)
  then show "dom (proc_heap m') = dom (proc_heap m)" by (auto simp: dom_def)
  have "job_heap m' j = None \<longleftrightarrow> job_heap m j = None" for j
    using assms unfolding status_only_def by (metis map_option_is_None)
  then show dom: "dom (job_heap m') = dom (job_heap m)" by (auto simp: dom_def)
  show "table_of m' = table_of m"
  proof
    fix j
    show "table_of m' j = table_of m j"
    proof (cases "job_heap m' j")
      case None
      then have "job_heap m j = None" using dom by (metis domIff)
      with None show ?thesis by (simp add: table_of_def)
    next
      case (Some job')
      with assms obtain job where "job_heap m j = Some job" "processTable job' = processTable job"
        by (rule status_only_job)
      with Some show ?thesis by (simp add: table_of_def)
    qed
  qed
qed

subsection \<open>The invariant: every table and every job object has one owner\<close>

text \<open>The tables of the jobs in the queues and of the tasks in the pool.\<close>

definition owned_tables :: "('p, 'a, 'z) sched_mem_scheme \<Rightarrow> ThreadQueue list \<Rightarrow> ptr option multiset" where
  "owned_tables m qs = queued_tables m qs + mset (map procTable (taskSink m))"

definition jobs_accounted :: "('p, 'a, 'z) sched_mem_scheme \<Rightarrow> ThreadQueue list \<Rightarrow> bool" where
  "jobs_accounted m qs \<longleftrightarrow> (\<forall>q \<in> set qs. queue_inv q) \<and> slices_zero m \<and> dom (job_heap m) \<subseteq> {..<job_next m} \<and>
     dom (job_heap m) = set_mset (all_jobs qs) \<union> set (all_doomed qs) \<and>
     distinct (all_doomed qs) \<and> set (all_doomed qs) \<inter> set_mset (all_jobs qs) = {}"

definition sys_core :: "('p, 'a, 'z) sched_mem_scheme \<Rightarrow> ThreadQueue list \<Rightarrow> bool" where
  "sys_core m qs \<longleftrightarrow> proc_inv m \<and> jobs_accounted m qs \<and>
     owned_tables m qs = image_mset Some (mset (pidVector m))"

text \<open>What \<open>init_job\<close> takes for granted of a table: its stage is set and has a type.\<close>

definition typed_stages :: "('p \<Rightarrow> ('p, 'a, 'w) ProcessStates) \<Rightarrow> (ptr \<rightharpoonup> ('p, 'a) ProcessTable) \<Rightarrow> bool" where
  "typed_stages env h \<longleftrightarrow> (\<forall>a t. h a = Some t \<longrightarrow> (\<exists>p. processState t = Some p \<and> ps_type (env p) \<noteq> 0))"

lemma job_in_all: "q \<in> set qs \<Longrightarrow> Some j \<in># queue_jobs q \<Longrightarrow> j \<in># all_jobs qs"
proof (induction qs)
  case (Cons r qs)
  have "j \<in># job_pointers q" using Cons.prems(2) by (force simp: job_pointers_def)
  with Cons show ?case by (auto simp: all_jobs_def)
qed simp

lemma owned_live:
  assumes "sys_core m qs" and "x \<in># owned_tables m qs"
  obtains a t where "x = Some a" and "proc_heap m a = Some t"
proof -
  obtain a where a: "x = Some a" "a \<in> set (pidVector m)" using assms by (auto simp: sys_core_def)
  then have "a \<in> dom (proc_heap m)" using assms(1) by (simp add: sys_core_def proc_inv_def)
  then show ?thesis using a(1) that by blast
qed

lemma queued_job_live:
  assumes "sys_core m qs" and "j \<in># all_jobs qs"
  obtains job a t where "live_job m j job a t" and "cpuSliceMs job = 0"
proof -
  have "j \<in> dom (job_heap m)" using assms by (simp add: sys_core_def jobs_accounted_def)
  then obtain job where job: "job_heap m j = Some job" by blast
  have "table_of m j \<in># owned_tables m qs" using assms(2) by (simp add: owned_tables_def queued_tables_def)
  with assms(1) obtain a t where "table_of m j = Some a" "proc_heap m a = Some t" by (rule owned_live)
  moreover have "cpuSliceMs job = 0"
    using assms(1) job by (auto simp: sys_core_def jobs_accounted_def slices_zero_def)
  ultimately show ?thesis using that [of job a t] job by (simp add: live_job_def table_of_def)
qed

lemma core_round_ok:
  assumes "sys_core m qs" and "typed_stages env (proc_heap m)"
  shows "round_ok env m qs"
proof -
  have "queue_ok m q" if q: "q \<in> set qs" for q
  proof -
    have inv: "queue_inv q" using assms(1) q by (simp add: sys_core_def jobs_accounted_def)
    have "j \<in> Some ` dom (job_heap m) \<and> (\<exists>w. job_status m j = Inr w)" if j: "j \<in># queue_jobs q" for j
    proof -
      obtain k where k: "j = Some k" using inv j by (cases j) (auto simp: queue_inv_def)
      then have "k \<in># all_jobs qs" using q j job_in_all by blast
      with assms(1) obtain job a t where "live_job m k job a t" by (rule queued_job_live)
      then show ?thesis by (auto simp: k live_job_def job_status_def)
    qed
    then show ?thesis using inv by (auto simp: queue_ok_def jobs_live_def tables_live_def)
  qed
  moreover have "ready_task env m t" if "t \<in> set (taskSink m)" for t
  proof -
    have "procTable t \<in># owned_tables m qs" using that by (auto simp: owned_tables_def)
    with assms(1) obtain a tab where "procTable t = Some a" "proc_heap m a = Some tab" by (rule owned_live)
    then show ?thesis using assms(2) by (auto simp: ready_task_def typed_stages_def)
  qed
  ultimately show ?thesis
    using assms(1) by (auto simp: round_ok_def fill_ok_def sys_core_def jobs_accounted_def)
qed

lemma sched_round_core:
  assumes "sys_core m qs" and "typed_stages env (proc_heap m)"
  obtains m' qs' where "sched_round env td0 m qs = Inr (m', qs')" and "sys_core m' qs'"
    and "length qs' = length qs" and "proc_heap m' = proc_heap m"
proof -
  obtain m' qs' where run: "sched_round env td0 m qs = Inr (m', qs')" and ok: "round_ok env m' qs'"
    and len: "length qs' = length qs"
    and abs: "(taskSink m', queued_tables m' qs') = abs_round (4 * length qs) (taskSink m, queued_tables m qs)"
    and frame: "proc_heap m' = proc_heap m" "pidVector m' = pidVector m" "proc_next m' = proc_next m"
    and jobs: "all_doomed qs' = []" "dom (job_heap m') = set_mset (all_jobs qs')"
    using sched_round_runs [OF core_round_ok [OF assms], of td0] assms(1)
    by (auto simp: sys_core_def jobs_accounted_def)
  define k where "k = min (length (taskSink m)) (4 * length qs - size (queued_tables m qs))"
  have "mset (map procTable (taskSink m)) = mset (map procTable (take k (taskSink m))) + mset (map procTable (drop k (taskSink m)))"
    by (metis map_append mset_append append_take_drop_id)
  then have "owned_tables m' qs' = owned_tables m qs"
    using abs by (simp add: owned_tables_def k_def Let_def ac_simps)
  then have "sys_core m' qs'"
    using assms(1) ok jobs frame
    by (auto simp: sys_core_def jobs_accounted_def proc_inv_def round_ok_def fill_ok_def queue_ok_def)
  with run len frame(1) show ?thesis by (intro that)
qed

lemma status_only_core:
  assumes "status_only m m'" and "sys_core m qs"
  shows "sys_core m' qs"
proof -
  note doms = status_only_doms [OF assms(1)]
  have "proc_inv m'" using assms doms by (simp add: sys_core_def proc_inv_def status_only_def)
  moreover have "slices_zero m'"
    using assms unfolding slices_zero_def sys_core_def jobs_accounted_def by (metis status_only_job)
  then have "jobs_accounted m' qs"
    using assms doms unfolding sys_core_def jobs_accounted_def status_only_def by metis
  moreover have "owned_tables m' qs = image_mset Some (mset (pidVector m'))"
    using assms doms by (simp add: sys_core_def owned_tables_def queued_tables_def status_only_def)
  ultimately show ?thesis by (simp add: sys_core_def)
qed

subsection \<open>Submitting\<close>

lemma pool_push_tables: "mset (map procTable (pool_push t q)) = add_mset (procTable t) (mset (map procTable q))"
proof -
  have tables: "map procTable r = map fst (pool_view r)" for r
    by (simp add: pool_view_def task_view_def)
  have "mset (map fst (pool_view (pool_push t q))) = image_mset fst (add_mset (task_view t) (mset (pool_view q)))"
    by (metis mset_map pool_push_def pushTask_mset)
  then show ?thesis by (simp add: tables task_view_def)
qed

lemma jobs_accounted_cong:
  "job_heap m' = job_heap m \<Longrightarrow> job_next m' = job_next m \<Longrightarrow> jobs_accounted m' qs = jobs_accounted m qs"
  by (simp add: jobs_accounted_def slices_zero_def)

lemma scheduleTask_core:
  assumes "scheduleTask env u p a prio m = Inr (rc, m')" and "sys_core m qs"
  shows "sys_core m' qs"
proof (cases "acceptable env p a")
  case True
  let ?t = "\<lparr>pid = u_pid u, processState = p, pt_args = a, jobStatus = 0, pt_priority = prio\<rparr>"
  from True have m': "m' = m\<lparr>proc_heap := (proc_heap m)(proc_next m \<mapsto> ?t),
           proc_next := Suc (proc_next m), pidVector := pidVector m @ [proc_next m],
           taskSink := pool_push \<lparr>procTable = Some (proc_next m), poolPriority = prio,
             starveCounter = u_starve u\<rparr> (taskSink m)\<rparr>"
    using assms(1) by (simp add: scheduleTask_eq)
  have "proc_inv m'" by (rule proc_inv_extend [of m]) (use assms(2) in \<open>simp_all add: m' sys_core_def\<close>)
  moreover have "jobs_accounted m' qs"
    using assms(2) jobs_accounted_cong [of m' m qs] by (simp add: sys_core_def m')
  moreover have "table_of m' = table_of m" by (simp add: table_of_def fun_eq_iff m')
  then have "owned_tables m' qs = image_mset Some (mset (pidVector m'))"
    using assms(2) by (simp add: sys_core_def owned_tables_def queued_tables_def m' pool_push_tables [simplified])
  ultimately show ?thesis by (simp add: sys_core_def)
next
  case False
  with assms show ?thesis by (simp add: scheduleTask_eq)
qed

lemma submit_all_core: "submit_all env u subs m = Inr m' \<Longrightarrow> sys_core m qs \<Longrightarrow> sys_core m' qs"
proof (induction subs arbitrary: m)
  case (Cons sub subs)
  obtain p a prio where sub: "sub = (p, a, prio)" by (cases sub)
  then obtain rc m1 where "scheduleTask env u p a prio m = Inr (rc, m1)" "submit_all env u subs m1 = Inr m'"
    using Cons.prems(1) by (auto simp: bindR_eq_Inr)
  then show ?case using Cons.IH scheduleTask_core Cons.prems(2) by blast
qed simp

subsection \<open>One queue among the others\<close>

lemma map_update_same: "i < length qs \<Longrightarrow> f q' = f (qs ! i) \<Longrightarrow> map f (qs[i := q']) = map f qs"
  by (simp add: map_update) (metis list_update_id nth_map)

lemma mset_concat_update:
  assumes "i < length qs" and "mset (f q') = add_mset x (mset (f (qs ! i)))"
  shows "mset (concat (map f (qs[i := q']))) = add_mset x (mset (concat (map f qs)))"
proof -
  have "mset (concat (map f qs)) = mset (concat (map f (take i qs @ qs ! i # drop (Suc i) qs)))"
    using assms(1) by (simp flip: id_take_nth_drop)
  then show ?thesis using assms by (simp add: upd_conv_take_nth_drop)
qed

lemma next_loop_total [simp]: "totalJobsInQueue (snd (next_loop n q)) = totalJobsInQueue q"
  by (induction n arbitrary: q) (simp_all add: Let_def)

lemma next_loop_hit:
  "next_loop n q = (Some j, q1) \<Longrightarrow> head q1 < QUEUE_SIZE \<and> \<not> jobSlotDone q1 (head q1) \<and> jobQueue q1 (head q1) = Some j"
  by (induction n arbitrary: q) (auto simp: Let_def split: if_splits)

lemma same_slots_jobs:
  assumes "jobSlotDone q' = jobSlotDone q" and "jobQueue q' = jobQueue q"
  shows "queue_jobs q' = queue_jobs q" and "job_pointers q' = job_pointers q" and "doomed q' is = doomed q is"
  using assms by (simp_all add: queue_jobs_def occupied_def job_pointers_def doomed_def)

lemma same_slots_core:
  assumes "sys_core m qs" and i: "i < length qs"
    and same: "jobSlotDone q' = jobSlotDone (qs ! i)" "jobQueue q' = jobQueue (qs ! i)"
    and "totalJobsInQueue q' = totalJobsInQueue (qs ! i)" and "head q' < QUEUE_SIZE"
  shows "sys_core m (qs[i := q'])"
proof -
  have jobs: "all_jobs (qs[i := q']) = all_jobs qs" and doomed: "all_doomed (qs[i := q']) = all_doomed qs"
    using same_slots_jobs [OF same] unfolding all_jobs_def all_doomed_def by (simp_all only: map_update_same [OF i])
  have "queue_inv (qs ! i)" using assms(1) i by (simp add: sys_core_def jobs_accounted_def)
  then have "queue_inv q'" using same_slots_jobs(1) [OF same] assms(5,6) by (simp add: queue_inv_def)
  then have "jobs_accounted m (qs[i := q'])"
    using assms(1) jobs doomed unfolding jobs_accounted_def sys_core_def
    by (auto dest!: set_update_subset_insert [THEN subsetD])
  then show ?thesis using assms(1) jobs by (simp add: sys_core_def owned_tables_def queued_tables_def)
qed

subsection \<open>Finishing a job\<close>

lemma doomed_finish:
  assumes "\<not> jobSlotDone q h" and "jobQueue q h = Some j"
    and "jobSlotDone q' = (jobSlotDone q)(h := True)" and "jobQueue q' = jobQueue q"
    and "distinct is" and "h \<in> set is"
  shows "mset (doomed q' is) = add_mset j (mset (doomed q is))"
proof -
  obtain us vs where us: "is = us @ h # vs" "h \<notin> set us" "h \<notin> set vs"
    using assms(5,6) by (auto dest!: split_list)
  have other: "doomed q' ks = doomed q ks" if "h \<notin> set ks" for ks
    unfolding doomed_def assms(4) by (intro map_cong filter_cong refl) (use that assms(3) in auto)
  have app: "doomed r (xs @ ys) = doomed r xs @ doomed r ys" for r xs ys
    by (simp add: doomed_def)
  show ?thesis using us other assms(1-4) by (simp add: app)
qed

lemma queue_inv_finish:
  assumes "queue_inv q" and "head q < QUEUE_SIZE" and "\<not> jobSlotDone q (head q)" and "jobQueue q (head q) = Some j"
  defines "q' \<equiv> q\<lparr>jobSlotDone := (jobSlotDone q)(head q := True), totalJobsInQueue := totalJobsInQueue q - 1\<rparr>"
  shows "queue_inv q'" and "job_pointers q = add_mset j (job_pointers q')"
proof -
  have jobs: "queue_jobs q = add_mset (Some j) (queue_jobs q')"
    using queue_jobs_clear [of "head q" q q'] assms(2-4) by (simp add: q'_def)
  then show "job_pointers q = add_mset j (job_pointers q')" by (simp add: job_pointers_def)
  show "queue_inv q'" using assms(1) jobs by (simp add: queue_inv_def) (simp add: q'_def)
qed

text \<open>The table of the job is deleted and its slot given up: one owner and one table less.\<close>

lemma release_core:
  assumes ok: "sys_core m qs" and i: "i < length qs" "qs ! i = q"
    and slot: "head q < QUEUE_SIZE" "\<not> jobSlotDone q (head q)" "jobQueue q (head q) = Some j"
    and job: "job_heap m j = Some job" "processTable job = Some a"
  defines "q' \<equiv> q\<lparr>jobSlotDone := (jobSlotDone q)(head q := True), totalJobsInQueue := totalJobsInQueue q - 1\<rparr>"
  defines "m' \<equiv> (unregisterProcess a m)\<lparr>freed_write := True\<rparr>"
  shows "sys_core m' (qs[i := q'])"
proof -
  have inv: "proc_inv m" and acc: "jobs_accounted m qs" using ok by (auto simp: sys_core_def)
  have "queue_inv q" using acc i by (auto simp: jobs_accounted_def)
  note fin = queue_inv_finish [OF this slot, folded q'_def]
  have same: "job_heap m' = job_heap m" "job_next m' = job_next m" "taskSink m' = taskSink m" "table_of m' = table_of m"
    by (simp_all add: m'_def unregisterProcess_def table_of_def fun_eq_iff)
  have jobs: "all_jobs qs = add_mset j (all_jobs (qs[i := q']))"
    using all_jobs_update [of i "qs[i := q']" q j] i fin(2) list_update_id [of qs i] by simp
  have "mset (doomed q' [0..<QUEUE_SIZE]) = add_mset j (mset (doomed q [0..<QUEUE_SIZE]))"
    by (rule doomed_finish [OF slot(2,3)]) (use slot(1) in \<open>simp_all add: q'_def\<close>)
  then have doomed: "mset (all_doomed (qs[i := q'])) = mset (j # all_doomed qs)"
    using mset_concat_update [of i qs "\<lambda>q. doomed q [0..<QUEUE_SIZE]" q' j] i by (simp add: all_doomed_def)
  have "table_of m j = Some a" using job by (simp add: table_of_def)
  then have tables: "owned_tables m qs = add_mset (Some a) (owned_tables m' (qs[i := q']))"
    by (simp add: owned_tables_def queued_tables_def jobs same)
  then have "Some a \<in># image_mset Some (mset (pidVector m))"
    using ok unfolding sys_core_def by (metis union_single_eq_member)
  then have a: "a \<in> set (pidVector m)" by auto
  have pids: "pidVector m' = remove1 a (pidVector m)" and heap: "proc_heap m' = (proc_heap m)(a := None)"
    using a unregisterProcess_frees [OF inv] by (simp_all add: m'_def) (simp add: unregisterProcess_def)
  have owned: "owned_tables m' (qs[i := q']) = image_mset Some (mset (pidVector m'))"
    using ok tables a by (simp add: sys_core_def pids image_mset_Diff)
      (metis add_mset_remove_trivial image_mset_add_mset insert_DiffM set_mset_mset)
  have "a \<notin> set (remove1 a (pidVector m))" using inv by (simp add: proc_inv_def)
  then have "Some a \<notin># owned_tables m' (qs[i := q'])"
    unfolding owned pids by (simp only: set_image_mset set_mset_mset) blast
  then have fresh: "j \<notin># all_jobs (qs[i := q'])"
    using \<open>table_of m j = Some a\<close> by (force simp: owned_tables_def queued_tables_def same)
  have "distinct (all_doomed (qs[i := q'])) = distinct (j # all_doomed qs)"
    using doomed by (rule mset_eq_imp_distinct_iff)
  moreover have "set (all_doomed (qs[i := q'])) = insert j (set (all_doomed qs))"
    using mset_eq_setD [OF doomed] by simp
  ultimately have "jobs_accounted m' (qs[i := q'])"
    using acc fresh fin(1) jobs by (auto simp: jobs_accounted_def same slices_zero_def dest!: set_update_subset_insert [THEN subsetD])
  moreover have "proc_inv m'" using unregisterProcess_inv [OF inv, of a] by (simp add: m'_def proc_inv_def)
  ultimately show ?thesis using owned by (simp add: sys_core_def)
qed

lemma finish_job_core:
  assumes ok: "sys_core m qs" and i: "i < length qs" "qs ! i = q"
    and slot: "head q < QUEUE_SIZE" "\<not> jobSlotDone q (head q)" "jobQueue q (head q) = Some j"
    and fin: "finish_job env u (Some j) m q w = Inr (m', q', w')"
  shows "sys_core m' (qs[i := q'])"
proof -
  have "j \<in># all_jobs qs"
    using i slot job_in_all [of q qs j] by (force simp: queue_jobs_def occupied_def)
  with ok obtain job a t where live: "live_job m j job a t" by (rule queued_job_live)
  have "proc_inv m" using ok by (simp add: sys_core_def)
  from this live slot(3) fin obtain subs m1 where sub: "submit_all env u subs m = Inr m1" "mem_grows m m1"
    and m': "m' = (unregisterProcess a m1)\<lparr>freed_write := True\<rparr>"
    and q': "q' = q\<lparr>jobSlotDone := (jobSlotDone q)(head q := True), totalJobsInQueue := totalJobsInQueue q - 1\<rparr>"
    by (rule finish_job_shape)
  have "job_heap m1 j = Some job" "processTable job = Some a"
    using live sub(2) by (auto simp: live_job_def mem_grows_def)
  then show ?thesis
    unfolding m' q' by (intro release_core [OF submit_all_core [OF sub(1) ok] i slot])
qed

end
