(* ===== verification/Sched_System.thy ===== *)
theory Sched_System
  imports Sched_Ownership
begin

section \<open>The scheduler and its threads together\<close>

text \<open>
  The scheduler thread makes rounds, each task thread makes turns, and other threads submit stages,
  in any order: a step relation. What the scheduler needs of the stages is a contract, the locale
  \<open>stage_objects\<close>: handlers leave the objects of other stages alone and submit fresh ones. Under it
  no step of the scheduler runs into a fault of its own, and no handler gets a dangling argument.
\<close>

subsection \<open>Arguments\<close>

text \<open>\<open>objs p b w\<close>: in the world \<open>w\<close> the address \<open>b\<close> holds an object for stage \<open>p\<close>.\<close>

definition objects_ok ::
  "('p \<Rightarrow> ('p, 'a, 'w) ProcessStates) \<Rightarrow> ('p \<Rightarrow> 'a \<Rightarrow> 'w \<Rightarrow> bool) \<Rightarrow> (ptr \<rightharpoonup> ('p, 'a) ProcessTable) \<Rightarrow> 'w \<Rightarrow> bool"
where
  "objects_ok env objs h w \<longleftrightarrow>
     (\<forall>a t. h a = Some t \<longrightarrow> (\<exists>p b. processState t = Some p \<and> pt_args t = Some b \<and>
        start_proc (env p) \<noteq> None \<and> end_proc (env p) \<noteq> None \<and> objs p b w)) \<and>
     (\<forall>a t a' t'. h a = Some t \<longrightarrow> h a' = Some t' \<longrightarrow> processState t = processState t' \<longrightarrow>
        pt_args t = pt_args t' \<longrightarrow> a = a')"

lemma objects_okE:
  assumes "objects_ok env objs h w" and "h a = Some t"
  obtains p b where "processState t = Some p" and "pt_args t = Some b"
    and "start_proc (env p) \<noteq> None" and "end_proc (env p) \<noteq> None" and "objs p b w"
  using assms unfolding objects_ok_def by blast

lemma objects_ok_owner:
  assumes "objects_ok env objs h w" and "h a = Some t" and "h a' = Some t'"
    and "processState t = processState t'" and "pt_args t = pt_args t'"
  shows "a = a'"
  using assms unfolding objects_ok_def by blast

lemma objects_ok_mono:
  assumes "objects_ok env objs h w"
    and "\<And>a t p b. h a = Some t \<Longrightarrow> processState t = Some p \<Longrightarrow> pt_args t = Some b \<Longrightarrow> objs p b w \<Longrightarrow> objs p b w'"
  shows "objects_ok env objs h w'"
  unfolding objects_ok_def
proof (intro conjI allI impI)
  fix a t
  assume a: "h a = Some t"
  with assms(1) obtain p b where pb: "processState t = Some p" "pt_args t = Some b"
    "start_proc (env p) \<noteq> None" "end_proc (env p) \<noteq> None" "objs p b w" by (rule objects_okE)
  with a assms(2) have "objs p b w'" by blast
  with pb show "\<exists>p b. processState t = Some p \<and> pt_args t = Some b \<and>
        start_proc (env p) \<noteq> None \<and> end_proc (env p) \<noteq> None \<and> objs p b w'" by blast
next
  fix a t a' t'
  assume two: "h a = Some t" "h a' = Some t'" "processState t = processState t'" "pt_args t = pt_args t'"
  show "a = a'" by (rule objects_ok_owner [OF assms(1) two])
qed

lemma objects_ok_subset:
  assumes "objects_ok env objs h w" and "\<And>a t. h' a = Some t \<Longrightarrow> h a = Some t"
  shows "objects_ok env objs h' w"
  unfolding objects_ok_def
proof (intro conjI allI impI)
  fix a t
  assume "h' a = Some t"
  then have "h a = Some t" by (rule assms(2))
  with assms(1) show "\<exists>p b. processState t = Some p \<and> pt_args t = Some b \<and>
        start_proc (env p) \<noteq> None \<and> end_proc (env p) \<noteq> None \<and> objs p b w" by (rule objects_okE) blast
next
  fix a t a' t'
  assume "h' a = Some t" "h' a' = Some t'" and same: "processState t = processState t'" "pt_args t = pt_args t'"
  then have two: "h a = Some t" "h a' = Some t'" by (auto intro: assms(2))
  show "a = a'" by (rule objects_ok_owner [OF assms(1) two same])
qed

lemma objects_ok_insert:
  assumes "objects_ok env objs h w" and "processState t = Some p" and "pt_args t = Some b"
    and "start_proc (env p) \<noteq> None" and "end_proc (env p) \<noteq> None" and "objs p b w"
    and new: "\<And>a u. h a = Some u \<Longrightarrow> processState u = Some p \<Longrightarrow> pt_args u \<noteq> Some b"
  shows "objects_ok env objs (h(n \<mapsto> t)) w"
  unfolding objects_ok_def
proof (intro conjI allI impI)
  fix a u
  assume "(h(n \<mapsto> t)) a = Some u"
  then have "u = t \<or> h a = Some u" by (auto split: if_splits)
  then show "\<exists>p b. processState u = Some p \<and> pt_args u = Some b \<and>
        start_proc (env p) \<noteq> None \<and> end_proc (env p) \<noteq> None \<and> objs p b w"
  proof
    assume "h a = Some u"
    with assms(1) show ?thesis by (rule objects_okE) blast
  qed (use assms(2-6) in blast)
next
  fix a u a' u'
  assume "(h(n \<mapsto> t)) a = Some u" "(h(n \<mapsto> t)) a' = Some u'"
    "processState u = processState u'" "pt_args u = pt_args u'"
  then show "a = a'"
    using new assms(2,3) objects_ok_owner [OF assms(1)] by (auto split: if_splits)
qed

lemma status_only_objects:
  assumes "status_only m m'" and "objects_ok env objs (proc_heap m) w"
  shows "objects_ok env objs (proc_heap m') w"
  unfolding objects_ok_def
proof (intro conjI allI impI)
  fix a t'
  assume "proc_heap m' a = Some t'"
  with assms(1) obtain t where t: "proc_heap m a = Some t" "processState t' = processState t" "pt_args t' = pt_args t"
    by (rule status_only_table)
  from assms(2) t(1) show "\<exists>p b. processState t' = Some p \<and> pt_args t' = Some b \<and>
        start_proc (env p) \<noteq> None \<and> end_proc (env p) \<noteq> None \<and> objs p b w"
    by (rule objects_okE) (use t in auto)
next
  fix a t a' t'
  assume new: "proc_heap m' a = Some t" "proc_heap m' a' = Some t'"
    and same: "processState t = processState t'" "pt_args t = pt_args t'"
  from assms(1) new(1) obtain u where u: "proc_heap m a = Some u" "processState t = processState u" "pt_args t = pt_args u"
    by (rule status_only_table)
  from assms(1) new(2) obtain u' where u': "proc_heap m a' = Some u'" "processState t' = processState u'" "pt_args t' = pt_args u'"
    by (rule status_only_table)
  show "a = a'" by (rule objects_ok_owner [OF assms(2) u(1) u'(1)]) (use same u u' in auto)
qed

subsection \<open>Submissions\<close>

text \<open>What a handler submits: objects that are live, not in use, and different from each other.\<close>

definition submitted_objects :: "('p, 'a) submission list \<Rightarrow> ('p option \<times> 'a option) list" where
  "submitted_objects subs = filter (\<lambda>(p, a). p \<noteq> None \<and> a \<noteq> None) (map (\<lambda>(p, a, prio). (p, a)) subs)"

definition subs_ok :: "('p \<Rightarrow> 'a \<Rightarrow> 'w \<Rightarrow> bool) \<Rightarrow> (ptr \<rightharpoonup> ('p, 'a) ProcessTable) \<Rightarrow> 'w \<Rightarrow> ('p, 'a) submission list \<Rightarrow> bool" where
  "subs_ok objs h w subs \<longleftrightarrow> distinct (submitted_objects subs) \<and>
     (\<forall>p b. (Some p, Some b) \<in> set (submitted_objects subs) \<longrightarrow> objs p b w \<and>
        (\<forall>a t. h a = Some t \<longrightarrow> processState t = Some p \<longrightarrow> pt_args t \<noteq> Some b))"

lemma submitted_objects_Cons:
  "submitted_objects ((p, a, prio) # subs) =
     (if p \<noteq> None \<and> a \<noteq> None then (p, a) # submitted_objects subs else submitted_objects subs)"
  by (simp add: submitted_objects_def)

lemma scheduleTask_objects:
  assumes "scheduleTask env u p a prio m = Inr (rc, m')" and "objects_ok env objs ((proc_heap m)(x := None)) w"
    and "subs_ok objs ((proc_heap m)(x := None)) w ((p, a, prio) # subs)" and "x \<noteq> proc_next m"
  shows "objects_ok env objs ((proc_heap m')(x := None)) w" and "subs_ok objs ((proc_heap m')(x := None)) w subs"
proof -
  let ?h = "(proc_heap m)(x := None)"
  let ?t = "\<lparr>pid = u_pid u, processState = p, pt_args = a, jobStatus = 0, pt_priority = prio\<rparr>"
  have rest: "subs_ok objs ?h w subs"
    using assms(3) by (auto simp: subs_ok_def submitted_objects_Cons split: if_splits)
  show "objects_ok env objs ((proc_heap m')(x := None)) w" and "subs_ok objs ((proc_heap m')(x := None)) w subs"
  proof (atomize (full), cases "acceptable env p a")
    case False
    with assms(1,2) rest show "objects_ok env objs ((proc_heap m')(x := None)) w \<and> subs_ok objs ((proc_heap m')(x := None)) w subs"
      by (simp add: scheduleTask_eq)
  next
    case True
    then obtain q b where pa: "p = Some q" "a = Some b" "start_proc (env q) \<noteq> None" "end_proc (env q) \<noteq> None"
      by (auto simp: acceptable_def)
    have heap: "(proc_heap m')(x := None) = ?h(proc_next m \<mapsto> ?t)"
      using assms(1,4) True by (auto simp: scheduleTask_eq fun_eq_iff)
    have first: "objs q b w" "\<And>c u. ?h c = Some u \<Longrightarrow> processState u = Some q \<Longrightarrow> pt_args u \<noteq> Some b"
      and new: "(Some q, Some b) \<notin> set (submitted_objects subs)"
      using assms(3) pa(1,2) unfolding subs_ok_def submitted_objects_Cons by auto
    have "objects_ok env objs (?h(proc_next m \<mapsto> ?t)) w"
      by (rule objects_ok_insert [OF assms(2) _ _ pa(3,4) first]) (simp_all add: pa)
    moreover have "subs_ok objs (?h(proc_next m \<mapsto> ?t)) w subs"
      using rest new pa(1,2) unfolding subs_ok_def by auto
    ultimately show "objects_ok env objs ((proc_heap m')(x := None)) w \<and> subs_ok objs ((proc_heap m')(x := None)) w subs"
      by (simp only: heap)
  qed
qed

lemma submit_all_objects:
  assumes "submit_all env u subs m = Inr m'" and "objects_ok env objs ((proc_heap m)(x := None)) w"
    and "subs_ok objs ((proc_heap m)(x := None)) w subs" and "x < proc_next m"
  shows "objects_ok env objs ((proc_heap m')(x := None)) w"
  using assms
proof (induction subs arbitrary: m)
  case (Cons sub subs)
  obtain p a prio where sub: "sub = (p, a, prio)" by (cases sub)
  then obtain rc m1 where one: "scheduleTask env u p a prio m = Inr (rc, m1)" and rest: "submit_all env u subs m1 = Inr m'"
    using Cons.prems(1) by (auto simp: bindR_eq_Inr)
  have "x < proc_next m1" using scheduleTask_grows [OF one] Cons.prems(4) by (simp add: mem_grows_def)
  with scheduleTask_objects [OF one Cons.prems(2) Cons.prems(3) [unfolded sub]] Cons.prems(4) rest
  show ?case using Cons.IH by blast
qed simp

subsection \<open>The contract of the stages\<close>

text \<open>
  The handlers of a stage, called on an object of that stage, keep every other object; only the end
  and fail handlers may free the stage's own object, and what they submit are new objects.
\<close>

locale stage_objects =
  fixes env :: "'p \<Rightarrow> ('p, 'a, 'w) ProcessStates"
    and objs :: "'p \<Rightarrow> 'a \<Rightarrow> 'w \<Rightarrow> bool"
  assumes stage_type: "objs p b w \<Longrightarrow> ps_type (env p) \<noteq> 0"
    and start_keeps: "start_proc (env p) = Some f \<Longrightarrow> f (Some a) w = Inr (st, w') \<Longrightarrow> objs p a w \<Longrightarrow>
      objs q b w \<Longrightarrow> objs q b w'"
    and end_keeps: "end_proc (env p) = Some g \<or> fail_proc (env p) = Some g \<Longrightarrow> g (Some a) w = Inr (w', subs) \<Longrightarrow>
      objs p a w \<Longrightarrow> objs q b w \<Longrightarrow> (q, b) \<noteq> (p, a) \<Longrightarrow> objs q b w'"
    and subs_new: "end_proc (env p) = Some g \<or> fail_proc (env p) = Some g \<Longrightarrow> g (Some a) w = Inr (w', subs) \<Longrightarrow>
      objs p a w \<Longrightarrow> (Some q, Some b) \<in> set (submitted_objects subs) \<Longrightarrow> objs q b w' \<and> \<not> objs q b w"
    and subs_distinct: "end_proc (env p) = Some g \<or> fail_proc (env p) = Some g \<Longrightarrow> g (Some a) w = Inr (w', subs) \<Longrightarrow>
      objs p a w \<Longrightarrow> distinct (submitted_objects subs)"

text \<open>A fault the handlers are to blame for: one runs into it on a live object, or the stage has no fail handler.\<close>

definition handler_fault :: "('p \<Rightarrow> ('p, 'a, 'w) ProcessStates) \<Rightarrow> ('p \<Rightarrow> 'a \<Rightarrow> 'w \<Rightarrow> bool) \<Rightarrow> fault \<Rightarrow> bool" where
  "handler_fault env objs e \<longleftrightarrow>
     (\<exists>p b w. objs p b w \<and>
       ((\<exists>f. start_proc (env p) = Some f \<and> f (Some b) w = Inl e) \<or>
        (\<exists>f. (end_proc (env p) = Some f \<or> fail_proc (env p) = Some f) \<and> f (Some b) w = Inl e) \<or>
        (fail_proc (env p) = None \<and> e = NullPointer)))"

lemma set_error_returns: "job_heap m j = Some job \<Longrightarrow> \<exists>m'. set_error (Some j) m = Inr m'"
  by (simp add: set_error_def)

text \<open>A pass ends as the start handler ends.\<close>

lemma run_pass_ends:
  assumes live: "live_job m j job a t" and stage: "processState t = Some p" "start_proc (env p) = Some f"
    and "cpuSliceMs job = 0"
  shows "run_pass env timer (Some j) m w = Inl e \<Longrightarrow> f (pt_args t) w = Inl e"
    and "run_pass env timer (Some j) m w = Inr (again, m', w') \<Longrightarrow> \<exists>st. f (pt_args t) w = Inr (st, w')"
proof (atomize (full), cases "f (pt_args t) w")
  case (Inl e')
  then have "runStartProcess env (Some j) m w = Inl e'"
    using run_handler_live [where field = start_proc and env = env and w = w, OF live stage] by (simp add: runStartProcess_def)
  then show "(run_pass env timer (Some j) m w = Inl e \<longrightarrow> f (pt_args t) w = Inl e) \<and>
      (run_pass env timer (Some j) m w = Inr (again, m', w') \<longrightarrow> (\<exists>st. f (pt_args t) w = Inr (st, w')))"
    using Inl by (simp add: run_pass_def)
next
  case (Inr r)
  obtain st w1 where r: "r = (st, w1)" by (cases r)
  let ?m1 = "m\<lparr>proc_heap := (proc_heap m)(a \<mapsto> t\<lparr>jobStatus := status_set st (jobStatus t)\<rparr>)\<rparr>"
  obtain m2 where "set_error (Some j) ?m1 = Inr m2"
    using set_error_returns [of ?m1 j job] live by (auto simp: live_job_def)
  moreover obtain m1 where "m1 = ?m1"
    and "run_pass env timer (Some j) m w =
      (if status_isset JOB_PENDING (status_set st (jobStatus t)) \<and>
          \<not> status_isset JOB_DONE (status_set st (jobStatus t)) then Inr (True, m1, w1)
       else if status_isset JOB_FAILED (status_set st (jobStatus t))
         then bindR (set_error (Some j) m1) (\<lambda>m2. Inr (False, m2, w1))
       else Inr (False, m1, w1))"
    using live stage Inr [unfolded r] assms(4) by (rule run_pass_start)
  ultimately show "(run_pass env timer (Some j) m w = Inl e \<longrightarrow> f (pt_args t) w = Inl e) \<and>
      (run_pass env timer (Some j) m w = Inr (again, m', w') \<longrightarrow> (\<exists>st. f (pt_args t) w = Inr (st, w')))"
    using Inr r by (auto split: if_splits)
qed

lemma live_after:
  assumes "status_only m m'" and "live_job m j job a t"
  obtains job' t' where "live_job m' j job' a t'" and "processState t' = processState t"
    and "pt_args t' = pt_args t" and "cpuSliceMs job' = cpuSliceMs job"
proof -
  have "j \<in> dom (job_heap m')" and "a \<in> dom (proc_heap m')"
    using assms(2) status_only_doms [OF assms(1)] by (auto simp: live_job_def)
  then obtain job' t' where new: "job_heap m' j = Some job'" "proc_heap m' a = Some t'" by blast
  obtain job0 where "job_heap m j = Some job0" "processTable job' = processTable job0" "cpuSliceMs job' = cpuSliceMs job0"
    using assms(1) new(1) by (rule status_only_job)
  moreover obtain t0 where "proc_heap m a = Some t0" "processState t' = processState t0" "pt_args t' = pt_args t0"
    using assms(1) new(2) by (rule status_only_table)
  ultimately show ?thesis using that [of job' t'] new assms(2) by (simp add: live_job_def)
qed

context stage_objects begin

lemma run_loop_step:
  assumes "live_job m j job a t" and "processState t = Some p" and "pt_args t = Some b"
    and "start_proc (env p) = Some f" and "cpuSliceMs job = 0" and "objs p b w"
    and "run_pass env timer (Some j) m w = Inr (again, m', w')"
  obtains job' t' where "live_job m' j job' a t'" and "processState t' = Some p" and "pt_args t' = Some b"
    and "cpuSliceMs job' = 0" and "\<forall>q c. objs q c w \<longrightarrow> objs q c w'"
proof -
  from assms(7) have "status_only m m'" by (rule run_pass_only)
  then obtain job' t' where "live_job m' j job' a t'" "processState t' = processState t" "pt_args t' = pt_args t"
    "cpuSliceMs job' = cpuSliceMs job" using assms(1) by (rule live_after)
  moreover obtain st where "f (Some b) w = Inr (st, w')"
    using run_pass_ends(2) [where env = env and p = p, OF assms(1,2,4,5,7)] assms(3) by auto
  then have "\<forall>q c. objs q c w \<longrightarrow> objs q c w'" using assms(4,6) by (blast intro: start_keeps)
  ultimately show ?thesis using that [of job' t'] assms(2,3,5) by simp
qed

lemma run_loop_objects:
  assumes "live_job m j job a t" and "processState t = Some p" and "pt_args t = Some b"
    and "start_proc (env p) = Some f" and "cpuSliceMs job = 0" and "objs p b w"
    and "run_loop fuel env timer (Some j) m w = Some (Inr (m', w'))" and "objs q c w"
  shows "objs q c w'"
  using assms(1-3,5-8)
proof (induction fuel arbitrary: m job t w)
  case (Suc fuel)
  show ?case
  proof (cases "jobShouldPause timer")
    case True
    with Suc.prems show ?thesis by simp
  next
    case False
    obtain again m1 w1 where pass: "run_pass env timer (Some j) m w = Inr (again, m1, w1)"
      using Suc.prems(6) False by (auto split: sum.splits)
    obtain job1 t1 where next_pass: "live_job m1 j job1 a t1" "processState t1 = Some p" "pt_args t1 = Some b" "cpuSliceMs job1 = 0"
      and keep: "\<forall>q c. objs q c w \<longrightarrow> objs q c w1"
      using Suc.prems(1-3) assms(4) Suc.prems(4,5) pass by (rule run_loop_step)
    show ?thesis
    proof (cases again)
      case True
      then have "run_loop fuel env timer (Some j) m1 w1 = Some (Inr (m', w'))" using Suc.prems(6) False pass by simp
      then show ?thesis using Suc.IH [OF next_pass] keep Suc.prems(5,7) by blast
    next
      case False
      then show ?thesis using Suc.prems(6,7) \<open>\<not> jobShouldPause timer\<close> pass keep by simp
    qed
  qed
qed simp

lemma run_loop_fault:
  assumes "live_job m j job a t" and "processState t = Some p" and "pt_args t = Some b"
    and "start_proc (env p) = Some f" and "cpuSliceMs job = 0" and "objs p b w"
    and "run_loop fuel env timer (Some j) m w = Some (Inl e)"
  shows "handler_fault env objs e"
  using assms(1-3,5-7)
proof (induction fuel arbitrary: m job t w)
  case (Suc fuel)
  show ?case
  proof (cases "run_pass env timer (Some j) m w")
    case (Inl e')
    with Suc.prems(6) have "run_pass env timer (Some j) m w = Inl e" by (simp split: if_splits)
    then have "f (Some b) w = Inl e"
      using run_pass_ends(1) [where env = env and p = p, OF Suc.prems(1,2) assms(4) Suc.prems(4)] Suc.prems(3) by simp
    then show ?thesis using assms(4) Suc.prems(5) unfolding handler_fault_def by blast
  next
    case (Inr r)
    obtain again m1 w1 where r: "r = (again, m1, w1)" by (cases r) auto
    obtain job1 t1 where next_pass: "live_job m1 j job1 a t1" "processState t1 = Some p" "pt_args t1 = Some b" "cpuSliceMs job1 = 0"
      and keep: "\<forall>q c. objs q c w \<longrightarrow> objs q c w1"
      using Suc.prems(1-3) assms(4) Suc.prems(4,5) Inr [unfolded r] by (rule run_loop_step)
    have "run_loop fuel env timer (Some j) m1 w1 = Some (Inl e)"
      using Suc.prems(6) Inr r by (simp split: if_splits)
    with Suc.IH [OF next_pass] keep Suc.prems(5) show ?thesis by blast
  qed
qed simp

lemma finish_job_fault:
  assumes "live_job m j job a t" and "processState t = Some p" and "pt_args t = Some b"
    and "end_proc (env p) \<noteq> None" and "objs p b w"
    and "jobQueue q (head q) = Some j" and "finish_job env u (Some j) m q w = Inl e"
  shows "handler_fault env objs e"
proof -
  have job: "job_heap m j = Some job" "processTable job = Some a" using assms(1) by (simp_all add: live_job_def)
  let ?run = "if jobErrorHandle job then runFailProcess env (Some j) m w else runEndProcess env (Some j) m w"
  note run = run_handler_live [where env = env and w = w, OF assms(1,2)]
  show ?thesis
  proof (cases ?run)
    case (Inl e')
    then have e: "?run = Inl e" using assms(7) job by (simp add: finish_job_def)
    show ?thesis
    proof (cases "jobErrorHandle job \<and> fail_proc (env p) = None")
      case True
      then have "e = NullPointer"
        using e assms(1,2) by (simp add: runFailProcess_def run_handler_def job_table_def live_job_def)
      with True show ?thesis using assms(5) unfolding handler_fault_def by blast
    next
      case False
      then have "\<exists>g. (end_proc (env p) = Some g \<or> fail_proc (env p) = Some g) \<and> g (Some b) w = Inl e"
        using e run [where field = fail_proc] run [where field = end_proc] assms(3,4)
        by (auto simp: runFailProcess_def runEndProcess_def split: if_splits)
      then show ?thesis using assms(5) unfolding handler_fault_def by blast
    qed
  next
    case (Inr r)
    obtain w1 subs where r: "r = (w1, subs)" by (cases r)
    obtain m1 where m1: "submit_all env u subs m = Inr m1" using submit_all_returns by blast
    then have "job_heap m1 = job_heap m" using submit_all_grows [OF m1] by (simp add: mem_grows_def)
    then have "job_heap (unregisterProcess a m1) j = Some job" using job by (simp add: unregisterProcess_def)
    then have "\<exists>x. markTaskAsComplete (unregisterProcess a m1) q = Inr x"
      using assms(6) job by (cases "proc_heap (unregisterProcess a m1) a") (auto simp: markTaskAsComplete_def setJobStatus_def)
    then show ?thesis using assms(7) job Inr r m1 by (auto simp: finish_job_def Let_def)
  qed
qed

lemma finish_job_objects:
  assumes ok: "objects_ok env objs (proc_heap m) w" and inv: "proc_inv m" and live: "live_job m j job a t"
    and slot: "jobQueue q (head q) = Some j" and fin: "finish_job env u (Some j) m q w = Inr (m', q', w')"
  shows "objects_ok env objs (proc_heap m') w'"
proof -
  have t: "proc_heap m a = Some t" using live by (simp add: live_job_def)
  with ok obtain p b where p: "processState t = Some p" "pt_args t = Some b" "objs p b w"
    and handlers: "start_proc (env p) \<noteq> None" "end_proc (env p) \<noteq> None" by (rule objects_okE)
  from inv live slot fin obtain subs m1 where
      run: "(if jobErrorHandle job then runFailProcess env (Some j) m w else runEndProcess env (Some j) m w) = Inr (w', subs)"
    and sub: "submit_all env u subs m = Inr m1" "mem_grows m m1"
    and m': "m' = (unregisterProcess a m1)\<lparr>freed_write := True\<rparr>"
    by (rule finish_job_shape)
  note call = run_handler_live [where env = env and w = w, OF live p(1)]
  obtain g where g: "end_proc (env p) = Some g \<or> fail_proc (env p) = Some g" "g (Some b) w = Inr (w', subs)"
  proof (cases "jobErrorHandle job")
    case True
    then have "runFailProcess env (Some j) m w = Inr (w', subs)" using run by simp
    then show ?thesis
      using that call [where field = fail_proc] p(1,2) live
      by (cases "fail_proc (env p)") (auto simp: runFailProcess_def run_handler_def job_table_def live_job_def)
  next
    case False
    obtain g where "end_proc (env p) = Some g" using handlers(2) by blast
    then show ?thesis
      using that [of g] run call [where field = end_proc] p(2) False by (simp add: runEndProcess_def)
  qed
  let ?h = "(proc_heap m)(a := None)"
  have others: "objects_ok env objs ?h w"
    by (rule objects_ok_subset [OF ok]) (auto split: if_splits)
  have own: "(q, c) \<noteq> (p, b)" if "?h x = Some v" "processState v = Some q" "pt_args v = Some c" for x v q c
    using that p(1,2) objects_ok_owner [OF ok _ t, of x v] by (auto split: if_splits)
  have "objects_ok env objs ?h w'"
    by (rule objects_ok_mono [OF others]) (use end_keeps [OF g p(3)] own in blast)
  moreover have "subs_ok objs ?h w' subs"
    unfolding subs_ok_def
  proof (intro conjI allI impI)
    show "distinct (submitted_objects subs)" by (rule subs_distinct [OF g p(3)])
    fix q c
    assume new: "(Some q, Some c) \<in> set (submitted_objects subs)"
    show "objs q c w'" using subs_new [OF g p(3) new] by simp
    fix x v
    assume x: "?h x = Some v" "processState v = Some q"
    show "pt_args v \<noteq> Some c"
      using subs_new [OF g p(3) new] others x by (auto elim!: objects_okE [of env objs ?h w x v])
  qed
  moreover have "a < proc_next m" using inv t by (auto simp: proc_inv_def)
  ultimately have "objects_ok env objs ((proc_heap m1)(a := None)) w'"
    using submit_all_objects [OF sub(1)] by blast
  moreover have "proc_inv m1" using sub(2) inv by (simp add: mem_grows_def)
  ultimately show ?thesis by (simp add: m' unregisterProcess_frees)
qed

end

subsection \<open>A turn of a task thread\<close>

text \<open>
  A turn in a system that is in order: what \<open>getNextTask\<close> has picked, and what the three branches do.
\<close>

lemma turn_head:
  assumes "sys_core m qs" and "i < length qs" and "getNextTask (qs ! i) = (r, q1)"
  shows "sys_core m (qs[i := q1])"
    and "r = Some j \<Longrightarrow> head q1 < QUEUE_SIZE \<and> \<not> jobSlotDone q1 (head q1) \<and> jobQueue q1 (head q1) = Some j"
proof -
  have q1: "q1 = snd (next_loop QUEUE_SIZE (qs ! i))" using assms(3) by (simp add: getNextTask_def)
  have "head (qs ! i) < 4" using assms(1,2) by (auto simp: sys_core_def jobs_accounted_def queue_inv_def)
  then have "head q1 < QUEUE_SIZE" unfolding q1 using next_loop_head by simp
  then show "sys_core m (qs[i := q1])"
    using assms(1,2) by (intro same_slots_core) (simp_all only: q1 next_loop_slots next_loop_total)
  show "head q1 < QUEUE_SIZE \<and> \<not> jobSlotDone q1 (head q1) \<and> jobQueue q1 (head q1) = Some j" if "r = Some j"
    using assms(3) that next_loop_hit [of QUEUE_SIZE "qs ! i" j q1] unfolding getNextTask_def by blast
qed

lemma turn_job:
  assumes "sys_core m qs" and "i < length qs" and "getNextTask (qs ! i) = (Some j, q1)"
  obtains job a t where "live_job m j job a t" and "cpuSliceMs job = 0"
proof -
  note head = turn_head [OF assms]
  have "Some j \<in># queue_jobs q1" using head(2) by (force simp: queue_jobs_def occupied_def)
  then have "j \<in># all_jobs (qs[i := q1])" using assms(2) by (intro job_in_all [of q1]) (simp_all add: set_update_memI)
  with head(1) show ?thesis using that by (rule queued_job_live)
qed

lemma thread_turn_core:
  assumes ok: "sys_core m qs" and i: "i < length qs"
    and run: "thread_turn fuel env u m (qs ! i) w = Some (Inr (m', q', w'))"
  shows "sys_core m' (qs[i := q'])"
proof -
  obtain r q1 where next_task: "getNextTask (qs ! i) = (r, q1)" by force
  note head = turn_head [OF ok i next_task]
  show ?thesis
  proof (cases r)
    case None
    then show ?thesis using head(1) run next_task by (auto simp: thread_turn_def)
  next
    case (Some j)
    with ok i next_task obtain job a t where live: "live_job m j job a t" by (auto elim: turn_job)
    show ?thesis
    proof (cases "status_isset JOB_DONE (jobStatus t)")
      case True
      then have "finish_job env u (Some j) m q1 w = Inr (m', q', w')"
        using run next_task Some live by (simp add: thread_turn_def)
      then have "sys_core m' (qs[i := q1, i := q'])"
        using i head(2) [OF Some] by (intro finish_job_core [OF head(1)]) simp_all
      then show ?thesis by simp
    next
      case False
      obtain m1 where m1: "setJobStatus JOB_RUNNING (Some j) m = Inr m1" using live by (rule setJobStatus_live)
      then have job1: "deref (job_heap m1) (Some j) = Inr job"
        using live setJobStatus_frame(1) [OF m1] by (simp add: live_job_def)
      obtain w2 where "run_loop fuel env (fst (init_timer 0 job)) (Some j) m1 w = Some (Inr (m', w2))" and q': "q' = q1"
        using run next_task Some live False m1 job1 by (auto simp: thread_turn_def bindR_eq_Inr)
      then have "status_only m1 m'" by (intro run_loop_only)
      with setJobStatus_only [OF m1] have "status_only m m'" by (rule status_only_trans)
      then show ?thesis using head(1) unfolding q' by (rule status_only_core)
    qed
  qed
qed

context stage_objects begin

lemma thread_turn_objects:
  assumes core: "sys_core m qs" and ok: "objects_ok env objs (proc_heap m) w" and i: "i < length qs"
    and run: "thread_turn fuel env u m (qs ! i) w = Some (Inr (m', q', w'))"
  shows "objects_ok env objs (proc_heap m') w'"
proof -
  obtain r q1 where next_task: "getNextTask (qs ! i) = (r, q1)" by force
  show ?thesis
  proof (cases r)
    case None
    then show ?thesis using ok run next_task by (auto simp: thread_turn_def)
  next
    case (Some j)
    note slot = turn_head(2) [OF core i next_task Some]
    obtain job a t where live: "live_job m j job a t" and slice: "cpuSliceMs job = 0"
      using core i next_task [unfolded Some] by (rule turn_job)
    have t: "proc_heap m a = Some t" using live by (simp add: live_job_def)
    show ?thesis
    proof (cases "status_isset JOB_DONE (jobStatus t)")
      case True
      then have "finish_job env u (Some j) m q1 w = Inr (m', q', w')"
        using run next_task Some live by (simp add: thread_turn_def)
      then show ?thesis using ok core live slot by (auto intro: finish_job_objects simp: sys_core_def)
    next
      case False
      from ok t obtain p b f where p: "processState t = Some p" "pt_args t = Some b" "start_proc (env p) = Some f" "objs p b w"
        by (auto elim: objects_okE)
      let ?t = "t\<lparr>jobStatus := status_set JOB_RUNNING (jobStatus t)\<rparr>"
      obtain m1 where m1: "setJobStatus JOB_RUNNING (Some j) m = Inr m1" and live1: "live_job m1 j job a ?t"
        using live by (rule setJobStatus_live)
      then have job1: "deref (job_heap m1) (Some j) = Inr job" by (simp add: live_job_def)
      have loop: "run_loop fuel env (fst (init_timer 0 job)) (Some j) m1 w = Some (Inr (m', w'))"
        using run next_task Some live False m1 job1 by (auto simp: thread_turn_def bindR_eq_Inr)
      have "status_only m m'"
        using setJobStatus_only [OF m1] run_loop_only [OF loop] by (rule status_only_trans)
      then have "objects_ok env objs (proc_heap m') w" using ok by (rule status_only_objects)
      moreover have "objs q c w'" if "objs q c w" for q c
        by (rule run_loop_objects [OF live1 _ _ p(3) slice p(4) loop that]) (simp_all add: p)
      ultimately show ?thesis by (rule objects_ok_mono)
    qed
  qed
qed

lemma thread_turn_fault:
  assumes core: "sys_core m qs" and ok: "objects_ok env objs (proc_heap m) w" and i: "i < length qs"
    and run: "thread_turn fuel env u m (qs ! i) w = Some (Inl e)"
  shows "handler_fault env objs e"
proof -
  obtain r q1 where next_task: "getNextTask (qs ! i) = (r, q1)" by force
  then obtain j where j: "r = Some j" using run by (cases r) (auto simp: thread_turn_def)
  note slot = turn_head(2) [OF core i next_task j]
  obtain job a t where live: "live_job m j job a t" and slice: "cpuSliceMs job = 0"
    using core i next_task [unfolded j] by (rule turn_job)
  have t: "proc_heap m a = Some t" using live by (simp add: live_job_def)
  from ok t obtain p b f where p: "processState t = Some p" "pt_args t = Some b" "start_proc (env p) = Some f"
    "end_proc (env p) \<noteq> None" "objs p b w" by (auto elim: objects_okE)
  show ?thesis
  proof (cases "status_isset JOB_DONE (jobStatus t)")
    case True
    then have "finish_job env u (Some j) m q1 w = Inl e" using run next_task j live by (simp add: thread_turn_def)
    then show ?thesis using finish_job_fault [OF live p(1,2,4,5)] slot by blast
  next
    case False
    let ?t = "t\<lparr>jobStatus := status_set JOB_RUNNING (jobStatus t)\<rparr>"
    obtain m1 where m1: "setJobStatus JOB_RUNNING (Some j) m = Inr m1" and live1: "live_job m1 j job a ?t"
      using live by (rule setJobStatus_live)
    then have "deref (job_heap m1) (Some j) = Inr job" by (simp add: live_job_def)
    then have loop: "run_loop fuel env (fst (init_timer 0 job)) (Some j) m1 w = Some (Inl e)"
      using run next_task j live False m1 by (auto simp: thread_turn_def bindR_eq_Inl)
    show ?thesis by (rule run_loop_fault [OF live1 _ _ p(3) slice p(5) loop]) (simp_all add: p)
  qed
qed

end

subsection \<open>All interleavings\<close>

text \<open>
  The steps of the scheduler thread, of the task threads and of whoever submits a stage or changes
  what the stages work on. The storage of the thread queues is taken to be zeroed at first, see
  \<open>first_flush_deletes_garbage\<close>.
\<close>

definition boot_mem :: "('p, 'a) sched_mem" where
  "boot_mem = \<lparr>proc_heap = (\<lambda>_. None), proc_next = 0, pidVector = [], taskSink = [],
     job_heap = (\<lambda>_. None), job_next = 0, freed_write = False\<rparr>"

definition keeps_objects :: "('p \<Rightarrow> 'a \<Rightarrow> 'w \<Rightarrow> bool) \<Rightarrow> 'w \<Rightarrow> 'w \<Rightarrow> bool" where
  "keeps_objects objs w w' \<longleftrightarrow> (\<forall>q b. objs q b w \<longrightarrow> objs q b w')"

inductive sched_reach ::
  "('p \<Rightarrow> ('p, 'a, 'w) ProcessStates) \<Rightarrow> ('p \<Rightarrow> 'a \<Rightarrow> 'w \<Rightarrow> bool) \<Rightarrow> ('p, 'a) sched_mem \<Rightarrow> ThreadQueue list \<Rightarrow> 'w \<Rightarrow> bool"
  for env objs
where
  boot: "sched_reach env objs boot_mem (init_sched (\<lambda>_ _. None) threads max_thread) w"
| submit: "sched_reach env objs m qs w \<Longrightarrow> keeps_objects objs w w' \<Longrightarrow> objs p b w' \<Longrightarrow> \<not> objs p b w \<Longrightarrow>
     scheduleTask env u (Some p) (Some b) prio m = Inr (rc, m') \<Longrightarrow> sched_reach env objs m' qs w'"
| world: "sched_reach env objs m qs w \<Longrightarrow> keeps_objects objs w w' \<Longrightarrow> sched_reach env objs m qs w'"
| round: "sched_reach env objs m qs w \<Longrightarrow> sched_round env td0 m qs = Inr (m', qs') \<Longrightarrow> sched_reach env objs m' qs' w"
| turn: "sched_reach env objs m qs w \<Longrightarrow> i < length qs \<Longrightarrow>
     thread_turn fuel env u m (qs ! i) w = Some (Inr (m', q', w')) \<Longrightarrow> sched_reach env objs m' (qs[i := q']) w'"

lemma sys_core_boot: "sys_core boot_mem (init_sched (\<lambda>_ _. None) threads k)"
proof -
  let ?qs = "init_sched (\<lambda>_ _. None) threads k"
  have "all_jobs ?qs = {#}"
    by (simp add: init_sched_def all_jobs_def job_pointers_def queue_jobs_def occupied_def new_ThreadQueue_def comp_def)
  moreover have "all_doomed ?qs = []"
    by (simp add: all_doomed_def doomed_def init_sched_def new_ThreadQueue_def)
  moreover have "\<forall>q \<in> set ?qs. queue_inv q"
    by (simp add: init_sched_def queue_inv_new)
  ultimately show ?thesis
    by (simp add: sys_core_def jobs_accounted_def proc_inv_def slices_zero_def owned_tables_def
        queued_tables_def boot_mem_def)
qed

lemma submit_object:
  assumes "objects_ok env objs (proc_heap m) w" and "keeps_objects objs w w'" and "objs p b w'" and "\<not> objs p b w"
    and "scheduleTask env u (Some p) (Some b) prio m = Inr (rc, m')" and "proc_inv m"
  shows "objects_ok env objs (proc_heap m') w'"
proof -
  let ?x = "Suc (proc_next m)"
  have "?x \<notin> dom (proc_heap m)" using assms(6) by (auto simp only: proc_inv_def)
  then have none: "(proc_heap m)(?x := None) = proc_heap m" by (intro fun_upd_idem) (simp add: domIff)
  have ok: "objects_ok env objs (proc_heap m) w'"
    using assms(1) by (rule objects_ok_mono) (use assms(2) in \<open>simp add: keeps_objects_def\<close>)
  have "pt_args t \<noteq> Some b" if "proc_heap m a = Some t" "processState t = Some p" for a t
    using assms(1) that(1) by (rule objects_okE) (use that(2) assms(4) in auto)
  then have "subs_ok objs (proc_heap m) w' [(Some p, Some b, prio)]"
    using assms(3) by (auto simp: subs_ok_def submitted_objects_def)
  then have "objects_ok env objs ((proc_heap m')(?x := None)) w'"
    using scheduleTask_objects(1) [OF assms(5), of objs ?x w'] ok by (simp add: none)
  moreover have "proc_heap m' ?x = None"
    using assms(5,6) none by (auto simp: scheduleTask_eq fun_eq_iff split: if_splits)
  ultimately show ?thesis by (simp add: fun_upd_idem)
qed

context stage_objects begin

lemma objects_typed: "objects_ok env objs h w \<Longrightarrow> typed_stages env h"
  unfolding typed_stages_def by (blast elim: objects_okE dest: stage_type)

lemma reach_ok:
  "sched_reach env objs m qs w \<Longrightarrow> sys_core m qs \<and> objects_ok env objs (proc_heap m) w"
proof (induction rule: sched_reach.induct)
  case (boot threads max_thread w)
  then show ?case using sys_core_boot by (simp add: objects_ok_def boot_mem_def)
next
  case (submit m qs w w' p b u prio rc m')
  then have "proc_inv m" by (simp add: sys_core_def)
  then have "objects_ok env objs (proc_heap m') w'"
    using submit_object [OF _ submit.hyps(2-5)] submit.IH by simp
  then show ?case using scheduleTask_core [OF submit.hyps(5)] submit.IH by simp
next
  case (world m qs w w')
  then show ?case by (auto intro: objects_ok_mono simp: keeps_objects_def)
next
  case (round m qs w td0 m' qs')
  then have "sys_core m qs" "typed_stages env (proc_heap m)" using objects_typed by auto
  then obtain m1 qs1 where "sched_round env td0 m qs = Inr (m1, qs1)" "sys_core m1 qs1" "proc_heap m1 = proc_heap m"
    by (rule sched_round_core)
  with round show ?case by simp
next
  case (turn m qs w i fuel u m' q' w')
  then have ok: "sys_core m qs" "objects_ok env objs (proc_heap m) w" by simp_all
  show ?case using thread_turn_core [OF ok(1) turn.hyps(2,3)] thread_turn_objects [OF ok turn.hyps(2,3)] ..
qed

lemma reach_round:
  assumes "sched_reach env objs m qs w"
  shows "\<exists>m' qs'. sched_round env td0 m qs = Inr (m', qs')"
proof -
  have "sys_core m qs" "typed_stages env (proc_heap m)"
    using reach_ok [OF assms] objects_typed by auto
  then show ?thesis by (rule sched_round_core) blast
qed

lemma reach_turn:
  assumes "sched_reach env objs m qs w" and "i < length qs" and "thread_turn fuel env u m (qs ! i) w = Some (Inl e)"
  shows "handler_fault env objs e"
proof -
  have ok: "sys_core m qs" "objects_ok env objs (proc_heap m) w" using reach_ok [OF assms(1)] by simp_all
  show ?thesis by (rule thread_turn_fault [OF ok assms(2,3)])
qed

end

lemma job_once:
  assumes "sys_core m qs"
  shows "count (all_jobs qs) j \<le> 1"
proof -
  have "distinct (map Some (pidVector m))" using assms by (auto simp: sys_core_def proc_inv_def distinct_map)
  then have "count (mset (map Some (pidVector m))) x \<le> 1" for x
    by (simp add: distinct_count_atmost_1 del: mset_map)
  moreover have "count (all_jobs qs) j \<le> count (queued_tables m qs) (table_of m j)"
    unfolding queued_tables_def by (rule count_image_ge)
  moreover have "count (queued_tables m qs) (table_of m j) \<le> count (mset (map Some (pidVector m))) (table_of m j)"
    using assms unfolding sys_core_def owned_tables_def by (metis count_union le_add1 mset_map)
  ultimately show ?thesis by (meson order_trans)
qed

text \<open>
  The constructor of a queue leaves \<open>jobQueue\<close> uninitialised and marks every slot as done, and the
  first round flushes the done slots: whatever pointer the storage held is deleted.
\<close>

theorem first_flush_deletes_garbage:
  assumes "g 0 = Some j" and "job_heap m j = None"
  shows "flushFinishedJobs m (new_ThreadQueue g tid) = Inl UseAfterFree"
  using assms by (simp add: flushFinishedJobs_def new_ThreadQueue_def upt_conv_Cons)

theorem first_flush_deletes_garbage_witness:
  "flushFinishedJobs (boot_mem :: (unit, unit) sched_mem) (new_ThreadQueue (\<lambda>_. Some 5) 0) = Inl UseAfterFree"
  by (rule first_flush_deletes_garbage [of _ 5]) (simp_all add: boot_mem_def)

end
