(* ===== verification/Instances.thy ===== *)
theory Instances
  imports Process_Types
begin

section \<open>Instances and their versions: instance/instance.cpp, instance\_list.cpp, instance\_model.hpp\<close>

text \<open>
  \<open>InstanceList\<close> holds the instances whose tables have been created, \<open>DataBaseInstanceList\<close>
  the versions of every instance: each gets an alias of its own, an older version is dropped
  once nobody refers to it. Each method of the latter takes the list's semaphore once, so it is
  one step. The objects on both lists are owned by the list and kept by value.
\<close>

subsection \<open>Instances\<close>

record Instance =
  instanceId :: string
  linkedAlgorithm :: "8 word"
  in_totalColumns :: "8 word"
  in_totalRows :: "8 word"

definition blank_Instance :: Instance where
  "blank_Instance = \<lparr>instanceId = [], linkedAlgorithm = 0, in_totalColumns = 0, in_totalRows = 0\<rparr>"

text \<open>The number of rows is given as a 64-bit value and stored in 8 bits.\<close>

definition new_Instance :: "string \<Rightarrow> 8 word \<Rightarrow> 8 word \<Rightarrow> 64 word \<Rightarrow> Instance" where
  "new_Instance iid algo cols nrows =
     \<lparr>instanceId = iid, linkedAlgorithm = algo, in_totalColumns = cols, in_totalRows = ucast nrows\<rparr>"

definition getId :: "Instance \<Rightarrow> string" where "getId i = instanceId i"
definition getLinkedAlgorithm :: "Instance \<Rightarrow> 8 word" where "getLinkedAlgorithm i = linkedAlgorithm i"
definition instance_getTotalColumns :: "Instance \<Rightarrow> 8 word" where "instance_getTotalColumns i = in_totalColumns i"
definition instance_getTotalRows :: "Instance \<Rightarrow> 64 word" where "instance_getTotalRows i = ucast (in_totalRows i)"

definition instances_add :: "Instance \<Rightarrow> Instance list \<Rightarrow> Instance list" where
  "instances_add inst l = l @ [inst]"

fun getInstanceFromId :: "string \<Rightarrow> Instance list \<Rightarrow> Instance" where
  "getInstanceFromId iid [] = blank_Instance"
| "getInstanceFromId iid (i # is) = (if iid = getId i then i else getInstanceFromId iid is)"

lemma instance_rows_truncated: "unat (instance_getTotalRows (new_Instance iid a c n)) = unat n mod 256"
  by (simp add: instance_getTotalRows_def new_Instance_def unsigned_ucast_eq take_bit_eq_mod unat_mod_distrib)

lemma getInstanceFromId_add:
  "iid \<notin> getId ` set l \<Longrightarrow> getId inst = iid \<Longrightarrow> getInstanceFromId iid (instances_add inst l) = inst"
  by (induction l) (auto simp: instances_add_def)

subsection \<open>Versions\<close>

record InstanceModel =
  aliasName :: string
  actualName :: string
  scheduledToDelete :: Flag
  referenceCount :: "64 word"

definition new_InstanceModel :: "string \<Rightarrow> string \<Rightarrow> InstanceModel" where
  "new_InstanceModel actual al =
     \<lparr>aliasName = al, actualName = actual, scheduledToDelete = initFlag False, referenceCount = 0\<rparr>"

text \<open>
  \<open>alphabetPool[rand() % 27]\<close>: the pool has 26 letters, index 26 is the terminating null
  character. \<open>rnd k\<close> is what the \<open>k\<close>-th call of \<open>rand\<close> returns.
\<close>

definition alphabetPool :: string where "alphabetPool = ''abcdefghijklmnopqrstuvwxyz''"

definition getPrefixString :: "(nat \<Rightarrow> nat) \<Rightarrow> string" where
  "getPrefixString rnd =
     map (\<lambda>i. let k = rnd i mod 27 in if k < length alphabetPool then alphabetPool ! k else CHR 0x00) [0..<5]"

text \<open>The database is third-party code: \<open>exec\<close> runs a statement.\<close>

definition deleteInstanceModel :: "(string \<Rightarrow> 'db \<Rightarrow> int \<times> 'db) \<Rightarrow> InstanceModel \<Rightarrow> 'db \<Rightarrow> 'db" where
  "deleteInstanceModel exec model db = snd (exec (c_str (''DROP TABLE '' @ aliasName model @ '';'')) db)"

text \<open>
  The loop of \<open>addInstance\<close>. \<open>erase(i--)\<close> on the first element moves the iterator before the
  beginning; in the circular lists of libstdc++ the following \<open>i++\<close> then leads to the new
  first element, so the loop goes on with the next version in every case.
\<close>

fun versions_loop ::
  "(string \<Rightarrow> 'db \<Rightarrow> int \<times> 'db) \<Rightarrow> string \<Rightarrow> InstanceModel list \<Rightarrow> 'db \<Rightarrow> InstanceModel list \<times> 'db"
where
  "versions_loop exec name [] db = ([], db)"
| "versions_loop exec name (m # ms) db =
     (if actualName m = name
      then if isFlagSet (scheduledToDelete m)
           then (case versions_loop exec name ms db of (ms', db') \<Rightarrow> (m # ms', db'))
           else if referenceCount m = 0
           then versions_loop exec name ms (deleteInstanceModel exec m db)
           else (case versions_loop exec name ms db of (ms', db') \<Rightarrow>
                  (m\<lparr>scheduledToDelete := setFlag (scheduledToDelete m)\<rparr> # ms', db'))
      else (case versions_loop exec name ms db of (ms', db') \<Rightarrow> (m # ms', db')))"

definition addInstance ::
  "(string \<Rightarrow> 'db \<Rightarrow> int \<times> 'db) \<Rightarrow> (nat \<Rightarrow> nat) \<Rightarrow> string \<Rightarrow> InstanceModel list \<Rightarrow> 'db \<Rightarrow>
   string \<times> InstanceModel list \<times> 'db"
where
  "addInstance exec rnd name l db =
     (let al = name @ ''_'' @ getPrefixString rnd in
      case versions_loop exec name l db of (l', db') \<Rightarrow> (al, l' @ [new_InstanceModel name al], db'))"

fun incrimentRefrence :: "string \<Rightarrow> InstanceModel list \<Rightarrow> InstanceModel list" where
  "incrimentRefrence name [] = []"
| "incrimentRefrence name (m # ms) =
     (if actualName m = name \<and> \<not> isFlagSet (scheduledToDelete m)
      then m\<lparr>referenceCount := referenceCount m + 1\<rparr> # ms
      else m # incrimentRefrence name ms)"

fun dereferenceInstance :: "string \<Rightarrow> InstanceModel list \<Rightarrow> InstanceModel list" where
  "dereferenceInstance al [] = []"
| "dereferenceInstance al (m # ms) =
     (if aliasName m = al \<and> \<not> isFlagSet (scheduledToDelete m)
      then m\<lparr>referenceCount := referenceCount m - 1\<rparr> # ms
      else m # dereferenceInstance al ms)"

fun getInstanceActualName :: "string \<Rightarrow> InstanceModel list \<Rightarrow> string" where
  "getInstanceActualName al [] = []"
| "getInstanceActualName al (m # ms) = (if aliasName m = al then actualName m else getInstanceActualName al ms)"

fun getInstanceAliasName :: "string \<Rightarrow> InstanceModel list \<Rightarrow> string" where
  "getInstanceAliasName name [] = []"
| "getInstanceAliasName name (m # ms) = (if actualName m = name then aliasName m else getInstanceAliasName name ms)"

subsection \<open>At most one current version\<close>

text \<open>The versions of an instance that are not scheduled for deletion.\<close>

definition current :: "string \<Rightarrow> InstanceModel list \<Rightarrow> InstanceModel list" where
  "current name l = filter (\<lambda>m. actualName m = name \<and> \<not> scheduledToDelete m) l"

definition versions_ok :: "InstanceModel list \<Rightarrow> bool" where
  "versions_ok l \<longleftrightarrow> (\<forall>name. length (current name l) \<le> 1)"

inductive registry_run :: "(string \<Rightarrow> 'db \<Rightarrow> int \<times> 'db) \<Rightarrow> InstanceModel list \<Rightarrow> bool"
  for exec :: "string \<Rightarrow> 'db \<Rightarrow> int \<times> 'db"
where
  start: "registry_run exec []"
| added: "registry_run exec l \<Longrightarrow> addInstance exec rnd name l db = (al, l', db') \<Longrightarrow> registry_run exec l'"
| counted: "registry_run exec l \<Longrightarrow> registry_run exec (incrimentRefrence name l)"
| uncounted: "registry_run exec l \<Longrightarrow> registry_run exec (dereferenceInstance al l)"

lemma current_loop:
  "current name (fst (versions_loop exec n l db)) = (if name = n then [] else current name l)"
proof (induction l arbitrary: db)
  case (Cons m ms)
  show ?case
    using Cons [of db] Cons [of "deleteInstanceModel exec m db"]
    by (auto simp: current_def split: prod.splits)
qed (simp add: current_def)

lemma current_add:
  assumes "addInstance exec rnd n l db = (al, l', db')"
  shows "current name l' = (if name = n then [new_InstanceModel n al] else current name l)"
proof -
  obtain ms d where v: "versions_loop exec n l db = (ms, d)" by fastforce
  then have "current name ms = (if name = n then [] else current name l)"
    using current_loop [of name exec n l db] by simp
  moreover have "l' = ms @ [new_InstanceModel n al]" using assms v by (auto simp: addInstance_def Let_def)
  moreover have "current name (ms @ [x]) = current name ms @ current name [x]" for x by (simp add: current_def)
  ultimately show ?thesis by (simp add: current_def new_InstanceModel_def)
qed

lemma length_current_count:
  "length (current name (incrimentRefrence n l)) = length (current name l)"
  "length (current name (dereferenceInstance a l)) = length (current name l)"
  by (induction l) (auto simp: current_def)

text \<open>C31: Whatever versions are added, counted and uncounted, every instance has at most one
  version that is not scheduled for deletion, and right after \<open>addInstance\<close> it is the new one,
  with no references.\<close>

theorem one_current_version:
  assumes "registry_run exec l"
  shows "length (current name l) \<le> 1 \<and>
     current n (fst (snd (addInstance exec rnd n l db))) = [new_InstanceModel n (fst (addInstance exec rnd n l db))]"
proof -
  have "length (current name l) \<le> 1" for name
    using assms
  proof (induction arbitrary: name)
    case (added l rnd n db al l' db' name)
    then show ?case by (simp add: current_add [OF added.hyps(2)])
  qed (simp_all add: current_def [of _ "[]"] length_current_count)
  moreover obtain al l' db' where "addInstance exec rnd n l db = (al, l', db')" by (metis prod_cases3)
  ultimately show ?thesis by (simp add: current_add)
qed

text \<open>\<open>getInstanceAliasName\<close> answers the oldest version, also when it is scheduled for
  deletion: while a version is in use, adding the instance again does not change the answer,
  although the references that are counted from then on go to the new version.\<close>

theorem alias_lookup_is_stale:
  assumes "m \<in> set l" and "actualName m = n" and "scheduledToDelete m \<or> referenceCount m \<noteq> 0"
    and "\<forall>m' \<in> set l. actualName m' = n \<longrightarrow> scheduledToDelete m' \<or> referenceCount m' \<noteq> 0"
  shows "getInstanceAliasName n (fst (snd (addInstance exec rnd n l db))) = getInstanceAliasName n l \<and>
     current n (incrimentRefrence n (fst (snd (addInstance exec rnd n l db)))) =
       [(new_InstanceModel n (fst (addInstance exec rnd n l db)))\<lparr>referenceCount := 1\<rparr>]"
proof -
  let ?new = "new_InstanceModel n (fst (addInstance exec rnd n l db))"
  obtain ms d where v: "versions_loop exec n l db = (ms, d)" by fastforce
  have l': "fst (snd (addInstance exec rnd n l db)) = ms @ [?new]"
    using v by (simp add: addInstance_def Let_def)
  have "getInstanceAliasName n (ms @ [x]) = getInstanceAliasName n l" for x
    using assms v
  proof (induction l arbitrary: ms d db)
    case (Cons a l)
    obtain ms' d' where v': "versions_loop exec n l db = (ms', d')" by fastforce
    show ?case
    proof (cases "actualName a = n")
      case True
      then show ?thesis using Cons.prems v' by (auto split: if_splits)
    next
      case False
      then show ?thesis using Cons.prems Cons.IH [OF _ _ _ _ v'] v' by auto
    qed
  qed simp
  moreover have "current n ms = []" using current_loop [of n exec n l db] v by simp
  then have "current n (incrimentRefrence n (ms @ [?new])) = [?new\<lparr>referenceCount := 1\<rparr>]"
  proof (induction ms)
    case Nil
    then show ?case by (simp add: current_def new_InstanceModel_def)
  next
    case (Cons a ms)
    then show ?case by (auto simp: current_def split: if_splits)
  qed
  ultimately show ?thesis by (simp add: l')
qed

subsection \<open>A concrete registry\<close>

definition no_db :: "string \<Rightarrow> unit \<Rightarrow> int \<times> unit" where
  "no_db cmd db = (0, db)"

definition weather_v1 :: InstanceModel where
  "weather_v1 = (new_InstanceModel ''Weather'' ''Weather_aaaaa'')\<lparr>referenceCount := 1\<rparr>"

theorem one_current_version_witness:
  "length (current ''Weather'' (incrimentRefrence ''Weather'' (fst (snd (addInstance no_db (\<lambda>_. 0) ''Weather'' [] ()))))) \<le> 1"
proof -
  let ?l = "incrimentRefrence ''Weather'' (fst (snd (addInstance no_db (\<lambda>_. 0) ''Weather'' [] ())))"
  obtain al l' where add: "addInstance no_db (\<lambda>_. 0) ''Weather'' [] () = (al, l', ())" by (metis prod_cases3 unit.exhaust)
  then have "registry_run no_db ?l"
    using registry_run.counted [OF registry_run.added [OF registry_run.start add], of "''Weather''"] by simp
  from one_current_version [OF this] show ?thesis by blast
qed

theorem alias_lookup_is_stale_witness:
  "getInstanceAliasName ''Weather'' (fst (snd (addInstance no_db (\<lambda>_. 1) ''Weather'' [weather_v1] ()))) = ''Weather_aaaaa''"
proof -
  have "weather_v1 \<in> set [weather_v1]" "actualName weather_v1 = ''Weather''" "referenceCount weather_v1 \<noteq> 0"
    by (simp_all add: weather_v1_def new_InstanceModel_def)
  then show ?thesis
    using alias_lookup_is_stale [of weather_v1 "[weather_v1]" "''Weather''" no_db "\<lambda>_. 1" "()"]
    by (simp add: weather_v1_def new_InstanceModel_def)
qed

end
