(* ===== verification/Sqlite_Access.thy ===== *)
theory Sqlite_Access
  imports Process_Types
begin

section \<open>Access to the database: services/sqlite\_database\_access.hpp and .cpp\<close>

text \<open>
  \<open>sqlite3_exec\<close> is third-party code: a parameter that takes a statement and the database and
  gives the return code, the rows it hands to the callback one after the other (every row its
  values, null pointers included, and the column names) and the database afterwards. The
  callbacks write into arrays of the caller: writing past their end and reading a null value
  are faults.
\<close>

type_synonym sql_row = "string option list \<times> string list"
type_synonym 'db sql_exec = "string \<Rightarrow> 'db \<Rightarrow> int \<times> sql_row list \<times> 'db"

definition SQLITE_OK :: int where "SQLITE_OK = 0"

definition initDatabase :: "int \<Rightarrow> int" where
  "initDatabase open_rc = (if open_rc \<noteq> SQLITE_OK then 1 else 0)"

text \<open>\<open>std::string s = p;\<close> for a \<open>char*\<close>.\<close>

definition from_c :: "string option \<Rightarrow> string result" where
  "from_c p = (case p of None \<Rightarrow> Inl NullPointer | Some s \<Rightarrow> Inr s)"

definition write_array :: "nat \<Rightarrow> string \<Rightarrow> string list \<Rightarrow> string list result" where
  "write_array i v xs = (if i < length xs then Inr (xs[i := v]) else Inl OutOfRange)"

text \<open>The loop \<open>for(i = 0; i < argc - 1; i++) mdata[i] = argv[i];\<close>\<close>

fun copy_values :: "nat \<Rightarrow> string option list \<Rightarrow> string list \<Rightarrow> string list result" where
  "copy_values i [] mdata = Inr mdata"
| "copy_values i (v # vs) mdata =
     bindR (from_c v) (\<lambda>s. bindR (write_array i s mdata) (\<lambda>mdata'. copy_values (Suc i) vs mdata'))"

definition rowCallback :: "sql_row \<Rightarrow> string list \<Rightarrow> string list result" where
  "rowCallback row mdata = copy_values 0 (take (length (fst row) - 1) (fst row)) mdata"

definition colCallback :: "sql_row \<Rightarrow> string list \<Rightarrow> string list result" where
  "colCallback row mdata = Inr (mdata @ map the (filter (\<lambda>v. v \<noteq> None) (fst row)))"

definition column_head_callback :: "sql_row \<Rightarrow> string list \<Rightarrow> string list result" where
  "column_head_callback row mdata =
     copy_values 0 (map Some (take (length (fst row) - 1) (snd row))) mdata"

fun append_values :: "string option list \<Rightarrow> string \<Rightarrow> string result" where
  "append_values [] acc = Inr acc"
| "append_values [v] acc = bindR (from_c v) (\<lambda>s. Inr (acc @ s))"
| "append_values (v # vs) acc = bindR (from_c v) (\<lambda>s. append_values vs (acc @ s @ '',''))"

definition read_callback :: "int \<Rightarrow> sql_row \<Rightarrow> string \<Rightarrow> string result" where
  "read_callback colNum row acc =
     (if colNum < 0 then bindR (append_values (fst row) acc) (\<lambda>acc'. Inr (acc' @ '';''))
      else if colNum \<ge> int (length (fst row)) then Inr acc
      else from_c (fst row ! nat colNum))"

text \<open>The rows in order, each through the callback.\<close>

fun run_callback :: "(sql_row \<Rightarrow> 'd \<Rightarrow> 'd result) \<Rightarrow> sql_row list \<Rightarrow> 'd \<Rightarrow> 'd result" where
  "run_callback cb [] d = Inr d"
| "run_callback cb (r # rs) d = bindR (cb r d) (run_callback cb rs)"

definition query ::
  "'db sql_exec \<Rightarrow> string \<Rightarrow> (sql_row \<Rightarrow> 'd \<Rightarrow> 'd result) \<Rightarrow> 'd \<Rightarrow> 'db \<Rightarrow> ('d option \<times> 'db) result"
where
  "query exec cmd cb d db =
     (case exec (c_str cmd) db of (rc, rows, db') \<Rightarrow>
        bindR (run_callback cb rows d) (\<lambda>d'. Inr (if rc \<noteq> SQLITE_OK then None else Some d', db')))"

definition getRowValues ::
  "'db sql_exec \<Rightarrow> string \<Rightarrow> nat \<Rightarrow> int \<Rightarrow> 'db \<Rightarrow> (string list option \<times> 'db) result"
where
  "getRowValues exec tid columns rowNum db =
     query exec (''SELECT * FROM '' @ tid @ '' where id='' @ int_string rowNum @ '';'')
       rowCallback (replicate columns []) db"

definition getColumnValues ::
  "'db sql_exec \<Rightarrow> string \<Rightarrow> string \<Rightarrow> nat \<Rightarrow> 'db \<Rightarrow> (string list option \<times> 'db) result"
where
  "getColumnValues exec tableName columnName nrows db =
     bindR (query exec (''SELECT '' @ columnName @ '' FROM '' @ tableName @ '';'') colCallback [] db) (\<lambda>(r, db').
       Inr (map_option (\<lambda>data. take nrows data @ replicate (nrows - length data) []) r, db'))"

definition writeValue :: "'db sql_exec \<Rightarrow> string \<Rightarrow> 'db \<Rightarrow> int \<times> 'db" where
  "writeValue exec cmd db = (case exec (c_str cmd) db of (rc, _, db') \<Rightarrow> (rc, db'))"

definition readValue :: "'db sql_exec \<Rightarrow> string \<Rightarrow> int \<Rightarrow> 'db \<Rightarrow> (string option \<times> 'db) result" where
  "readValue exec cmd column db = query exec cmd (read_callback column) [] db"

definition getColumnNames ::
  "'db sql_exec \<Rightarrow> string \<Rightarrow> nat \<Rightarrow> 'db \<Rightarrow> (string list option \<times> 'db) result"
where
  "getColumnNames exec tid cols db =
     query exec (''SELECT * FROM '' @ tid @ '' WHERE ID=1;'') column_head_callback (replicate cols []) db"

subsection \<open>What the queries give\<close>

lemma copy_values_eq:
  "i + length vs \<le> length mdata \<Longrightarrow>
   copy_values i (map Some vs) mdata = Inr (take i mdata @ vs @ drop (i + length vs) mdata)"
proof (induction vs arbitrary: i mdata)
  case (Cons v vs)
  have "copy_values (Suc i) (map Some vs) (mdata[i := v]) =
      Inr (take (Suc i) (mdata[i := v]) @ vs @ drop (Suc i + length vs) (mdata[i := v]))"
    using Cons.prems by (intro Cons.IH) simp
  then show ?case
    using Cons.prems by (simp add: from_c_def write_array_def take_Suc_conv_app_nth)
qed simp

lemma run_colCallback:
  "run_callback colCallback rows d = Inr (d @ concat (map (\<lambda>r. map the (filter (\<lambda>v. v \<noteq> None) (fst r))) rows))"
  by (induction rows arbitrary: d) (simp_all add: colCallback_def)

text \<open>\<open>getColumnValues\<close> never faults: when the statement succeeds it gives an array of the
  size asked for that holds the first values of the column, nulls left out, and empty strings
  behind them; when it fails it gives the null pointer.\<close>

theorem getColumnValues_outcome:
  "getColumnValues exec t c n db =
     (case exec (c_str (''SELECT '' @ c @ '' FROM '' @ t @ '';'')) db of (rc, rows, db') \<Rightarrow>
        Inr (if rc \<noteq> SQLITE_OK then None
             else let data = concat (map (\<lambda>r. map the (filter (\<lambda>v. v \<noteq> None) (fst r))) rows) in
               Some (take n data @ replicate (n - length data) []), db'))"
  by (simp add: getColumnValues_def query_def run_colCallback Let_def split: prod.split)

text \<open>The names of all columns but the last, the automatic key, when the first row exists.\<close>

lemma getColumnNames_one_row:
  assumes "exec (c_str (''SELECT * FROM '' @ t @ '' WHERE ID=1;'')) db = (SQLITE_OK, [(vs, names @ [key])], db')"
    and "length vs = Suc (length names)" and "length names = cols"
  shows "getColumnNames exec t cols db = Inr (Some names, db')"
proof -
  have "copy_values 0 (map Some names) (replicate cols []) = Inr names"
    using assms(3) by (simp add: copy_values_eq)
  then show ?thesis
    using assms by (simp add: getColumnNames_def query_def column_head_callback_def)
qed

lemma getColumnNames_no_row:
  assumes "exec (c_str (''SELECT * FROM '' @ t @ '' WHERE ID=1;'')) db = (SQLITE_OK, [], db')"
  shows "getColumnNames exec t cols db = Inr (Some (replicate cols []), db')"
  using assms by (simp add: getColumnNames_def query_def)

end
