(* ===== verification/Row_Table.thy ===== *)
theory Row_Table
  imports Prelude
begin

section \<open>Interface: a table of rows\<close>

text \<open>
  What the stages of the data processor rely on when they work on a table: rows can be read,
  rewritten one at a time and cleared of later duplicates. \<open>ready\<close> is the state in which a
  table accepts these calls, \<open>finished\<close> the answer of \<open>dedup\<close> behind the last row.
\<close>

text \<open>Every row once, at its first place.\<close>

fun keep_first :: "'r list \<Rightarrow> 'r list" where
  "keep_first [] = []"
| "keep_first (x # xs) = x # filter (\<lambda>y. y \<noteq> x) (keep_first xs)"

lemma set_keep_first [simp]: "set (keep_first xs) = set xs"
  by (induction xs) auto

lemma distinct_keep_first [simp]: "distinct (keep_first xs)"
  by (induction xs) auto

lemma keep_first_filter: "keep_first (filter P xs) = filter P (keep_first xs)"
  by (induction xs) (auto intro!: filter_cong)

lemma length_keep_first: "length (keep_first xs) \<le> length xs"
  by (metis distinct_card distinct_keep_first card_length set_keep_first)

lemma keep_first_distinct: "distinct xs \<Longrightarrow> keep_first xs = xs"
proof (induction xs)
  case (Cons x xs)
  moreover from this have "filter (\<lambda>y. y \<noteq> x) xs = xs" by (auto simp: filter_id_conv)
  ultimately show ?case by simp
qed simp

text \<open>Calling \<open>dedup\<close> for the rows \<open>k\<close>, \<open>k + 1\<close>, ... until it answers \<open>finished\<close>, at most \<open>n\<close> times.\<close>

fun dedup_pass :: "int \<Rightarrow> (int \<Rightarrow> 's \<Rightarrow> int \<times> 's) \<Rightarrow> nat \<Rightarrow> nat \<Rightarrow> 's \<Rightarrow> 's option" where
  "dedup_pass fin dedup 0 k s = None"
| "dedup_pass fin dedup (Suc n) k s =
     (case dedup (int k) s of (rc, s') \<Rightarrow> if rc = fin then Some s' else dedup_pass fin dedup n (Suc k) s')"

locale row_table =
  fixes ready :: "'s \<Rightarrow> bool"
    and rows :: "'s \<Rightarrow> 'r list"
    and finished :: int
    and dedup :: "int \<Rightarrow> 's \<Rightarrow> int \<times> 's"
    and valid_row :: "'v \<Rightarrow> bool"
    and row_of :: "'v \<Rightarrow> 'r"
    and read_row :: "int \<Rightarrow> 's \<Rightarrow> 'v result"
    and write_row :: "'v \<Rightarrow> int \<Rightarrow> 's \<Rightarrow> (int \<times> 's) result"
  assumes finished_nz: "finished \<noteq> 0"
    and dedup_end: "ready s \<Longrightarrow> length (rows s) \<le> k \<Longrightarrow> k < 2 ^ 31 \<Longrightarrow> dedup (int k) s = (finished, s)"
    and dedup_row: "ready s \<Longrightarrow> k < length (rows s) \<Longrightarrow> \<exists>s'. dedup (int k) s = (0, s') \<and> ready s' \<and>
      rows s' = take (Suc k) (rows s) @ filter (\<lambda>r. r \<noteq> rows s ! k) (drop (Suc k) (rows s))"
    and ready_small: "ready s \<Longrightarrow> length (rows s) < 2 ^ 31"
    and read_valid: "ready s \<Longrightarrow> k < length (rows s) \<Longrightarrow> rows s ! k = row_of v \<Longrightarrow> valid_row v \<Longrightarrow> read_row (int k) s = Inr v"
    and write_ready: "ready s \<Longrightarrow> k < length (rows s) \<Longrightarrow> valid_row v \<Longrightarrow>
      \<exists>s'. write_row v (int k) s = Inr (0, s') \<and> ready s' \<and> rows s' = (rows s)[k := row_of v]"
begin

lemma dedup_pass_spec:
  assumes "ready s" and "rows s = pre @ rest" and "length rest < n"
  shows "\<exists>s'. dedup_pass finished dedup n (length pre) s = Some s' \<and> ready s' \<and> rows s' = pre @ keep_first rest"
  using assms
proof (induction n arbitrary: s pre rest)
  case (Suc n)
  show ?case
  proof (cases rest)
    case Nil
    then have "dedup (int (length pre)) s = (finished, s)"
      using Suc.prems ready_small [OF Suc.prems(1)] by (intro dedup_end) auto
    then show ?thesis using Suc.prems Nil by simp
  next
    case (Cons r rs)
    let ?rs = "filter (\<lambda>x. x \<noteq> r) rs"
    obtain s' where d: "dedup (int (length pre)) s = (0, s')" "ready s'" "rows s' = (pre @ [r]) @ ?rs"
      using dedup_row [OF Suc.prems(1), of "length pre"] Suc.prems(2) Cons by auto
    have "length ?rs < n" using Suc.prems(3) Cons by (simp add: le_less_trans [OF length_filter_le])
    from Suc.IH [OF d(2,3) this] show ?thesis
      using d(1) finished_nz Cons by (auto simp: keep_first_filter)
  qed
qed simp

text \<open>Clearing the rows one after the other leaves every row once, in the order of first
  occurrence, after one call more than there are rows at most.\<close>

lemma dedup_all:
  assumes "ready s"
  shows "\<exists>s'. dedup_pass finished dedup (Suc (length (rows s))) 0 s = Some s' \<and> ready s' \<and> rows s' = keep_first (rows s)"
  using dedup_pass_spec [OF assms, of "[]" "rows s" "Suc (length (rows s))"] by simp

lemma read_after_write:
  assumes "ready s" and "k < length (rows s)" and "valid_row v"
  shows "\<exists>s'. write_row v (int k) s = Inr (0, s') \<and> ready s' \<and> read_row (int k) s' = Inr v \<and>
     length (rows s') = length (rows s) \<and> (\<forall>i. i \<noteq> k \<longrightarrow> rows s' ! i = rows s ! i)"
proof -
  obtain s' where "write_row v (int k) s = Inr (0, s')" "ready s'" "rows s' = (rows s)[k := row_of v]"
    using write_ready [OF assms] by blast
  then show ?thesis using read_valid [of s' k v] assms by simp
qed

end

end
