(* ===== verification/File_Database.thy ===== *)
theory File_Database
  imports Process_Types Row_Table
begin

section \<open>Tables in flat files: services/file\_database\_access.hpp and .cpp\<close>

text \<open>
  A table is a file of lines whose values are separated by commas. An object of class
  \<open>FileDataBaseAccess\<close> holds the lines of one file in memory; \<open>commitChanges\<close>, which the
  destructor calls, writes them back. The file system is a map from names to contents;
  \<open>writable\<close> tells for which names the operating system lets the file be opened for writing.

  \<open>std::ifstream::open\<close> always adds \<open>std::ios::in\<close>, so none of the three calls of \<open>open\<close> in
  the constructor creates a missing file. Row indices are \<open>int\<close> and are compared with the
  unsigned size of the container: a negative index is a very large number there.
\<close>

datatype FileAccessType = READ_FILE | RW_FILE

definition ACCESS_DENIED :: int where "ACCESS_DENIED = - 1"
definition INVALID_ACCESS_MODE :: int where "INVALID_ACCESS_MODE = - 2"
definition DUPLICATE_CLEANUP_DONE :: int where "DUPLICATE_CLEANUP_DONE = - 3"
definition ROW_INDEX_OVERFLOW :: int where "ROW_INDEX_OVERFLOW = - 4"
definition COLUMN_INDEX_OVERFLOW :: int where "COLUMN_INDEX_OVERFLOW = - 5"
definition ROW_INDEX_UNDERFLOW :: int where "ROW_INDEX_UNDERFLOW = - 6"
definition COLUMN_INDEX_UNDERFLOW :: int where "COLUMN_INDEX_UNDERFLOW = - 7"

lemmas file_errors = ACCESS_DENIED_def INVALID_ACCESS_MODE_def DUPLICATE_CLEANUP_DONE_def
  ROW_INDEX_OVERFLOW_def COLUMN_INDEX_OVERFLOW_def ROW_INDEX_UNDERFLOW_def COLUMN_INDEX_UNDERFLOW_def

type_synonym files = "string \<rightharpoonup> string"

record FileDataBaseAccess =
  accessMode :: FileAccessType
  readWriteData :: "string list"
  readData :: "string list"
  fileName :: string
  dataModified :: Flag
  fileDeleted :: Flag

definition newline :: char where "newline = CHR 0x0A"

subsection \<open>Lines and values\<close>

lemma dropWhile_shorter: "dropWhile P s = c # rest \<Longrightarrow> length rest < length s"
  by (metis Suc_le_eq length_Cons length_dropWhile_le)

text \<open>\<open>while(getline(stream, line)) list.push_back(line);\<close>\<close>

function getlines :: "string \<Rightarrow> string list" where
  "getlines str =
     (if str = [] then []
      else takeWhile (\<lambda>c. c \<noteq> newline) str #
        (case dropWhile (\<lambda>c. c \<noteq> newline) str of [] \<Rightarrow> [] | _ # rest \<Rightarrow> getlines rest))"
  by pat_completeness auto
termination
  by (relation "measure length") (simp_all add: dropWhile_shorter)

definition split_string_by_newline :: "string \<Rightarrow> string list" where
  "split_string_by_newline str = getlines str"

text \<open>\<open>while(!ss.eof()) { getline(ss, word, del); result.push_back(word); }\<close>\<close>

function adv_tokenizer :: "string \<Rightarrow> char \<Rightarrow> string list" where
  "adv_tokenizer s del =
     takeWhile (\<lambda>c. c \<noteq> del) s #
       (case dropWhile (\<lambda>c. c \<noteq> del) s of [] \<Rightarrow> [] | _ # rest \<Rightarrow> adv_tokenizer rest del)"
  by pat_completeness auto
termination
  by (relation "measure (length \<circ> fst)") (simp_all add: dropWhile_shorter)

declare getlines.simps [simp del] adv_tokenizer.simps [simp del]

text \<open>\<open>rowString = v[0]; rowString += "," + v[i]\<close> for the others; \<open>v[0]\<close> of an empty vector is undefined.\<close>

definition comma :: char where "comma = CHR '',''"

definition join_row :: "string list \<Rightarrow> string result" where
  "join_row vs = (case vs of [] \<Rightarrow> Inl OutOfRange | v # ws \<Rightarrow> Inr (fold (\<lambda>w r. r @ comma # w) ws v))"

subsection \<open>Iterators of the row list\<close>

text \<open>Erasing at \<open>end()\<close> is undefined; positions are indices.\<close>

definition erase_at :: "nat \<Rightarrow> 'a list \<Rightarrow> 'a list result" where
  "erase_at i xs = (if i < length xs then Inr (take i xs @ drop (Suc i) xs) else Inl BadIterator)"

definition insert_at :: "nat \<Rightarrow> 'a \<Rightarrow> 'a list \<Rightarrow> 'a list" where
  "insert_at i x xs = take i xs @ x # drop i xs"

definition vec_at :: "'a list \<Rightarrow> int \<Rightarrow> 'a result" where
  "vec_at xs i = (if 0 \<le> i \<and> nat i < length xs then Inr (xs ! nat i) else Inl OutOfRange)"

text \<open>An \<open>int\<close> that is compared with a \<open>size_t\<close>.\<close>

definition as_size :: "int \<Rightarrow> nat" where
  "as_size i = unat (word_of_int i :: 64 word)"

subsection \<open>Opening\<close>

definition open_database :: "string \<Rightarrow> FileAccessType \<Rightarrow> (string \<Rightarrow> bool) \<Rightarrow> files \<Rightarrow> FileDataBaseAccess" where
  "open_database name accessMacro writable fs =
     (let file = name @ ''.csv''; blank = \<lparr>accessMode = accessMacro, readWriteData = [], readData = [],
            fileName = file, dataModified = initFlag False, fileDeleted = initFlag False\<rparr> in
      case fs file of
        None \<Rightarrow> blank
      | Some content \<Rightarrow>
          if accessMacro = READ_FILE then blank\<lparr>readData := getlines content\<rparr>
          else if writable file then blank\<lparr>readWriteData := getlines content\<rparr> else blank)"

subsection \<open>Reading\<close>

definition getBlob :: "FileDataBaseAccess \<Rightarrow> string" where
  "getBlob d =
     (if isFlagSet (fileDeleted d) then []
      else concat (map (\<lambda>row. row @ [newline]) (if accessMode d = READ_FILE then readData d else readWriteData d)))"

definition getTotalRows :: "FileDataBaseAccess \<Rightarrow> int" where
  "getTotalRows d =
     (if isFlagSet (fileDeleted d) then - 1
      else if accessMode d = READ_FILE then int (length (readData d)) else int (length (readWriteData d)))"

definition getTotalColumns :: "FileDataBaseAccess \<Rightarrow> int result" where
  "getTotalColumns d =
     (if isFlagSet (fileDeleted d) then Inr ACCESS_DENIED
      else (case (if accessMode d = READ_FILE then readData d else readWriteData d) of
          [] \<Rightarrow> Inl OutOfRange
        | front # _ \<Rightarrow> Inr (int (length (filter (\<lambda>c. c = comma) front)) + 1)))"

definition getRowValueList :: "int \<Rightarrow> FileDataBaseAccess \<Rightarrow> string list result" where
  "getRowValueList rowIndex d =
     (if isFlagSet (fileDeleted d) then Inr []
      else if rowIndex < 0 then Inr []
      else bindR (if accessMode d = READ_FILE then vec_at (readData d) rowIndex
                  else Inr (if nat rowIndex < length (readWriteData d) then readWriteData d ! nat rowIndex else []))
             (\<lambda>data. Inr (adv_tokenizer data comma)))"

definition getColumnNamesList :: "FileDataBaseAccess \<Rightarrow> string list result" where
  "getColumnNamesList d =
     (if isFlagSet (fileDeleted d) then Inr []
      else bindR (if accessMode d = READ_FILE then vec_at (readData d) 0 else vec_at (readWriteData d) 0)
             (\<lambda>data. Inr (adv_tokenizer data comma)))"

text \<open>The bounds check looks at \<open>readWriteData\<close> in both modes.\<close>

definition getRowValue :: "int \<Rightarrow> int \<Rightarrow> FileDataBaseAccess \<Rightarrow> string result" where
  "getRowValue rowIndex columnIndex d =
     (if isFlagSet (fileDeleted d) then Inr []
      else if as_size rowIndex > length (readWriteData d) then Inr []
      else bindR (getTotalColumns d) (\<lambda>total.
        if columnIndex > total then Inr []
        else if rowIndex < 0 then Inr []
        else if columnIndex < 0 then Inr []
        else bindR (if accessMode d = READ_FILE then vec_at (readData d) rowIndex
                    else Inr (if nat rowIndex < length (readWriteData d) then readWriteData d ! nat rowIndex else []))
               (\<lambda>data. vec_at (adv_tokenizer data comma) columnIndex)))"

subsection \<open>Writing\<close>

definition writeBlob :: "string \<Rightarrow> FileDataBaseAccess \<Rightarrow> int \<times> FileDataBaseAccess" where
  "writeBlob data d =
     (if isFlagSet (fileDeleted d) then (ACCESS_DENIED, d)
      else if accessMode d = READ_FILE then (INVALID_ACCESS_MODE, d)
      else (0, d\<lparr>readWriteData := split_string_by_newline data, dataModified := setFlag (dataModified d)\<rparr>))"

text \<open>
  \<open>regex_replace\<close> is a parameter. The iterator used by \<open>insert\<close> was invalidated by \<open>erase\<close>
  just before: no call gets past that point.
\<close>

definition writeRowValue ::
  "(string \<Rightarrow> string \<Rightarrow> string \<Rightarrow> string result) \<Rightarrow> string \<Rightarrow> int \<Rightarrow> int \<Rightarrow> FileDataBaseAccess \<Rightarrow>
   (int \<times> FileDataBaseAccess) result"
where
  "writeRowValue regex_replace v rowIndex columnIndex d =
     (if isFlagSet (fileDeleted d) then Inr (ACCESS_DENIED, d)
      else if accessMode d = READ_FILE then Inr (INVALID_ACCESS_MODE, d)
      else if as_size rowIndex > length (readWriteData d) then Inr (ROW_INDEX_OVERFLOW, d)
      else bindR (getTotalColumns d) (\<lambda>total.
        if columnIndex > total then Inr (COLUMN_INDEX_OVERFLOW, d)
        else if rowIndex < 0 then Inr (ROW_INDEX_UNDERFLOW, d)
        else if columnIndex < 0 then Inr (COLUMN_INDEX_UNDERFLOW, d)
        else
          let data = (if nat rowIndex < length (readWriteData d) then readWriteData d ! nat rowIndex else []) in
          bindR (vec_at (adv_tokenizer data comma) columnIndex) (\<lambda>old.
          bindR (regex_replace data old v) (\<lambda>data'.
          bindR (erase_at (nat rowIndex) (readWriteData d)) (\<lambda>_. Inl BadIterator)))))"

definition writeRowValueList :: "string list \<Rightarrow> int \<Rightarrow> FileDataBaseAccess \<Rightarrow> (int \<times> FileDataBaseAccess) result" where
  "writeRowValueList valueList rowIndex d =
     (if isFlagSet (fileDeleted d) then Inr (ACCESS_DENIED, d)
      else if accessMode d = READ_FILE then Inr (INVALID_ACCESS_MODE, d)
      else if as_size rowIndex > length (readWriteData d) then Inr (ROW_INDEX_OVERFLOW, d)
      else if rowIndex < 0 then Inr (ROW_INDEX_UNDERFLOW, d)
      else bindR (join_row valueList) (\<lambda>rowString.
           bindR (erase_at (nat rowIndex) (readWriteData d)) (\<lambda>rows.
             Inr (0, d\<lparr>readWriteData := insert_at (nat rowIndex) rowString rows\<rparr>))))"

text \<open>The loop of \<open>deleteDuplicateRecords\<close> over the rows behind the compared one.\<close>

fun duplicate_loop :: "string \<Rightarrow> string list \<Rightarrow> Flag \<Rightarrow> string list \<times> Flag" where
  "duplicate_loop compareString [] modified = ([], modified)"
| "duplicate_loop compareString (row # rows) modified =
     (if row = compareString then duplicate_loop compareString rows (setFlag modified)
      else (case duplicate_loop compareString rows modified of (rows', m) \<Rightarrow> (row # rows', m)))"

definition deleteDuplicateRecords :: "int \<Rightarrow> FileDataBaseAccess \<Rightarrow> int \<times> FileDataBaseAccess" where
  "deleteDuplicateRecords rowIndex d =
     (if isFlagSet (fileDeleted d) then (ACCESS_DENIED, d)
      else if accessMode d = READ_FILE then (INVALID_ACCESS_MODE, d)
      else if length (readWriteData d) \<le> as_size rowIndex then (DUPLICATE_CLEANUP_DONE, d)
      else if rowIndex < 0 then (ROW_INDEX_UNDERFLOW, d)
      else
        let k = nat rowIndex; compareString = readWriteData d ! k in
        (case duplicate_loop compareString (drop (Suc k) (readWriteData d)) (dataModified d) of
           (rows, m) \<Rightarrow> (0, d\<lparr>readWriteData := take (Suc k) (readWriteData d) @ rows, dataModified := m\<rparr>)))"

subsection \<open>Committing, dropping, closing\<close>

definition commitChanges :: "(string \<Rightarrow> bool) \<Rightarrow> FileDataBaseAccess \<Rightarrow> files \<Rightarrow> files" where
  "commitChanges writable d fs =
     (if accessMode d = RW_FILE \<and> isFlagSet (dataModified d) \<and> writable (fileName d)
      then fs(fileName d \<mapsto> concat (map (\<lambda>row. row @ [newline]) (readWriteData d))) else fs)"

definition dropFile :: "FileDataBaseAccess \<Rightarrow> files \<Rightarrow> FileDataBaseAccess \<times> files" where
  "dropFile d fs =
     (if isFlagSet (fileDeleted d) then (d, fs)
      else if accessMode d = READ_FILE then (d, fs)
      else (d\<lparr>fileDeleted := setFlag (fileDeleted d)\<rparr>, fs(fileName d := None)))"

definition close_database :: "(string \<Rightarrow> bool) \<Rightarrow> FileDataBaseAccess \<Rightarrow> files \<Rightarrow> files" where
  "close_database writable d fs = (if isFlagSet (fileDeleted d) then fs else commitChanges writable d fs)"

subsection \<open>Lines and values: round trips\<close>

lemma fold_join: "fold (\<lambda>w r. r @ c # w) ws v = v @ concat (map (\<lambda>w. c # w) ws)"
  by (induction ws arbitrary: v) simp_all

lemma join_row_Cons: "join_row (v # ws) = Inr (v @ concat (map (\<lambda>w. comma # w) ws))"
  by (simp add: join_row_def fold_join)

lemma scan_word:
  "d \<notin> set v \<Longrightarrow> takeWhile (\<lambda>c. c \<noteq> d) v = v" "d \<notin> set v \<Longrightarrow> dropWhile (\<lambda>c. c \<noteq> d) v = []"
  by (induction v) auto

lemma scan_step:
  "d \<notin> set v \<Longrightarrow> takeWhile (\<lambda>c. c \<noteq> d) (v @ d # rest) = v"
  "d \<notin> set v \<Longrightarrow> dropWhile (\<lambda>c. c \<noteq> d) (v @ d # rest) = d # rest"
  by (induction v) auto

lemma adv_tokenizer_word: "d \<notin> set v \<Longrightarrow> adv_tokenizer v d = [v]"
  by (subst adv_tokenizer.simps) (simp add: scan_word)

lemma adv_tokenizer_step: "d \<notin> set v \<Longrightarrow> adv_tokenizer (v @ d # rest) d = v # adv_tokenizer rest d"
  by (subst adv_tokenizer.simps) (simp add: scan_step)

lemma adv_tokenizer_ne [simp]: "adv_tokenizer s d \<noteq> []"
  by (subst adv_tokenizer.simps) simp

lemma adv_tokenizer_concat:
  "\<forall>w \<in> set (v # ws). d \<notin> set w \<Longrightarrow> adv_tokenizer (v @ concat (map (\<lambda>w. d # w) ws)) d = v # ws"
proof (induction ws arbitrary: v)
  case Nil
  then show ?case by (simp add: adv_tokenizer_word)
next
  case (Cons w ws)
  then show ?case using adv_tokenizer_step [of d v "w @ concat (map (\<lambda>w. d # w) ws)"] by simp
qed

lemma concat_tokens: "hd (adv_tokenizer s d) @ concat (map (\<lambda>w. d # w) (tl (adv_tokenizer s d))) = s"
proof (induction s d rule: adv_tokenizer.induct)
  case (1 s d)
  show ?case
  proof (cases "dropWhile (\<lambda>c. c \<noteq> d) s")
    case Nil
    then show ?thesis
      by (subst (1 2) adv_tokenizer.simps) (metis append_Nil2 concat.simps(1) list.sel(1,3) list.simps(4,8) takeWhile_dropWhile_id)
  next
    case (Cons c rest)
    then have "c = d" by (metis (mono_tags, lifting) dropWhile_eq_Cons_conv)
    have tok: "adv_tokenizer s d = takeWhile (\<lambda>c. c \<noteq> d) s # adv_tokenizer rest d"
      by (subst adv_tokenizer.simps) (simp add: Cons)
    have "concat (map (\<lambda>w. d # w) (adv_tokenizer rest d)) = d # rest"
      using 1 [OF Cons] by (cases "adv_tokenizer rest d") auto
    then show ?thesis
      using takeWhile_dropWhile_id [of "\<lambda>c. c \<noteq> d" s] Cons \<open>c = d\<close> by (simp add: tok)
  qed
qed

lemma join_tokens: "join_row (adv_tokenizer s comma) = Inr s"
  using concat_tokens [of s comma] by (cases "adv_tokenizer s comma") (simp_all add: join_row_Cons)

lemma getlines_Nil [simp]: "getlines [] = []"
  by (subst getlines.simps) simp

lemma getlines_step: "newline \<notin> set row \<Longrightarrow> getlines (row @ newline # rest) = row # getlines rest"
  by (subst getlines.simps) (simp add: scan_step)

lemma getlines_rows: "\<forall>row \<in> set rows. newline \<notin> set row \<Longrightarrow> getlines (concat (map (\<lambda>r. r @ [newline]) rows)) = rows"
  by (induction rows) (simp_all add: getlines_step)

lemma getlines_clean: "row \<in> set (getlines s) \<Longrightarrow> newline \<notin> set row"
proof (induction s rule: getlines.induct)
  case (1 s)
  have "s \<noteq> []" using "1.prems" by auto
  then have eq: "getlines s = takeWhile (\<lambda>c. c \<noteq> newline) s #
      (case dropWhile (\<lambda>c. c \<noteq> newline) s of [] \<Rightarrow> [] | _ # rest \<Rightarrow> getlines rest)"
    by (subst getlines.simps) simp
  have "row = takeWhile (\<lambda>c. c \<noteq> newline) s \<or>
      (\<exists>c rest. dropWhile (\<lambda>c. c \<noteq> newline) s = c # rest \<and> row \<in> set (getlines rest))"
    using "1.prems" unfolding eq by (cases "dropWhile (\<lambda>c. c \<noteq> newline) s") auto
  then show ?case
  proof
    assume "row = takeWhile (\<lambda>c. c \<noteq> newline) s"
    then show ?thesis by (auto dest: set_takeWhileD)
  next
    assume "\<exists>c rest. dropWhile (\<lambda>c. c \<noteq> newline) s = c # rest \<and> row \<in> set (getlines rest)"
    then show ?thesis using 1 by (metis dropWhile.simps(1) list.distinct(1))
  qed
qed

subsection \<open>A table opened for writing\<close>

definition db_ready :: "FileDataBaseAccess \<Rightarrow> bool" where
  "db_ready d \<longleftrightarrow> accessMode d = RW_FILE \<and> \<not> fileDeleted d \<and> length (readWriteData d) < 2 ^ 31"

text \<open>Values that survive being joined by commas.\<close>

definition plain_values :: "string list \<Rightarrow> bool" where
  "plain_values vs \<longleftrightarrow> vs \<noteq> [] \<and> (\<forall>v \<in> set vs. comma \<notin> set v)"

definition row_string :: "string list \<Rightarrow> string" where
  "row_string vs = hd vs @ concat (map (\<lambda>w. comma # w) (tl vs))"

lemma join_row_string: "vs \<noteq> [] \<Longrightarrow> join_row vs = Inr (row_string vs)"
  by (cases vs) (simp_all add: join_row_Cons row_string_def)

lemma tokens_row_string: "plain_values vs \<Longrightarrow> adv_tokenizer (row_string vs) comma = vs"
  by (cases vs) (simp_all add: plain_values_def row_string_def adv_tokenizer_concat)

lemma as_size_id: "0 \<le> i \<Longrightarrow> i < 2 ^ 31 \<Longrightarrow> as_size i = nat i"
  by (simp add: as_size_def unat_eq_nat_uint uint_word_of_int)

lemma as_size_negative: "- (2 ^ 31) \<le> i \<Longrightarrow> i < 0 \<Longrightarrow> 2 ^ 31 \<le> as_size i"
proof -
  assume i: "- (2 ^ 31) \<le> i" "i < 0"
  then have "(i + 2 ^ 64) mod 2 ^ 64 = i + 2 ^ 64" by (intro mod_pos_pos_trivial) auto
  then have "i mod 2 ^ 64 = i + 2 ^ 64" by simp
  then have "as_size i = nat (i + 2 ^ 64)" by (simp add: as_size_def unat_eq_nat_uint uint_word_of_int)
  then show ?thesis using i by (simp add: le_nat_iff)
qed

lemma duplicate_loop_eq:
  "duplicate_loop c rows m = (filter (\<lambda>r. r \<noteq> c) rows, m \<or> c \<in> set rows)"
  by (induction rows arbitrary: m) auto

lemma insert_erase: "i < length xs \<Longrightarrow> insert_at i x (take i xs @ drop (Suc i) xs) = xs[i := x]"
  by (simp add: insert_at_def upd_conv_take_nth_drop)

lemma writeRowValueList_eq:
  assumes "db_ready d" and "k < length (readWriteData d)" and "vs \<noteq> []"
  shows "writeRowValueList vs (int k) d = Inr (0, d\<lparr>readWriteData := (readWriteData d)[k := row_string vs]\<rparr>)"
  using assms
  by (simp add: writeRowValueList_def db_ready_def as_size_id join_row_string erase_at_def insert_erase)

interpretation file_table: row_table db_ready readWriteData DUPLICATE_CLEANUP_DONE deleteDuplicateRecords
  plain_values row_string getRowValueList writeRowValueList
proof unfold_locales
  show "DUPLICATE_CLEANUP_DONE \<noteq> 0" by (simp add: file_errors)
  show "deleteDuplicateRecords (int k) s = (DUPLICATE_CLEANUP_DONE, s)"
    if "db_ready s" "length (readWriteData s) \<le> k" "k < 2 ^ 31" for s k
    using that by (simp add: deleteDuplicateRecords_def db_ready_def as_size_id)
  show "\<exists>s'. deleteDuplicateRecords (int k) s = (0, s') \<and> db_ready s' \<and>
      readWriteData s' = take (Suc k) (readWriteData s) @
        filter (\<lambda>r. r \<noteq> readWriteData s ! k) (drop (Suc k) (readWriteData s))"
    if "db_ready s" "k < length (readWriteData s)" for s k
  proof -
    let ?rs = "take (Suc k) (readWriteData s) @ filter (\<lambda>r. r \<noteq> readWriteData s ! k) (drop (Suc k) (readWriteData s))"
    have "length ?rs \<le> length (take (Suc k) (readWriteData s)) + length (drop (Suc k) (readWriteData s))"
      by (simp only: length_append) (intro add_mono length_filter_le order_refl)
    also have "\<dots> = length (readWriteData s)" by (simp flip: length_append)
    finally show ?thesis
      using that by (simp add: deleteDuplicateRecords_def db_ready_def as_size_id duplicate_loop_eq Let_def)
  qed
  show "length (readWriteData s) < 2 ^ 31" if "db_ready s" for s
    using that by (simp add: db_ready_def)
  show "getRowValueList (int k) s = Inr v"
    if "db_ready s" "k < length (readWriteData s)" "readWriteData s ! k = row_string v" "plain_values v" for s k v
    using that by (simp add: getRowValueList_def db_ready_def tokens_row_string)
  show "\<exists>s'. writeRowValueList v (int k) s = Inr (0, s') \<and> db_ready s' \<and>
      readWriteData s' = (readWriteData s)[k := row_string v]"
    if "db_ready s" "k < length (readWriteData s)" "plain_values v" for s k v
    using that writeRowValueList_eq [OF that(1,2)] by (simp add: plain_values_def db_ready_def)
qed

text \<open>C26: In a table opened for writing, a row written with \<open>writeRowValueList\<close> is read back as
  the same values by \<open>getRowValueList\<close>, provided no value contains a comma, and no other row
  and not the number of rows changes.\<close>

theorem row_write_read:
  assumes "db_ready d" and "k < length (readWriteData d)" and "plain_values vs"
  shows "\<exists>d'. writeRowValueList vs (int k) d = Inr (0, d') \<and> getRowValueList (int k) d' = Inr vs \<and>
     length (readWriteData d') = length (readWriteData d) \<and>
     (\<forall>i. i \<noteq> k \<longrightarrow> readWriteData d' ! i = readWriteData d ! i)"
  using file_table.read_after_write [OF assms] by blast

text \<open>C27: Closing a table whose rows were marked as modified and opening it again, in either
  mode, gives the same rows, provided no row contains a newline.\<close>

theorem commit_reopen:
  assumes "db_ready d" and "dataModified d" and "fileName d = name @ ''.csv''" and "writable (fileName d)"
    and "\<forall>row \<in> set (readWriteData d). newline \<notin> set row"
  shows "readWriteData (open_database name RW_FILE writable (close_database writable d fs)) = readWriteData d \<and>
     readData (open_database name READ_FILE writable (close_database writable d fs)) = readWriteData d"
  using assms by (simp add: open_database_def close_database_def commitChanges_def db_ready_def getlines_rows)

text \<open>\<open>writeRowValueList\<close> does not mark the table as modified: whatever rows it writes to a
  table that is otherwise unmodified, closing the table leaves the file system as it was.\<close>

theorem row_writes_are_lost:
  assumes "\<not> dataModified d" and "writeRowValueList vs i d = Inr (rc, d')"
  shows "\<not> dataModified d' \<and> close_database writable d' fs = fs"
proof -
  have "dataModified d' = dataModified d"
    using assms(2) by (auto simp: writeRowValueList_def result_simps split: if_splits)
  then show ?thesis using assms(1) by (simp add: close_database_def commitChanges_def)
qed

lemma concat_lines:
  "concat (map (\<lambda>r. r @ [newline]) (getlines s)) = (if s = [] \<or> last s = newline then s else s @ [newline])"
proof (induction s rule: getlines.induct)
  case (1 s)
  show ?case
  proof (cases "s = []")
    case False
    let ?w = "takeWhile (\<lambda>c. c \<noteq> newline) s"
    have eq: "getlines s = ?w # (case dropWhile (\<lambda>c. c \<noteq> newline) s of [] \<Rightarrow> [] | _ # rest \<Rightarrow> getlines rest)"
      using False by (subst getlines.simps) simp
    show ?thesis
    proof (cases "dropWhile (\<lambda>c. c \<noteq> newline) s")
      case Nil
      then have "?w = s" by (metis append_Nil2 takeWhile_dropWhile_id)
      moreover have "\<forall>c \<in> set s. c \<noteq> newline" using Nil by (simp add: dropWhile_eq_Nil_conv)
      then have "last s \<noteq> newline" using False by simp
      moreover have "getlines s = [?w]" using eq by (simp only: Nil list.case)
      ultimately show ?thesis using False by simp
    next
      case (Cons c rest)
      then have "c = newline" by (metis (mono_tags, lifting) dropWhile_eq_Cons_conv)
      then have "s = ?w @ newline # rest" using takeWhile_dropWhile_id [of "\<lambda>c. c \<noteq> newline" s] Cons by metis
      moreover have "getlines s = ?w # getlines rest" using eq Cons by simp
      ultimately obtain w where w: "s = w @ newline # rest" "getlines s = w # getlines rest" by blast
      have IH: "concat (map (\<lambda>r. r @ [newline]) (getlines rest)) =
          (if rest = [] \<or> last rest = newline then rest else rest @ [newline])"
        by (rule 1 [OF False Cons])
      show ?thesis unfolding w(2) by (simp add: IH w(1))
    qed
  qed simp
qed

text \<open>\<open>writeBlob\<close> followed by \<open>getBlob\<close> gives the blob back, with a newline added when the
  last line had none.\<close>

theorem blob_round_trip:
  assumes "db_ready d"
  shows "fst (writeBlob blob d) = 0 \<and>
     getBlob (snd (writeBlob blob d)) = (if blob = [] \<or> last blob = newline then blob else blob @ [newline])"
  using assms concat_lines [of blob] by (simp add: writeBlob_def getBlob_def db_ready_def split_string_by_newline_def)

subsection \<open>Calls that do not do what their error codes say\<close>

lemma negative_row_index:
  assumes "db_ready d" and "- (2 ^ 31) \<le> i" and "i < 0"
  shows "writeRowValueList vs i d = Inr (ROW_INDEX_OVERFLOW, d)"
    and "deleteDuplicateRecords i d = (DUPLICATE_CLEANUP_DONE, d)"
  using assms as_size_negative [OF assms(2,3)]
  by (auto simp: writeRowValueList_def deleteDuplicateRecords_def db_ready_def)

text \<open>In read mode only row 0 can be read by \<open>getRowValue\<close>.\<close>

lemma getRowValue_read_mode:
  assumes "accessMode d = READ_FILE" and "\<not> fileDeleted d" and "readWriteData d = []" and "0 < i" and "i < 2 ^ 31"
  shows "getRowValue i c d = Inr []"
  using assms by (simp add: getRowValue_def as_size_id)

lemma writeRowValue_never_succeeds: "writeRowValue re v i c d \<noteq> Inr (0, d')"
  by (auto simp: writeRowValue_def result_simps file_errors Let_def split: if_splits)

subsection \<open>A concrete table\<close>

definition weather :: FileDataBaseAccess where
  "weather = \<lparr>accessMode = RW_FILE, readWriteData = [''Sky,Play'', ''Sunny,Yes'', ''Rainy,No''], readData = [],
     fileName = ''T1.csv'', dataModified = True, fileDeleted = False\<rparr>"

lemma weather_ready: "db_ready weather"
  by (simp add: db_ready_def weather_def)

theorem row_write_read_witness:
  "\<exists>d'. writeRowValueList [''Sunny'', ''NaN''] 2 weather = Inr (0, d') \<and>
     getRowValueList 2 d' = Inr [''Sunny'', ''NaN'']"
proof -
  have "plain_values [''Sunny'', ''NaN'']" by (simp add: plain_values_def comma_def)
  from row_write_read [OF weather_ready _ this, of 2] show ?thesis by (auto simp: weather_def)
qed

theorem commit_reopen_witness:
  "readData (open_database ''T1'' READ_FILE (\<lambda>_. True) (close_database (\<lambda>_. True) weather Map.empty)) =
     [''Sky,Play'', ''Sunny,Yes'', ''Rainy,No'']"
proof -
  have "\<forall>row \<in> set (readWriteData weather). newline \<notin> set row" by (simp add: weather_def newline_def)
  with commit_reopen [of weather "''T1''" "\<lambda>_. True" Map.empty] weather_ready show ?thesis
    by (simp add: weather_def)
qed

theorem row_writes_are_lost_witness:
  "\<exists>d'. writeRowValueList [''NaN'', ''No''] 2 (weather\<lparr>dataModified := False\<rparr>) = Inr (0, d') \<and>
     close_database (\<lambda>_. True) d' Map.empty = Map.empty"
proof -
  have "db_ready (weather\<lparr>dataModified := False\<rparr>)" by (simp add: db_ready_def weather_def)
  from writeRowValueList_eq [OF this, of 2 "[''NaN'', ''No'']"]
  obtain d' where d': "writeRowValueList [''NaN'', ''No''] 2 (weather\<lparr>dataModified := False\<rparr>) = Inr (0, d')"
    by (auto simp: weather_def)
  have "\<not> dataModified (weather\<lparr>dataModified := False\<rparr>)" by simp
  from row_writes_are_lost [OF this d'] d' show ?thesis by auto
qed

theorem blob_round_trip_witness:
  "getBlob (snd (writeBlob ''a,b'' weather)) = ''a,b'' @ [newline]"
  using blob_round_trip [OF weather_ready, of "''a,b''"] by (simp add: newline_def)

end
