(* ===== verification/Instance_Data.thy ===== *)
theory Instance_Data
  imports Instances Sqlite_Access File_Database
begin

section \<open>The instance a table is checked against: data\_processor/instance\_data.hpp and .cpp\<close>

text \<open>
  \<open>InstanceData\<close> compares the columns of the user's table with the columns of the instance and
  loads the values each column may take.
\<close>

record InstanceData =
  id_instance :: Instance
  instanceDataMatrix :: "string list option list"
  userTableName :: string
  userTableTotalColumns :: int
  id_errorString :: string
  id_file :: FileDataBaseAccess

definition new_InstanceData ::
  "Instance \<Rightarrow> int \<Rightarrow> string \<Rightarrow> (string \<Rightarrow> bool) \<Rightarrow> files \<Rightarrow> InstanceData"
where
  "new_InstanceData inst cols userTableId writable fs =
     \<lparr>id_instance = inst, instanceDataMatrix = [], userTableName = userTableId, userTableTotalColumns = cols,
      id_errorString = [], id_file = open_database userTableId READ_FILE writable fs\<rparr>"

text \<open>The two nested loops of \<open>validateColumns\<close>: the accepted names so far.\<close>

fun column_loop :: "string list \<Rightarrow> string list \<Rightarrow> nat list \<Rightarrow> string list \<Rightarrow> string list result" where
  "column_loop user inst [] acc = Inr acc"
| "column_loop user inst (i # is) acc =
     bindR (vec_at user (int i)) (\<lambda>u.
       (case List.find (\<lambda>n. n = u) inst of
          None \<Rightarrow> column_loop user inst is acc
        | Some n \<Rightarrow> column_loop user inst is (acc @ [n])))"

definition validateColumns ::
  "'db sql_exec \<Rightarrow> InstanceData \<Rightarrow> 'db \<Rightarrow> (string list option \<times> InstanceData \<times> 'db) result"
where
  "validateColumns exec d db =
     (let cols = uint (instance_getTotalColumns (id_instance d)) in
      if cols \<noteq> userTableTotalColumns d
      then Inr (None, d\<lparr>id_errorString := ''instance column count doesn't match with userdata columns,  '' @
             '' instance columns: '' @ int_string cols @ '' userdata columns:'' @ int_string (userTableTotalColumns d)\<rparr>, db)
      else bindR (getColumnNames exec (getId (id_instance d)) (nat cols) db) (\<lambda>(instanceColumnNames, db').
           bindR (getColumnNamesList (id_file d)) (\<lambda>userTableColumnNames.
             (case instanceColumnNames of
                None \<Rightarrow> Inr (None, d, db')
              | Some inst \<Rightarrow>
                  if userTableColumnNames = [] then Inr (None, d, db')
                  else bindR (column_loop userTableColumnNames inst [0..<nat cols] []) (\<lambda>found.
                    if int (length found) \<noteq> cols
                    then Inr (None, d\<lparr>id_errorString := ''Instance table and User table columns did not match''\<rparr>, db')
                    else Inr (Some found, d, db'))))))"

fun values_loop ::
  "'db sql_exec \<Rightarrow> string \<Rightarrow> nat \<Rightarrow> string list \<Rightarrow> string list option list \<Rightarrow> 'db \<Rightarrow>
   (string list option list \<times> 'db) result"
where
  "values_loop exec t n [] matrix db = Inr (matrix, db)"
| "values_loop exec t n (c # cs) matrix db =
     bindR (getColumnValues exec t c n db) (\<lambda>(str, db'). values_loop exec t n cs (matrix @ [str]) db')"

definition initlizeData :: "'db sql_exec \<Rightarrow> InstanceData \<Rightarrow> 'db \<Rightarrow> (int \<times> InstanceData \<times> 'db) result" where
  "initlizeData exec d db =
     bindR (validateColumns exec d db) (\<lambda>(columnNames, d1, db1).
       (case columnNames of
          None \<Rightarrow> Inr (- 1, d1, db1)
        | Some names \<Rightarrow>
            bindR (values_loop exec (getId (id_instance d1)) (unat (instance_getTotalRows (id_instance d1)))
                     (take (unat (instance_getTotalColumns (id_instance d1))) names) (instanceDataMatrix d1) db1)
              (\<lambda>(m, db2). Inr (0, d1\<lparr>instanceDataMatrix := m\<rparr>, db2))))"

text \<open>\<open>std::vector::at\<close> throws; a column whose query failed is the null pointer.\<close>

definition getPossibleFields :: "int \<Rightarrow> InstanceData \<Rightarrow> (string list option) result" where
  "getPossibleFields column d =
     (if 0 \<le> column \<and> nat column < length (instanceDataMatrix d) then Inr (instanceDataMatrix d ! nat column)
      else Inl UncaughtException)"

definition data_getTotalRows :: "InstanceData \<Rightarrow> 64 word" where
  "data_getTotalRows d = instance_getTotalRows (id_instance d)"

subsection \<open>Which tables pass\<close>

lemma find_eq: "List.find (\<lambda>n. n = u) inst = (if u \<in> set inst then Some u else None)"
  by (induction inst) auto

lemma column_loop_eq:
  "set is \<subseteq> {..<length user} \<Longrightarrow>
   column_loop user inst is acc = Inr (acc @ filter (\<lambda>u. u \<in> set inst) (map ((!) user) is))"
  by (induction "is" arbitrary: acc) (simp_all add: vec_at_def find_eq)

text \<open>When the instance and the table have the same number of columns and the names of both
  can be read, \<open>validateColumns\<close> accepts the table exactly if each of its column names is a
  column of the instance, and answers the names in the order of the table. It does not check
  that every column of the instance occurs: a table that repeats one name passes.\<close>

theorem validateColumns_outcome:
  assumes "uint (instance_getTotalColumns (id_instance d)) = int (length user)"
    and "userTableTotalColumns d = int (length user)"
    and "getColumnNames exec (getId (id_instance d)) (length user) db = Inr (Some inst, db')"
    and "getColumnNamesList (id_file d) = Inr user" and "user \<noteq> []"
  shows "validateColumns exec d db =
     Inr (if set user \<subseteq> set inst then (Some user, d, db')
          else (None, d\<lparr>id_errorString := ''Instance table and User table columns did not match''\<rparr>, db'))"
proof -
  have "column_loop user inst [0..<length user] [] = Inr (filter (\<lambda>u. u \<in> set inst) user)"
    by (subst column_loop_eq) (auto simp: map_nth)
  moreover have "length (filter (\<lambda>u. u \<in> set inst) user) = length user \<longleftrightarrow> set user \<subseteq> set inst"
    by (metis filter_id_conv length_filter_less less_irrefl subset_code(1))
  moreover have "set user \<subseteq> set inst \<Longrightarrow> filter (\<lambda>u. u \<in> set inst) user = user"
    by (auto simp: filter_id_conv)
  ultimately show ?thesis using assms by (auto simp: validateColumns_def Let_def)
qed

lemma values_loop_length:
  "values_loop exec t n cs matrix db = Inr (m, db') \<Longrightarrow> length m = length matrix + length cs"
  by (induction cs arbitrary: matrix db) (auto simp: result_simps split: prod.splits)

text \<open>After a successful initialisation every column of the table has an entry.\<close>

lemma validateColumns_Some:
  assumes "validateColumns exec d db = Inr (Some names, d', db')"
  shows "d' = d \<and> int (length names) = uint (instance_getTotalColumns (id_instance d))"
  using assms by (auto simp: validateColumns_def Let_def result_simps split: if_splits option.splits prod.splits)

lemma initlizeData_matrix:
  assumes "initlizeData exec d db = Inr (0, d', db')" and "instanceDataMatrix d = []"
  shows "int (length (instanceDataMatrix d')) = uint (instance_getTotalColumns (id_instance d))"
    and "0 \<le> c \<Longrightarrow> c < uint (instance_getTotalColumns (id_instance d)) \<Longrightarrow> \<exists>v. getPossibleFields c d' = Inr v"
proof -
  obtain names d1 db1 m db2 where v: "validateColumns exec d db = Inr (Some names, d1, db1)"
    and l: "values_loop exec (getId (id_instance d1)) (unat (instance_getTotalRows (id_instance d1)))
        (take (unat (instance_getTotalColumns (id_instance d1))) names) (instanceDataMatrix d1) db1 = Inr (m, db2)"
    and d': "d' = d1\<lparr>instanceDataMatrix := m\<rparr>"
  proof -
    obtain cn d1 db1 where v: "validateColumns exec d db = Inr (cn, d1, db1)"
      using assms(1) by (auto simp: initlizeData_def result_simps)
    then obtain names where "cn = Some names"
      using assms(1) by (cases cn) (auto simp: initlizeData_def)
    let ?v = "values_loop exec (getId (id_instance d1)) (unat (instance_getTotalRows (id_instance d1)))
        (take (unat (instance_getTotalColumns (id_instance d1))) names) (instanceDataMatrix d1) db1"
    have run: "bindR ?v (\<lambda>(m, db2). Inr (0 :: int, d1\<lparr>instanceDataMatrix := m\<rparr>, db2)) = Inr (0, d', db')"
      using assms(1) v \<open>cn = Some names\<close> by (simp add: initlizeData_def)
    show ?thesis
    proof (cases ?v)
      case (Inr x)
      then show ?thesis using run that v \<open>cn = Some names\<close> by (cases x) simp
    qed (use run in simp)
  qed
  show "int (length (instanceDataMatrix d')) = uint (instance_getTotalColumns (id_instance d))"
  proof -
    have same: "d1 = d" and "int (length names) = uint (instance_getTotalColumns (id_instance d))"
      using validateColumns_Some [OF v] by auto
    then have "length names = unat (instance_getTotalColumns (id_instance d))"
      by (metis nat_int unat_eq_nat_uint)
    then have "length m = unat (instance_getTotalColumns (id_instance d))"
      using values_loop_length [OF l] same assms(2) by simp
    then show ?thesis using d' by simp
  qed
  then show "\<exists>v. getPossibleFields c d' = Inr v"
    if "0 \<le> c" "c < uint (instance_getTotalColumns (id_instance d))"
    using that by (auto simp: getPossibleFields_def nat_less_iff)
qed

subsection \<open>A concrete check\<close>

definition weather_db :: "unit sql_exec" where
  "weather_db cmd db = (0, [([Some ''Sunny'', Some ''Yes'', Some ''1''], [''Sky'', ''Play'', ''ID''])], ())"

definition weather_data :: InstanceData where
  "weather_data = \<lparr>id_instance = new_Instance ''Weather_aaaaa'' 1 2 2, instanceDataMatrix = [],
     userTableName = ''T1'', userTableTotalColumns = 2, id_errorString = [], id_file = weather\<rparr>"

theorem validateColumns_outcome_witness:
  "validateColumns weather_db weather_data () = Inr (Some [''Sky'', ''Play''], weather_data, ())"
proof -
  have "getColumnNames weather_db (getId (id_instance weather_data)) (length [''Sky'', ''Play'']) () = Inr (Some [''Sky'', ''Play''], ())"
    by (rule getColumnNames_one_row [where key = "''ID''" and vs = "[Some ''Sunny'', Some ''Yes'', Some ''1'']"])
      (simp_all add: weather_db_def SQLITE_OK_def)
  moreover have "getColumnNamesList (id_file weather_data) = Inr [''Sky'', ''Play'']"
  proof -
    have "adv_tokenizer (row_string [''Sky'', ''Play'']) comma = [''Sky'', ''Play'']"
      by (rule tokens_row_string) (simp add: plain_values_def comma_def)
    then show ?thesis
      by (simp add: getColumnNamesList_def weather_data_def weather_def vec_at_def row_string_def comma_def)
  qed
  ultimately show ?thesis
    by (intro validateColumns_outcome [where user = "[''Sky'', ''Play'']" and inst = "[''Sky'', ''Play'']", THEN trans])
      (simp_all add: weather_data_def instance_getTotalColumns_def new_Instance_def)
qed

end
