(* ===== verification/Data_Validator.thy ===== *)
theory Data_Validator
  imports Instance_Data
begin

section \<open>Validation of the fields of a table: data\_processor/data\_validator.cpp\<close>

text \<open>
  A validator walks over the rows of its own copy of the table and replaces the values that the
  instance does not allow. \<open>boost::iequals\<close> is the parameter \<open>ieq\<close>.
\<close>

record ValidateData =
  vd_startRow :: int
  vd_endRow :: int
  vd_iterator :: int
  vd_file :: FileDataBaseAccess
  vd_tableData :: ptr
  vd_instance :: ptr

definition new_ValidateData ::
  "int \<Rightarrow> int \<Rightarrow> ptr \<Rightarrow> ptr \<Rightarrow> string \<Rightarrow> (string \<Rightarrow> bool) \<Rightarrow> files \<Rightarrow> ValidateData"
where
  "new_ValidateData startIndex endIndex td inst tid writable fs =
     \<lparr>vd_startRow = startIndex, vd_endRow = endIndex, vd_iterator = startIndex,
      vd_file = open_database tid RW_FILE writable fs, vd_tableData = td, vd_instance = inst\<rparr>"

definition close_ValidateData :: "(string \<Rightarrow> bool) \<Rightarrow> ValidateData \<Rightarrow> files \<Rightarrow> files" where
  "close_ValidateData writable v fs = close_database writable (vd_file v) fs"

fun field_loop :: "(string \<Rightarrow> string \<Rightarrow> bool) \<Rightarrow> string list \<Rightarrow> string \<Rightarrow> nat list \<Rightarrow> string result" where
  "field_loop ieq temp feild [] = Inr ''NaN''"
| "field_loop ieq temp feild (i # is) =
     bindR (vec_at temp (int i)) (\<lambda>x. if ieq x feild then Inr feild else field_loop ieq temp feild is)"

definition validateFeild :: "(string \<Rightarrow> string \<Rightarrow> bool) \<Rightarrow> InstanceData \<Rightarrow> int \<Rightarrow> string \<Rightarrow> string result" where
  "validateFeild ieq d curCol feild =
     bindR (getPossibleFields curCol d) (\<lambda>temp.
       (case temp of
          None \<Rightarrow> Inr feild
        | Some xs \<Rightarrow> field_loop ieq xs feild [0..<unat (data_getTotalRows d)]))"

definition cleanData :: "(string \<Rightarrow> string \<Rightarrow> bool) \<Rightarrow> InstanceData \<Rightarrow> int \<Rightarrow> string \<Rightarrow> string result" where
  "cleanData ieq d curCol feild = (if feild = [] then Inr ''NaN'' else validateFeild ieq d curCol feild)"

fun columns_loop ::
  "(string \<Rightarrow> string \<Rightarrow> bool) \<Rightarrow> InstanceData \<Rightarrow> string list \<Rightarrow> nat list \<Rightarrow> string list \<Rightarrow> string list result"
where
  "columns_loop ieq d feildList [] temp = Inr temp"
| "columns_loop ieq d feildList (i # is) temp =
     bindR (vec_at feildList (int i)) (\<lambda>feild.
     bindR (cleanData ieq d (int i) feild) (\<lambda>str. columns_loop ieq d feildList is (temp @ [str])))"

definition processFeild ::
  "(string \<Rightarrow> string \<Rightarrow> bool) \<Rightarrow> TableMetadata \<Rightarrow> InstanceData \<Rightarrow> ValidateData \<Rightarrow> (int \<times> ValidateData) result"
where
  "processFeild ieq md d v =
     (let cols = int32 (uint (md_columns md)) in
      if as_size (vd_iterator v) \<ge> unat (md_rows md) then Inr (1, v)
      else bindR (getRowValueList (vd_iterator v) (vd_file v)) (\<lambda>feildList.
           bindR (columns_loop ieq d feildList [0..<nat cols] []) (\<lambda>temp.
           bindR (if temp \<noteq> feildList
                  then bindR (writeRowValueList temp (vd_iterator v) (vd_file v)) (\<lambda>(_, file). Inr (v\<lparr>vd_file := file\<rparr>))
                  else Inr v) (\<lambda>v1.
             Inr (0, v1\<lparr>vd_iterator := vd_iterator v1 + 1\<rparr>)))))"

definition validate_data_start ::
  "(string \<Rightarrow> string \<Rightarrow> bool) \<Rightarrow> TableMetadata \<Rightarrow> InstanceData \<Rightarrow> ValidateData \<Rightarrow> (JobStatus \<times> ValidateData) result"
where
  "validate_data_start ieq md d v =
     bindR (processFeild ieq md d v) (\<lambda>(rc, v'). Inr (if rc \<noteq> 0 then JOB_DONE else JOB_PENDING, v'))"

text \<open>The calls of the start handler up to the one that answers \<open>JOB_DONE\<close>, at most \<open>n\<close>.\<close>

fun validate_run ::
  "nat \<Rightarrow> (string \<Rightarrow> string \<Rightarrow> bool) \<Rightarrow> TableMetadata \<Rightarrow> InstanceData \<Rightarrow> ValidateData \<Rightarrow> (ValidateData result) option"
where
  "validate_run 0 ieq md d v = None"
| "validate_run (Suc n) ieq md d v =
     (case validate_data_start ieq md d v of
        Inl e \<Rightarrow> Some (Inl e)
      | Inr (st, v') \<Rightarrow> if st = JOB_DONE then Some (Inr v') else validate_run n ieq md d v')"

subsection \<open>What becomes of a value\<close>

definition allowed :: "(string \<Rightarrow> string \<Rightarrow> bool) \<Rightarrow> InstanceData \<Rightarrow> nat \<Rightarrow> string \<Rightarrow> bool" where
  "allowed ieq d c x \<longleftrightarrow> x \<noteq> [] \<and>
     (case instanceDataMatrix d ! c of
        None \<Rightarrow> True
      | Some xs \<Rightarrow> (\<exists>y \<in> set (take (unat (data_getTotalRows d)) xs). ieq y x))"

definition cleaned :: "(string \<Rightarrow> string \<Rightarrow> bool) \<Rightarrow> InstanceData \<Rightarrow> string list \<Rightarrow> string list" where
  "cleaned ieq d vs = map (\<lambda>c. if allowed ieq d c (vs ! c) then vs ! c else ''NaN'') [0..<length vs]"

text \<open>Every column has an entry, and the loaded values are as many as the instance has rows.\<close>

definition matrix_ok :: "InstanceData \<Rightarrow> nat \<Rightarrow> bool" where
  "matrix_ok d cols \<longleftrightarrow> length (instanceDataMatrix d) = cols \<and>
     (\<forall>xs. Some xs \<in> set (instanceDataMatrix d) \<longrightarrow> length xs = unat (data_getTotalRows d))"

lemma field_loop_eq:
  "set is \<subseteq> {..<length temp} \<Longrightarrow>
   field_loop ieq temp x is = Inr (if \<exists>i \<in> set is. ieq (temp ! i) x then x else ''NaN'')"
  by (induction "is") (auto simp: vec_at_def)

lemma cleanData_eq:
  assumes "matrix_ok d cols" and "c < cols"
  shows "cleanData ieq d (int c) x = Inr (if allowed ieq d c x then x else ''NaN'')"
proof (cases "x = []")
  case False
  have len: "c < length (instanceDataMatrix d)" using assms by (simp add: matrix_ok_def)
  show ?thesis
  proof (cases "instanceDataMatrix d ! c")
    case None
    then show ?thesis using False len by (simp add: cleanData_def validateFeild_def getPossibleFields_def allowed_def)
  next
    case (Some xs)
    then have "Some xs \<in> set (instanceDataMatrix d)" using len by (metis nth_mem)
    then have n: "length xs = unat (data_getTotalRows d)" using assms by (simp add: matrix_ok_def)
    have "(\<exists>i \<in> set [0..<length xs]. ieq (xs ! i) x) \<longleftrightarrow> (\<exists>y \<in> set xs. ieq y x)"
      by (force simp: set_conv_nth)
    then have "field_loop ieq xs x [0..<unat (data_getTotalRows d)] = Inr (if \<exists>y \<in> set xs. ieq y x then x else ''NaN'')"
      using field_loop_eq [of "[0..<length xs]" xs ieq x] n by (simp add: lessThan_atLeast0)
    then show ?thesis
      using False len Some n by (simp add: cleanData_def validateFeild_def getPossibleFields_def allowed_def)
  qed
qed (simp add: cleanData_def allowed_def)

lemma columns_loop_eq:
  assumes "matrix_ok d (length vs)"
  shows "set is \<subseteq> {..<length vs} \<Longrightarrow>
    columns_loop ieq d vs is temp = Inr (temp @ map (\<lambda>c. if allowed ieq d c (vs ! c) then vs ! c else ''NaN'') is)"
  by (induction "is" arbitrary: temp) (simp_all add: vec_at_def cleanData_eq [OF assms])

lemma cleaned_plain: "plain_values vs \<Longrightarrow> plain_values (cleaned ieq d vs)"
  by (auto simp: plain_values_def cleaned_def comma_def)

lemma length_cleaned [simp]: "length (cleaned ieq d vs) = length vs"
  by (simp add: cleaned_def)

text \<open>C25: A call of the validator on a well-formed row that has one value per column of the
  instance replaces exactly the empty values and the values the instance does not allow by
  \<open>NaN\<close>, in its copy of the table, leaves all other rows as they are and moves on by one row.\<close>

theorem processFeild_cleans_row:
  assumes "db_ready (vd_file v)" and "vd_iterator v = int k" and "k < unat (md_rows md)"
    and "k < length (readWriteData (vd_file v))" and "readWriteData (vd_file v) ! k = row_string vs"
    and "plain_values vs" and "md_columns md = of_nat (length vs)" and "length vs < 2 ^ 31"
    and "matrix_ok d (length vs)"
  shows "\<exists>v'. processFeild ieq md d v = Inr (0, v') \<and> db_ready (vd_file v') \<and> vd_iterator v' = int (Suc k) \<and>
     readWriteData (vd_file v') = (readWriteData (vd_file v))[k := row_string (cleaned ieq d vs)]"
proof -
  have small: "k < 2 ^ 31" using assms(1,4) by (simp add: db_ready_def)
  have "length vs < 2 ^ 64" using assms(8) by simp
  then have "uint (md_columns md) = int (length vs)"
    using assms(7) by (simp add: unsigned_of_nat take_bit_nat_eq_self)
  then have cols: "int32 (uint (md_columns md)) = int (length vs)"
    using assms(8) by (simp add: int32_id)
  have read: "getRowValueList (int k) (vd_file v) = Inr vs"
    using file_table.read_valid [OF assms(1,4,5,6)] .
  have loop: "columns_loop ieq d vs [0..<length vs] [] = Inr (cleaned ieq d vs)"
    using columns_loop_eq [OF assms(9), of "[0..<length vs]" ieq "[]"] by (simp add: cleaned_def lessThan_atLeast0)
  have it: "\<not> unat (md_rows md) \<le> as_size (int k)" using assms(3) small by (simp add: as_size_id)
  show ?thesis
  proof (cases "cleaned ieq d vs = vs")
    case True
    moreover have "(readWriteData (vd_file v))[k := row_string vs] = readWriteData (vd_file v)"
      using assms(5) by (metis list_update_id)
    ultimately show ?thesis
      using assms(1,2) cols read loop it by (simp add: processFeild_def)
  next
    case False
    obtain s' where w: "writeRowValueList (cleaned ieq d vs) (int k) (vd_file v) = Inr (0, s')" "db_ready s'"
        "readWriteData s' = (readWriteData (vd_file v))[k := row_string (cleaned ieq d vs)]"
      using file_table.write_ready [OF assms(1,4) cleaned_plain [OF assms(6)]] by blast
    then show ?thesis
      using assms(2) cols read loop it False by (simp add: processFeild_def)
  qed
qed

subsection \<open>What becomes of the table\<close>

lemma processFeild_frame:
  assumes "processFeild ieq md d v = Inr (rc, v')"
  shows "dataModified (vd_file v') = dataModified (vd_file v)"
proof -
  have "dataModified d' = dataModified e" if "writeRowValueList vs i e = Inr (r, d')" for vs i e r d'
    using that by (auto simp: writeRowValueList_def result_simps split: if_splits)
  then show ?thesis
    using assms by (auto simp: processFeild_def Let_def result_simps split: if_splits prod.splits)
qed

lemma validate_run_frame:
  "validate_run n ieq md d v = Some (Inr v') \<Longrightarrow> dataModified (vd_file v') = dataModified (vd_file v)"
proof (induction n arbitrary: v)
  case (Suc n)
  obtain st v1 where st: "validate_data_start ieq md d v = Inr (st, v1)"
    using Suc.prems by (cases "validate_data_start ieq md d v") auto
  then obtain rc where "processFeild ieq md d v = Inr (rc, v1)"
    by (auto simp: validate_data_start_def result_simps)
  then have "dataModified (vd_file v1) = dataModified (vd_file v)" by (rule processFeild_frame)
  then show ?case using Suc st by (auto split: if_splits)
qed simp

lemma open_unmodified [simp]: "\<not> dataModified (open_database t m w fs)"
  by (simp add: open_database_def Let_def split: option.split)

text \<open>Validation never reaches the file: however many rows a validator replaces, opening
  its table, running it to its end and closing the table leaves all files as they were.\<close>

theorem validation_is_never_saved:
  assumes "validate_run n ieq md d (new_ValidateData a b td inst tid writable fs) = Some (Inr v)"
  shows "close_ValidateData writable v fs' = fs'"
proof -
  have "\<not> dataModified (vd_file v)"
    using validate_run_frame [OF assms] by (simp add: new_ValidateData_def)
  then show ?thesis by (simp add: close_ValidateData_def close_database_def commitChanges_def)
qed

text \<open>The header is line 0 and \<open>metadata->rows\<close> counts the lines behind it, but a validator
  stops as soon as its row number reaches that count: it answers \<open>JOB_DONE\<close> on the last line
  of the table without looking at it.\<close>

theorem last_row_is_not_validated:
  assumes "vd_iterator v = uint (md_rows md)" and "unat (md_rows md) < 2 ^ 31"
  shows "validate_data_start ieq md d v = Inr (JOB_DONE, v)"
proof -
  have "as_size (vd_iterator v) = unat (md_rows md)"
    using assms by (simp add: as_size_def)
  then show ?thesis by (simp add: validate_data_start_def processFeild_def)
qed

subsection \<open>A concrete table\<close>

definition checked_weather :: InstanceData where
  "checked_weather = weather_data\<lparr>instanceDataMatrix := [Some [''Sunny'', ''Cloudy''], Some [''Yes'', ''No'']]\<rparr>"

definition weather_validator :: ValidateData where
  "weather_validator = \<lparr>vd_startRow = 1, vd_endRow = 1, vd_iterator = 2, vd_file = weather, vd_tableData = 0, vd_instance = 0\<rparr>"

definition weather_md :: TableMetadata where
  "weather_md = \<lparr>md_rows = 3, md_columns = 2, currentRow = 0, currentColumn = 0\<rparr>"

theorem processFeild_cleans_row_witness:
  "\<exists>v'. processFeild (=) weather_md checked_weather weather_validator = Inr (0, v') \<and>
     readWriteData (vd_file v') = [''Sky,Play'', ''Sunny,Yes'', ''NaN,No'']"
proof -
  let ?vs = "[''Rainy'', ''No'']"
  have rows: "data_getTotalRows checked_weather = 2"
    by (simp add: data_getTotalRows_def checked_weather_def weather_data_def instance_getTotalRows_def new_Instance_def)
  have "cleaned (=) checked_weather ?vs = [''NaN'', ''No'']"
  proof -
    have "instanceDataMatrix checked_weather = [Some [''Sunny'', ''Cloudy''], Some [''Yes'', ''No'']]"
      by (simp add: checked_weather_def)
    then show ?thesis by (simp add: cleaned_def upt_rec allowed_def rows)
  qed
  then have row: "row_string (cleaned (=) checked_weather ?vs) = ''NaN,No''"
    by (simp add: row_string_def comma_def)
  have "matrix_ok checked_weather (length ?vs)"
    unfolding matrix_ok_def rows by (auto simp: checked_weather_def)
  moreover have "db_ready (vd_file weather_validator)" "readWriteData (vd_file weather_validator) ! 2 = row_string ?vs"
      "plain_values ?vs" "vd_iterator weather_validator = int 2" "md_columns weather_md = of_nat (length ?vs)"
      "2 < unat (md_rows weather_md)" "2 < length (readWriteData (vd_file weather_validator))"
    using weather_ready
    by (simp_all add: weather_validator_def weather_def row_string_def comma_def plain_values_def weather_md_def)
  ultimately show ?thesis
    using processFeild_cleans_row [of weather_validator 2 weather_md ?vs checked_weather "(=)"] row
    by (auto simp: weather_validator_def weather_def)
qed

definition small_files :: files where
  "small_files = [''T1.csv'' \<mapsto> ''Sky,Play'' @ [newline] @ ''Rainy,'' @ [newline] @ ''Sunny,No'' @ [newline]]"

text \<open>The row is replaced in memory, the file keeps it.\<close>

theorem validation_is_never_saved_witness:
  "\<exists>v. validate_run 2 (=) (weather_md\<lparr>md_rows := 2\<rparr>) checked_weather
         (new_ValidateData 1 1 0 0 ''T1'' (\<lambda>_. True) small_files) = Some (Inr v) \<and>
     readWriteData (vd_file v) = [''Sky,Play'', ''NaN,NaN'', ''Sunny,No''] \<and>
     close_ValidateData (\<lambda>_. True) v small_files = small_files"
proof -
  have "case validate_run 2 (=) (weather_md\<lparr>md_rows := 2\<rparr>) checked_weather
         (new_ValidateData 1 1 0 0 ''T1'' (\<lambda>_. True) small_files) of
      Some (Inr v) \<Rightarrow> readWriteData (vd_file v) = [''Sky,Play'', ''NaN,NaN'', ''Sunny,No''] | _ \<Rightarrow> False"
    by code_simp
  then obtain v where "validate_run 2 (=) (weather_md\<lparr>md_rows := 2\<rparr>) checked_weather
         (new_ValidateData 1 1 0 0 ''T1'' (\<lambda>_. True) small_files) = Some (Inr v)"
      "readWriteData (vd_file v) = [''Sky,Play'', ''NaN,NaN'', ''Sunny,No'']"
    by (auto split: option.splits sum.splits)
  with validation_is_never_saved [OF this(1)] show ?thesis by blast
qed

theorem last_row_is_not_validated_witness:
  "validate_data_start (=) (weather_md\<lparr>md_rows := 2\<rparr>) checked_weather weather_validator = Inr (JOB_DONE, weather_validator)"
  by (rule last_row_is_not_validated) (simp_all add: weather_validator_def weather_md_def)

end
