(* ===== verification/Candidate_Elimination.thy ===== *)
theory Candidate_Elimination
  imports Sqlite_Access File_Database
begin

section \<open>Candidate elimination: algorithm/candidate\_elemination.hpp and .cpp\<close>

text \<open>
  One object learns from the lines \<open>start\<close> to \<open>end\<close> of a table. \<open>s\<close> is the most specific
  hypothesis, \<open>g\<close> the most general one, each a value per attribute; \<open>*\<close> stands for no value
  yet, \<open>?\<close> for any value. \<open>boost::iequals\<close> is the parameter \<open>ieq\<close>.
\<close>

record CandidateElimination =
  ce_columns :: int
  targetCol :: int
  totalPositives :: int
  totalNegatives :: int
  ce_s :: "string list"
  ce_g :: "string list"
  confirmValue :: string
  ce_start :: int
  ce_end :: int
  startSet :: Flag
  ce_tableId :: string
  ce_file :: FileDataBaseAccess

record CeResultExportObject =
  res_totalColumns :: int
  res_totalPositives :: int
  res_totalNegatives :: int
  res_s :: "string list"
  res_g :: "string list"

definition confirm_value :: "'db sql_exec \<Rightarrow> string \<Rightarrow> int \<Rightarrow> 'db \<Rightarrow> (string \<times> 'db) result" where
  "confirm_value exec iid columns db =
     bindR (getColumnNames exec iid (nat columns) db) (\<lambda>(columnValues, db1).
       (case columnValues of
          None \<Rightarrow> Inr (''yes'', db1)
        | Some names \<Rightarrow>
            bindR (vec_at names (columns - 1)) (\<lambda>targetColumnName.
            bindR (getColumnValues exec iid targetColumnName 2 db1) (\<lambda>(vals, db2).
              (case vals of
                 None \<Rightarrow> Inl NullPointer
               | Some xs \<Rightarrow> bindR (vec_at xs 0) (\<lambda>c. Inr (if c = [] then ''yes'' else c, db2)))))))"

definition new_CandidateElimination ::
  "'db sql_exec \<Rightarrow> string \<Rightarrow> string \<Rightarrow> int \<Rightarrow> int \<Rightarrow> int \<Rightarrow> (string \<Rightarrow> bool) \<Rightarrow> files \<Rightarrow> 'db \<Rightarrow>
   (CandidateElimination \<times> 'db) result"
where
  "new_CandidateElimination exec tid iid start end columns writable fs db =
     bindR (confirm_value exec iid columns db) (\<lambda>(c, db').
       Inr (\<lparr>ce_columns = columns - 1, targetCol = columns - 1, totalPositives = 0, totalNegatives = 0,
             ce_s = replicate (nat (columns - 1)) ''*'', ce_g = replicate (nat (columns - 1)) ''*'',
             confirmValue = c, ce_start = start, ce_end = end, startSet = initFlag False, ce_tableId = tid,
             ce_file = open_database tid READ_FILE writable fs\<rparr>, db'))"

definition close_CandidateElimination :: "(string \<Rightarrow> bool) \<Rightarrow> CandidateElimination \<Rightarrow> files \<Rightarrow> files" where
  "close_CandidateElimination writable ce fs = close_database writable (ce_file ce) fs"

subsection \<open>Learning from one row\<close>

text \<open>What \<open>compare\<close> does to one attribute of a positive and of a negative example.\<close>

definition positive_step :: "(string \<Rightarrow> string \<Rightarrow> bool) \<Rightarrow> string \<Rightarrow> string \<times> string \<Rightarrow> string \<times> string" where
  "positive_step ieq v sg =
     (if fst sg = ''*'' then (v, snd sg)
      else if \<not> ieq (fst sg) v then (''?'', ''?'')
      else sg)"

definition negative_step :: "(string \<Rightarrow> string \<Rightarrow> bool) \<Rightarrow> string \<Rightarrow> string \<times> string \<Rightarrow> string \<times> string" where
  "negative_step ieq v sg =
     (if \<not> ieq (fst sg) v \<and> \<not> ieq (snd sg) ''?'' then (fst sg, fst sg) else (fst sg, ''?''))"

fun compare_loop ::
  "(string \<Rightarrow> string \<times> string \<Rightarrow> string \<times> string) \<Rightarrow> string list \<Rightarrow> nat list \<Rightarrow> string list \<Rightarrow> string list \<Rightarrow>
   (string list \<times> string list) result"
where
  "compare_loop step vs [] s g = Inr (s, g)"
| "compare_loop step vs (i # is) s g =
     bindR (vec_at vs (int i)) (\<lambda>v.
     bindR (vec_at s (int i)) (\<lambda>si.
     bindR (vec_at g (int i)) (\<lambda>gi.
       (case step v (si, gi) of (si', gi') \<Rightarrow> compare_loop step vs is (s[i := si']) (g[i := gi'])))))"

definition compare ::
  "(string \<Rightarrow> string \<Rightarrow> bool) \<Rightarrow> string list \<Rightarrow> CandidateElimination \<Rightarrow> CandidateElimination result"
where
  "compare ieq valueList ce =
     bindR (vec_at valueList (targetCol ce)) (\<lambda>target.
       if ieq target (confirmValue ce)
       then bindR (compare_loop (positive_step ieq) valueList [0..<nat (ce_columns ce)] (ce_s ce) (ce_g ce)) (\<lambda>(s, g).
              Inr (ce\<lparr>totalPositives := totalPositives ce + 1, ce_s := s, ce_g := g\<rparr>))
       else bindR (compare_loop (negative_step ieq) valueList [0..<nat (ce_columns ce)] (ce_s ce) (ce_g ce)) (\<lambda>(s, g).
              Inr (ce\<lparr>totalNegatives := totalNegatives ce + 1, ce_s := s, ce_g := g\<rparr>)))"

definition getNextRow :: "CandidateElimination \<Rightarrow> int \<times> CandidateElimination" where
  "getNextRow ce = (if ce_start ce \<le> ce_end ce then (ce_start ce, ce\<lparr>ce_start := ce_start ce + 1\<rparr>) else (- 1, ce))"

fun first_positive_loop ::
  "(string \<Rightarrow> string \<Rightarrow> bool) \<Rightarrow> CandidateElimination \<Rightarrow> int list \<Rightarrow> string list result"
where
  "first_positive_loop ieq ce [] = Inr []"
| "first_positive_loop ieq ce (row # rows) =
     bindR (getRowValueList row (ce_file ce)) (\<lambda>feild.
       if int (length feild) = ce_columns ce + 1
       then bindR (vec_at feild (targetCol ce)) (\<lambda>t.
              if ieq t (confirmValue ce) then Inr feild else first_positive_loop ieq ce rows)
       else first_positive_loop ieq ce rows)"

definition getFirstPostive :: "(string \<Rightarrow> string \<Rightarrow> bool) \<Rightarrow> CandidateElimination \<Rightarrow> string list result" where
  "getFirstPostive ieq ce = first_positive_loop ieq ce [ce_start ce..ce_end ce]"

subsection \<open>The stage\<close>

definition candidate_elimination_start ::
  "(string \<Rightarrow> string \<Rightarrow> bool) \<Rightarrow> CandidateElimination \<Rightarrow> (JobStatus \<times> CandidateElimination) result"
where
  "candidate_elimination_start ieq ce =
     (if \<not> isFlagSet (startSet ce)
      then bindR (getFirstPostive ieq ce) (\<lambda>feild.
             if feild = [] then Inr (JOB_DONE, ce)
             else bindR (compare ieq feild ce) (\<lambda>ce1. Inr (JOB_PENDING, ce1\<lparr>startSet := setFlag (startSet ce1)\<rparr>)))
      else
        (case getNextRow ce of (rowIndex, ce1) \<Rightarrow>
           if rowIndex < 0 then Inr (JOB_DONE, ce1)
           else bindR (getRowValueList rowIndex (ce_file ce1)) (\<lambda>feild.
                  if int (length feild) = ce_columns ce1 + 1
                  then bindR (compare ieq feild ce1) (\<lambda>ce2. Inr (JOB_PENDING, ce2))
                  else Inr (JOB_PENDING, ce1))))"

text \<open>The object \<open>candidate_elimination_end\<close> hands on: one positive example was counted twice.\<close>

definition ce_result :: "CandidateElimination \<Rightarrow> CeResultExportObject" where
  "ce_result ce = \<lparr>res_totalColumns = ce_columns ce, res_totalPositives = totalPositives ce - 1,
     res_totalNegatives = totalNegatives ce, res_s = ce_s ce, res_g = ce_g ce\<rparr>"

fun ce_run :: "nat \<Rightarrow> (string \<Rightarrow> string \<Rightarrow> bool) \<Rightarrow> CandidateElimination \<Rightarrow> (CandidateElimination result) option" where
  "ce_run 0 ieq ce = None"
| "ce_run (Suc n) ieq ce =
     (case candidate_elimination_start ieq ce of
        Inl e \<Rightarrow> Some (Inl e)
      | Inr (st, ce') \<Rightarrow> if st = JOB_DONE then Some (Inr ce') else ce_run n ieq ce')"

subsection \<open>A row as a whole\<close>

definition positive :: "(string \<Rightarrow> string \<Rightarrow> bool) \<Rightarrow> CandidateElimination \<Rightarrow> string list \<Rightarrow> bool" where
  "positive ieq ce row \<longleftrightarrow> ieq (row ! nat (targetCol ce)) (confirmValue ce)"

definition learn_step :: "(string \<Rightarrow> string \<Rightarrow> bool) \<Rightarrow> bool \<Rightarrow> string \<Rightarrow> string \<times> string \<Rightarrow> string \<times> string" where
  "learn_step ieq pos = (if pos then positive_step ieq else negative_step ieq)"

definition learn :: "(string \<Rightarrow> string \<Rightarrow> bool) \<Rightarrow> string list \<Rightarrow> CandidateElimination \<Rightarrow> CandidateElimination" where
  "learn ieq row ce =
     (let pos = positive ieq ce row; sg = (\<lambda>i. learn_step ieq pos (row ! i) (ce_s ce ! i, ce_g ce ! i)) in
      ce\<lparr>totalPositives := totalPositives ce + (if pos then 1 else 0),
         totalNegatives := totalNegatives ce + (if pos then 0 else 1),
         ce_s := map (\<lambda>i. fst (sg i)) [0..<nat (ce_columns ce)],
         ce_g := map (\<lambda>i. snd (sg i)) [0..<nat (ce_columns ce)]\<rparr>)"

definition ce_ok :: "CandidateElimination \<Rightarrow> bool" where
  "ce_ok ce \<longleftrightarrow> 0 \<le> ce_columns ce \<and> targetCol ce = ce_columns ce \<and>
     length (ce_s ce) = nat (ce_columns ce) \<and> length (ce_g ce) = nat (ce_columns ce)"

lemma compare_loop_eq:
  assumes "n \<le> length vs" and "n \<le> length s" and "n \<le> length g"
  shows "compare_loop step vs [0..<n] s g =
    Inr (map (\<lambda>i. fst (step (vs ! i) (s ! i, g ! i))) [0..<n] @ drop n s,
         map (\<lambda>i. snd (step (vs ! i) (s ! i, g ! i))) [0..<n] @ drop n g)"
proof -
  have "compare_loop step vs [k..<n] s g =
      Inr (take k s @ map (\<lambda>i. fst (step (vs ! i) (s ! i, g ! i))) [k..<n] @ drop n s,
           take k g @ map (\<lambda>i. snd (step (vs ! i) (s ! i, g ! i))) [k..<n] @ drop n g)"
    if "k \<le> n" "n \<le> length s" "n \<le> length g" for k s g
    using that
  proof (induction "n - k" arbitrary: k s g)
    case 0
    then show ?case by simp
  next
    case (Suc m)
    then have k: "k < n" "[k..<n] = k # [Suc k..<n]" by (auto simp: upt_conv_Cons)
    obtain a b where st: "step (vs ! k) (s ! k, g ! k) = (a, b)" by fastforce
    have "compare_loop step vs [Suc k..<n] (s[k := a]) (g[k := b]) =
        Inr (take (Suc k) (s[k := a]) @ map (\<lambda>i. fst (step (vs ! i) (s[k := a] ! i, g[k := b] ! i))) [Suc k..<n] @ drop n (s[k := a]),
             take (Suc k) (g[k := b]) @ map (\<lambda>i. snd (step (vs ! i) (s[k := a] ! i, g[k := b] ! i))) [Suc k..<n] @ drop n (g[k := b]))"
      using Suc k by (intro Suc.hyps(1)) auto
    moreover have "map (\<lambda>i. f (step (vs ! i) (s[k := a] ! i, g[k := b] ! i))) [Suc k..<n] =
        map (\<lambda>i. f (step (vs ! i) (s ! i, g ! i))) [Suc k..<n]" for f :: "string \<times> string \<Rightarrow> string"
      by (intro map_cong) auto
    ultimately show ?case
      using Suc.prems assms(1) k st by (simp add: vec_at_def take_Suc_conv_app_nth)
  qed
  from this [of 0 s g] show ?thesis using assms by simp
qed

lemma compare_learn:
  assumes "ce_ok ce" and "length row = Suc (nat (ce_columns ce))"
  shows "compare ieq row ce = Inr (learn ieq row ce)"
proof -
  let ?n = "nat (ce_columns ce)"
  have t: "vec_at row (targetCol ce) = Inr (row ! nat (targetCol ce))"
    using assms by (simp add: vec_at_def ce_ok_def)
  have loop: "compare_loop st row [0..<?n] (ce_s ce) (ce_g ce) =
      Inr (map (\<lambda>i. fst (st (row ! i) (ce_s ce ! i, ce_g ce ! i))) [0..<?n],
           map (\<lambda>i. snd (st (row ! i) (ce_s ce ! i, ce_g ce ! i))) [0..<?n])" for st
    using assms by (subst compare_loop_eq) (auto simp: ce_ok_def)
  show ?thesis
    using t by (simp add: compare_def loop learn_def positive_def learn_step_def Let_def)
qed

lemma learn_ok: "ce_ok ce \<Longrightarrow> ce_ok (learn ieq row ce)"
  by (simp add: ce_ok_def learn_def Let_def)

lemma learn_frame [simp]:
  "ce_columns (learn ieq row ce) = ce_columns ce" "targetCol (learn ieq row ce) = targetCol ce"
  "confirmValue (learn ieq row ce) = confirmValue ce" "ce_file (learn ieq row ce) = ce_file ce"
  "ce_start (learn ieq row ce) = ce_start ce" "ce_end (learn ieq row ce) = ce_end ce"
  "startSet (learn ieq row ce) = startSet ce" "ce_tableId (learn ieq row ce) = ce_tableId ce"
  by (simp_all add: learn_def Let_def)

subsection \<open>A whole chunk\<close>

text \<open>The lines \<open>start\<close> to \<open>end\<close>, as values, those left out that have another number of values.\<close>

definition line_values :: "CandidateElimination \<Rightarrow> int \<Rightarrow> string list" where
  "line_values ce i = adv_tokenizer (readData (ce_file ce) ! nat i) comma"

definition well_sized :: "CandidateElimination \<Rightarrow> string list \<Rightarrow> bool" where
  "well_sized ce row \<longleftrightarrow> length row = Suc (nat (ce_columns ce))"

definition ce_rows :: "CandidateElimination \<Rightarrow> string list list" where
  "ce_rows ce = filter (well_sized ce) (map (line_values ce) [ce_start ce..ce_end ce])"

definition ce_file_ok :: "CandidateElimination \<Rightarrow> bool" where
  "ce_file_ok ce \<longleftrightarrow> accessMode (ce_file ce) = READ_FILE \<and> \<not> fileDeleted (ce_file ce) \<and>
     0 \<le> ce_start ce \<and> ce_end ce < int (length (readData (ce_file ce)))"

lemma read_line:
  assumes "accessMode (ce_file ce) = READ_FILE" "\<not> fileDeleted (ce_file ce)" "0 \<le> i"
    and "i < int (length (readData (ce_file ce)))"
  shows "getRowValueList i (ce_file ce) = Inr (line_values ce i)"
  using assms by (simp add: getRowValueList_def vec_at_def line_values_def nat_less_iff)

lemma sized_int: "ce_ok ce \<Longrightarrow> int (length row) = ce_columns ce + 1 \<longleftrightarrow> well_sized ce row"
  by (auto simp: ce_ok_def well_sized_def)

lemma first_positive_eq:
  assumes ok: "ce_ok ce" "accessMode (ce_file ce) = READ_FILE" "\<not> fileDeleted (ce_file ce)"
  shows "\<forall>i \<in> set is. 0 \<le> i \<and> i < int (length (readData (ce_file ce))) \<Longrightarrow>
    first_positive_loop ieq ce is =
      Inr (case List.find (positive ieq ce) (filter (well_sized ce) (map (line_values ce) is)) of
             None \<Rightarrow> [] | Some r \<Rightarrow> r)"
proof (induction "is")
  case (Cons i "is")
  have read: "getRowValueList i (ce_file ce) = Inr (line_values ce i)"
    using Cons.prems by (intro read_line ok(2,3)) auto
  show ?case
  proof (cases "well_sized ce (line_values ce i)")
    case True
    then have "vec_at (line_values ce i) (targetCol ce) = Inr (line_values ce i ! nat (targetCol ce))"
      using ok(1) by (simp add: vec_at_def ce_ok_def well_sized_def)
    then show ?thesis
      using Cons True read sized_int [OF ok(1)] by (simp add: positive_def)
  qed (use Cons read sized_int [OF ok(1)] in simp)
qed simp

lemma learn_start [simp]: "learn ieq row (ce\<lparr>ce_start := x\<rparr>) = (learn ieq row ce)\<lparr>ce_start := x\<rparr>"
  by (simp add: learn_def positive_def Let_def)

lemma fold_learn_start [simp]:
  "fold (learn ieq) rows (ce\<lparr>ce_start := x\<rparr>) = (fold (learn ieq) rows ce)\<lparr>ce_start := x\<rparr>"
  by (induction rows arbitrary: ce) simp_all

lemma ce_run_rest:
  assumes "startSet ce" and "ce_ok ce" and "ce_file_ok ce" and "nat (ce_end ce - ce_start ce + 1) < n"
  shows "\<exists>ce'. ce_run n ieq ce = Some (Inr ce') \<and> ce_result ce' = ce_result (fold (learn ieq) (ce_rows ce) ce)"
  using assms
proof (induction n arbitrary: ce)
  case (Suc n)
  show ?case
  proof (cases "ce_start ce \<le> ce_end ce")
    case False
    then show ?thesis
      using Suc.prems(1) by (simp add: candidate_elimination_start_def getNextRow_def ce_rows_def)
  next
    case True
    let ?ce = "ce\<lparr>ce_start := ce_start ce + 1\<rparr>" and ?row = "line_values ce (ce_start ce)"
    have rows: "ce_rows ce = (if well_sized ce ?row then [?row] else []) @ ce_rows ?ce"
      using True by (simp add: ce_rows_def upto_rec1 line_values_def [abs_def] well_sized_def [abs_def])
    have read: "getRowValueList (ce_start ce) (ce_file ?ce) = Inr ?row"
      using Suc.prems(3) True by (simp add: ce_file_ok_def read_line)
    have pos: "\<not> ce_start ce < 0" using Suc.prems(3) by (simp add: ce_file_ok_def)
    have fuel: "nat (ce_end ce - (ce_start ce + 1) + 1) < n" using Suc.prems(4) True by simp
    have ok: "ce_ok ?ce" "ce_file_ok ?ce"
      using Suc.prems(2,3) by (auto simp: ce_ok_def ce_file_ok_def)
    show ?thesis
    proof (cases "well_sized ce ?row")
      case False
      then have "ce_run (Suc n) ieq ce = ce_run n ieq ?ce"
        using Suc.prems(1,2) read pos True sized_int [OF ok(1)]
        by (simp add: candidate_elimination_start_def getNextRow_def well_sized_def)
      moreover have "ce_result (fold (learn ieq) (ce_rows ce) ce) = ce_result (fold (learn ieq) (ce_rows ?ce) ?ce)"
        using rows False by (simp add: ce_result_def)
      ultimately show ?thesis using Suc.IH [of ?ce] Suc.prems(1) ok fuel by simp
    next
      case sized: True
      let ?next = "learn ieq ?row ?ce"
      have "compare ieq ?row ?ce = Inr ?next"
        using ok(1) sized by (intro compare_learn) (simp_all add: well_sized_def)
      then have "ce_run (Suc n) ieq ce = ce_run n ieq ?next"
        using Suc.prems(1,2) read pos True sized sized_int [OF ok(1)]
        by (simp add: candidate_elimination_start_def getNextRow_def well_sized_def)
      moreover have "ce_rows ?next = ce_rows ?ce"
        by (simp add: ce_rows_def line_values_def [abs_def] well_sized_def [abs_def])
      then have "ce_result (fold (learn ieq) (ce_rows ce) ce) = ce_result (fold (learn ieq) (ce_rows ?next) ?next)"
        using rows sized by (simp add: ce_result_def)
      moreover have "ce_ok ?next" "ce_file_ok ?next"
        using learn_ok [OF ok(1)] ok(2) by (simp_all add: ce_file_ok_def)
      ultimately show ?thesis using Suc.IH [of ?next] Suc.prems(1) fuel by simp
    qed
  qed
qed simp

lemma positive_learn [simp]: "positive ieq (learn ieq r ce) = positive ieq ce"
  by (simp add: positive_def [abs_def])

lemma learn_counts:
  "totalPositives (learn ieq row ce) = totalPositives ce + (if positive ieq ce row then 1 else 0)"
  "totalNegatives (learn ieq row ce) = totalNegatives ce + (if positive ieq ce row then 0 else 1)"
  by (simp_all add: learn_def Let_def)

lemma fold_learn_counts:
  "totalPositives (fold (learn ieq) rows ce) = totalPositives ce + int (length (filter (positive ieq ce) rows))"
  "totalNegatives (fold (learn ieq) rows ce) = totalNegatives ce + int (length (filter (\<lambda>r. \<not> positive ieq ce r) rows))"
proof (induction rows arbitrary: ce)
  case (Cons r rows)
  { case 1 show ?case using Cons(1) [of "learn ieq r ce"] by (simp add: learn_counts) }
  { case 2 show ?case using Cons(2) [of "learn ieq r ce"] by (simp add: learn_counts) }
qed simp_all

lemma fold_learn_s:
  assumes "ce_ok ce" and "j < nat (ce_columns ce)" and "a \<noteq> ''*''" and "ce_s ce ! j = (if ok then a else ''?'')"
  shows "ce_s (fold (learn ieq) rows ce) ! j =
    (if ok \<and> (\<forall>r \<in> set rows. positive ieq ce r \<longrightarrow> ieq a (r ! j)) then a else ''?'')"
  using assms
proof (induction rows arbitrary: ce ok)
  case (Cons r rows)
  let ?ok = "ok \<and> (positive ieq ce r \<longrightarrow> ieq a (r ! j))"
  have "ce_s (learn ieq r ce) ! j = (if ?ok then a else ''?'')"
    using Cons.prems
    by (auto simp: learn_def learn_step_def positive_step_def negative_step_def Let_def)
  then have "ce_s (fold (learn ieq) rows (learn ieq r ce)) ! j =
      (if ?ok \<and> (\<forall>r' \<in> set rows. positive ieq (learn ieq r ce) r' \<longrightarrow> ieq a (r' ! j)) then a else ''?'')"
    using Cons.prems learn_ok by (intro Cons.IH) auto
  then show ?case by auto
qed simp

lemma find_filter: "List.find P xs = (case filter P xs of [] \<Rightarrow> None | x # _ \<Rightarrow> Some x)"
  by (induction xs) auto

definition ce_fresh :: "CandidateElimination \<Rightarrow> bool" where
  "ce_fresh ce \<longleftrightarrow> ce_ok ce \<and> ce_file_ok ce \<and> \<not> startSet ce \<and> totalPositives ce = 0 \<and> totalNegatives ce = 0 \<and>
     ce_s ce = replicate (nat (ce_columns ce)) ''*'' \<and> ce_g ce = replicate (nat (ce_columns ce)) ''*''"

lemma getFirstPostive_eq:
  assumes "ce_fresh ce"
  shows "getFirstPostive ieq ce = Inr (case filter (positive ieq ce) (ce_rows ce) of [] \<Rightarrow> [] | r # _ \<Rightarrow> r)"
proof -
  have "\<forall>i \<in> set [ce_start ce..ce_end ce]. 0 \<le> i \<and> i < int (length (readData (ce_file ce)))"
    using assms by (auto simp: ce_fresh_def ce_file_ok_def)
  then have "getFirstPostive ieq ce = Inr (case List.find (positive ieq ce) (ce_rows ce) of None \<Rightarrow> [] | Some r \<Rightarrow> r)"
    using assms first_positive_eq [of ce]
    by (simp add: getFirstPostive_def ce_rows_def ce_fresh_def ce_file_ok_def)
  then show ?thesis by (simp add: find_filter split: list.splits)
qed


text \<open>A chunk without a positive example is given up at the first call: its result reports
  -1 positive and 0 negative examples, however many negative rows it has, and a hypothesis of
  stars.\<close>

theorem ce_without_positives:
  assumes "ce_fresh ce" and "filter (positive ieq ce) (ce_rows ce) = []"
  shows "ce_run 1 ieq ce = Some (Inr ce) \<and> res_totalPositives (ce_result ce) = - 1 \<and>
     res_totalNegatives (ce_result ce) = 0 \<and> res_s (ce_result ce) = replicate (nat (ce_columns ce)) ''*''"
proof -
  have "candidate_elimination_start ieq ce = Inr (JOB_DONE, ce)"
    using assms getFirstPostive_eq [OF assms(1), of ieq]
    by (simp add: candidate_elimination_start_def ce_fresh_def)
  then show ?thesis using assms(1) by (simp add: ce_result_def ce_fresh_def)
qed

subsection \<open>A concrete chunk\<close>

definition weather_ce :: CandidateElimination where
  "weather_ce = \<lparr>ce_columns = 2, targetCol = 2, totalPositives = 0, totalNegatives = 0,
     ce_s = [''*'', ''*''], ce_g = [''*'', ''*''], confirmValue = ''Yes'', ce_start = 1, ce_end = 3,
     startSet = False, ce_tableId = ''T1'',
     ce_file = \<lparr>accessMode = READ_FILE, readWriteData = [],
       readData = [''Sky,Air,Play'', ''Sunny,Warm,Yes'', ''Rainy,Cold,No'', ''Sunny,Cold,Yes''],
       fileName = ''T1.csv'', dataModified = False, fileDeleted = False\<rparr>\<rparr>"

lemma weather_rows:
  "ce_rows weather_ce = [[''Sunny'', ''Warm'', ''Yes''], [''Rainy'', ''Cold'', ''No''], [''Sunny'', ''Cold'', ''Yes'']]"
  by code_simp

lemma weather_fresh: "ce_fresh weather_ce"
  by (simp add: ce_fresh_def ce_ok_def ce_file_ok_def weather_ce_def numeral_eq_Suc)


theorem ce_without_positives_witness:
  "ce_run 1 (=) (weather_ce\<lparr>ce_start := 2, ce_end := 2\<rparr>) = Some (Inr (weather_ce\<lparr>ce_start := 2, ce_end := 2\<rparr>)) \<and>
   res_totalPositives (ce_result (weather_ce\<lparr>ce_start := 2, ce_end := 2\<rparr>)) = - 1"
proof -
  let ?ce = "weather_ce\<lparr>ce_start := 2, ce_end := 2\<rparr>"
  have "ce_fresh ?ce"
    by (simp add: ce_fresh_def ce_ok_def ce_file_ok_def weather_ce_def numeral_eq_Suc)
  moreover have "filter (positive (=) ?ce) (ce_rows ?ce) = []" by code_simp
  ultimately show ?thesis using ce_without_positives [of ?ce "(=)"] by blast
qed

end
