(* ===== verification/Ce_Finalize.thy ===== *)
theory Ce_Finalize
  imports Candidate_Elimination
begin

section \<open>Joining the results of the chunks: algorithm/ce\_finalize.hpp and .cpp\<close>

text \<open>
  \<open>CeFinalize\<close> folds the results of all chunks of a table into one and prints it. The result
  objects are handed over by pointer and not shared any more, so they are kept by value.
\<close>

record CeFinalize =
  fin_totalPositves :: int
  fin_totalNegatives :: int
  resultVectors :: "CeResultExportObject list"
  fin_s :: "string list"
  fin_g :: "string list"
  fin_tableId :: string
  fin_taskPriority :: TaskPriority

definition new_CeFinalize :: "CeResultExportObject list \<Rightarrow> string \<Rightarrow> TaskPriority \<Rightarrow> CeFinalize" where
  "new_CeFinalize results tid prio =
     \<lparr>fin_totalPositves = 0, fin_totalNegatives = 0, resultVectors = results, fin_s = [], fin_g = [],
      fin_tableId = tid, fin_taskPriority = prio\<rparr>"

text \<open>One vector against another, entry by entry.\<close>

fun blur_loop :: "string list \<Rightarrow> nat list \<Rightarrow> string list \<Rightarrow> string list result" where
  "blur_loop res [] s = Inr s"
| "blur_loop res (j # js) s =
     bindR (vec_at res (int j)) (\<lambda>r.
     bindR (vec_at s (int j)) (\<lambda>x. blur_loop res js (if r \<noteq> x then s[j := ''?''] else s)))"

fun aggregate_loop :: "bool \<Rightarrow> CeResultExportObject list \<Rightarrow> CeFinalize \<Rightarrow> CeFinalize result" where
  "aggregate_loop start [] f = Inr f"
| "aggregate_loop start (res # results) f =
     (let f1 = f\<lparr>fin_totalPositves := fin_totalPositves f + res_totalPositives res,
                 fin_totalNegatives := fin_totalNegatives f + res_totalNegatives res\<rparr> in
      if \<not> start
      then let f2 = f1\<lparr>fin_s := res_s res, fin_g := res_g res\<rparr> in
           bindR (vec_at (fin_s f2) 0) (\<lambda>s0. aggregate_loop (s0 \<noteq> ''*'') results f2)
      else bindR (blur_loop (res_s res) [0..<nat (res_totalColumns res)] (fin_s f1)) (\<lambda>s.
           bindR (blur_loop (res_g res) [0..<nat (res_totalColumns res)] (fin_g f1)) (\<lambda>g.
             aggregate_loop True results (f1\<lparr>fin_s := s, fin_g := g\<rparr>))))"

definition aggrigateResults :: "CeFinalize \<Rightarrow> CeFinalize result" where
  "aggrigateResults f = aggregate_loop False (resultVectors f) f"

text \<open>\<open>s.size() - 1\<close> of an empty vector is a very large number: the loop leaves the vector.\<close>

definition comma_list :: "string list \<Rightarrow> string result" where
  "comma_list s = (if s = [] then Inl OutOfRange
     else Inr (concat (map (\<lambda>x. x @ '','') (butlast s)) @ last s @ '':''))"

definition getFinalResult :: "CeFinalize \<Rightarrow> string result" where
  "getFinalResult f =
     bindR (comma_list (fin_s f)) (\<lambda>s. bindR (comma_list (fin_g f)) (\<lambda>g.
       Inr (s @ g @ int_string (fin_totalPositves f) @ '':'' @ int_string (fin_totalNegatives f))))"

text \<open>The statement \<open>JOB_FAILED;\<close> for a null argument has no effect: the object is used anyway.\<close>

definition ce_finalize_start_process :: "CeFinalize option \<Rightarrow> (JobStatus \<times> CeFinalize) result" where
  "ce_finalize_start_process data =
     (case data of None \<Rightarrow> Inl NullPointer | Some f \<Rightarrow> bindR (aggrigateResults f) (\<lambda>f'. Inr (JOB_DONE, f')))"

definition ce_finalize_pause_process :: JobStatus where
  "ce_finalize_pause_process = JOB_DONE"

subsection \<open>Aggregation\<close>

lemma blur_loop_eq:
  assumes "n \<le> length res" and "n \<le> length s"
  shows "blur_loop res [0..<n] s =
    Inr (map (\<lambda>j. if res ! j = s ! j then s ! j else ''?'') [0..<n] @ drop n s)"
proof -
  have "blur_loop res [k..<n] s = Inr (take k s @ map (\<lambda>j. if res ! j = s ! j then s ! j else ''?'') [k..<n] @ drop n s)"
    if "k \<le> n" "n \<le> length s" for k s
    using that
  proof (induction "n - k" arbitrary: k s)
    case (Suc m)
    then have k: "k < n" "[k..<n] = k # [Suc k..<n]" by (auto simp: upt_conv_Cons)
    let ?s = "s[k := if res ! k = s ! k then s ! k else ''?'']"
    have s: "(if res ! k \<noteq> s ! k then s[k := ''?''] else s) = ?s" by simp
    have "blur_loop res [Suc k..<n] ?s =
        Inr (take (Suc k) ?s @ map (\<lambda>j. if res ! j = ?s ! j then ?s ! j else ''?'') [Suc k..<n] @ drop n ?s)"
      using Suc k by (intro Suc.hyps(1)) auto
    moreover have "map (\<lambda>j. if res ! j = ?s ! j then ?s ! j else ''?'') [Suc k..<n] =
        map (\<lambda>j. if res ! j = s ! j then s ! j else ''?'') [Suc k..<n]"
      by (intro map_cong) auto
    ultimately show ?case
      using Suc.prems assms(1) k by (simp add: vec_at_def take_Suc_conv_app_nth s del: if_not_P)
  qed simp
  from this [of 0 s] show ?thesis using assms by simp
qed

definition result_ok :: "nat \<Rightarrow> CeResultExportObject \<Rightarrow> bool" where
  "result_ok n r \<longleftrightarrow> res_totalColumns r = int n \<and> length (res_s r) = n \<and> length (res_g r) = n"

text \<open>What the vectors become once a chunk with a value has been seen.\<close>

definition blur :: "string list list \<Rightarrow> string list \<Rightarrow> string list" where
  "blur rs s = map (\<lambda>j. if \<forall>r \<in> set rs. r ! j = s ! j then s ! j else ''?'') [0..<length s]"

lemma blur_Cons: "length r = length s \<Longrightarrow>
  blur (r # rs) s = blur rs (map (\<lambda>j. if r ! j = s ! j then s ! j else ''?'') [0..<length s])"
  if "\<forall>r' \<in> set rs. length r' = length s"
  by (auto simp: blur_def intro!: map_cong)

lemma blur_Nil: "blur [] s = s"
  by (simp add: blur_def map_nth)

lemma aggregate_started:
  assumes "\<forall>r \<in> set rs. result_ok n r" and "length (fin_s f) = n" and "length (fin_g f) = n"
  shows "\<exists>f'. aggregate_loop True rs f = Inr f' \<and> fin_s f' = blur (map res_s rs) (fin_s f) \<and>
     fin_g f' = blur (map res_g rs) (fin_g f) \<and>
     fin_totalPositves f' = fin_totalPositves f + (\<Sum>r\<leftarrow>rs. res_totalPositives r) \<and>
     fin_totalNegatives f' = fin_totalNegatives f + (\<Sum>r\<leftarrow>rs. res_totalNegatives r)"
  using assms
proof (induction rs arbitrary: f)
  case Nil
  then show ?case by (simp add: blur_Nil)
next
  case (Cons r rs)
  let ?s = "map (\<lambda>j. if res_s r ! j = fin_s f ! j then fin_s f ! j else ''?'') [0..<n]"
  let ?g = "map (\<lambda>j. if res_g r ! j = fin_g f ! j then fin_g f ! j else ''?'') [0..<n]"
  let ?f = "f\<lparr>fin_totalPositves := fin_totalPositves f + res_totalPositives r,
    fin_totalNegatives := fin_totalNegatives f + res_totalNegatives r, fin_s := ?s, fin_g := ?g\<rparr>"
  have r: "res_totalColumns r = int n" "length (res_s r) = n" "length (res_g r) = n"
    using Cons.prems(1) by (auto simp: result_ok_def)
  have "aggregate_loop True (r # rs) f = aggregate_loop True rs ?f"
    using r Cons.prems by (simp add: blur_loop_eq)
  moreover have "blur (map res_s (r # rs)) (fin_s f) = blur (map res_s rs) ?s"
    "blur (map res_g (r # rs)) (fin_g f) = blur (map res_g rs) ?g"
    using r Cons.prems blur_Cons [of "map res_s rs" "fin_s f" "res_s r"] blur_Cons [of "map res_g rs" "fin_g f" "res_g r"]
    by (auto simp: result_ok_def)
  moreover have "\<exists>f'. aggregate_loop True rs ?f = Inr f' \<and> fin_s f' = blur (map res_s rs) ?s \<and>
     fin_g f' = blur (map res_g rs) ?g \<and>
     fin_totalPositves f' = fin_totalPositves f + res_totalPositives r + (\<Sum>r\<leftarrow>rs. res_totalPositives r) \<and>
     fin_totalNegatives f' = fin_totalNegatives f + res_totalNegatives r + (\<Sum>r\<leftarrow>rs. res_totalNegatives r)"
    using Cons.IH [of ?f] Cons.prems by simp
  ultimately show ?case by (simp del: aggregate_loop.simps add: add.assoc)
qed

lemma aggregate_stars:
  assumes "\<forall>r \<in> set stars. result_ok n r \<and> res_s r ! 0 = ''*''" and "0 < n"
  shows "\<exists>f'. aggregate_loop False (stars @ rs) f = aggregate_loop False rs f' \<and>
     fin_totalPositves f' = fin_totalPositves f + (\<Sum>r\<leftarrow>stars. res_totalPositives r) \<and>
     fin_totalNegatives f' = fin_totalNegatives f + (\<Sum>r\<leftarrow>stars. res_totalNegatives r)"
  using assms(1)
proof (induction stars arbitrary: f)
  case Nil
  then show ?case by (intro exI [of _ f]) simp
next
  case (Cons r stars)
  let ?f = "f\<lparr>fin_totalPositves := fin_totalPositves f + res_totalPositives r,
    fin_totalNegatives := fin_totalNegatives f + res_totalNegatives r, fin_s := res_s r, fin_g := res_g r\<rparr>"
  have "vec_at (res_s r) 0 = Inr (''*'')"
    using Cons.prems assms(2) by (auto simp: vec_at_def result_ok_def)
  then have "aggregate_loop False ((r # stars) @ rs) f = aggregate_loop False (stars @ rs) ?f"
    by (simp add: Let_def)
  then show ?case using Cons.IH [of ?f] Cons.prems by auto
qed

text \<open>C15: Joining results of one width: the counts are the sums over all chunks; the hypothesis
  is that of the first chunk that has one, with \<open>?\<close> at every attribute where a later chunk
  differs. A later chunk without positive examples, whose hypothesis is all stars, differs
  everywhere, so it turns every attribute into \<open>?\<close>, and it takes one off the count of positives.\<close>

theorem aggregation_outcome:
  assumes "resultVectors f = stars @ r # rs" and "\<forall>r \<in> set (resultVectors f). result_ok n r" and "0 < n"
    and "\<forall>q \<in> set stars. res_s q ! 0 = ''*''" and "res_s r ! 0 \<noteq> ''*''"
  shows "\<exists>f'. aggrigateResults f = Inr f' \<and>
     fin_totalPositves f' = fin_totalPositves f + (\<Sum>q\<leftarrow>resultVectors f. res_totalPositives q) \<and>
     fin_totalNegatives f' = fin_totalNegatives f + (\<Sum>q\<leftarrow>resultVectors f. res_totalNegatives q) \<and>
     (\<forall>j < n. fin_s f' ! j = (if \<forall>q \<in> set rs. res_s q ! j = res_s r ! j then res_s r ! j else ''?''))"
proof -
  have "\<forall>q \<in> set stars. result_ok n q \<and> res_s q ! 0 = ''*''" using assms(1,2,4) by auto
  then obtain f1 where f1: "aggregate_loop False (stars @ r # rs) f = aggregate_loop False (r # rs) f1"
      "fin_totalPositves f1 = fin_totalPositves f + (\<Sum>r\<leftarrow>stars. res_totalPositives r)"
      "fin_totalNegatives f1 = fin_totalNegatives f + (\<Sum>r\<leftarrow>stars. res_totalNegatives r)"
    using aggregate_stars [of stars n "r # rs" f] assms(3) by blast
  let ?f = "f1\<lparr>fin_totalPositves := fin_totalPositves f1 + res_totalPositives r,
    fin_totalNegatives := fin_totalNegatives f1 + res_totalNegatives r, fin_s := res_s r, fin_g := res_g r\<rparr>"
  have r: "length (res_s r) = n" "length (res_g r) = n" and rs: "\<forall>q \<in> set rs. result_ok n q"
    using assms(1,2) by (auto simp: result_ok_def)
  have "vec_at (res_s r) 0 = Inr (res_s r ! 0)" using r assms(3) by (auto simp: vec_at_def)
  then have "aggregate_loop False (r # rs) f1 = aggregate_loop True rs ?f"
    using assms(5) by (simp add: Let_def)
  moreover obtain f' where "aggregate_loop True rs ?f = Inr f'" "fin_s f' = blur (map res_s rs) (res_s r)"
      "fin_totalPositves f' = fin_totalPositves ?f + (\<Sum>r\<leftarrow>rs. res_totalPositives r)"
      "fin_totalNegatives f' = fin_totalNegatives ?f + (\<Sum>r\<leftarrow>rs. res_totalNegatives r)"
    using aggregate_started [OF rs, of ?f] r by auto
  ultimately show ?thesis
    using f1 r assms(1) by (auto simp: aggrigateResults_def blur_def)
qed

definition chunk_results :: "CeResultExportObject list" where
  "chunk_results =
     [\<lparr>res_totalColumns = 2, res_totalPositives = 2, res_totalNegatives = 1, res_s = [''sunny'', ''warm''], res_g = [''?'', ''?'']\<rparr>,
      \<lparr>res_totalColumns = 2, res_totalPositives = 1, res_totalNegatives = 0, res_s = [''sunny'', ''cold''], res_g = [''?'', ''?'']\<rparr>]"

theorem aggregation_outcome_witness:
  "\<exists>f'. aggrigateResults (new_CeFinalize chunk_results ''T1'' HIGH_PRIORITY) = Inr f' \<and>
     fin_totalPositves f' = 3 \<and> fin_totalNegatives f' = 1 \<and> fin_s f' ! 0 = ''sunny'' \<and> fin_s f' ! 1 = ''?''"
proof -
  obtain f' where "aggrigateResults (new_CeFinalize chunk_results ''T1'' HIGH_PRIORITY) = Inr f'"
     "fin_totalPositves f' = 0 + (\<Sum>q\<leftarrow>chunk_results. res_totalPositives q)"
     "fin_totalNegatives f' = 0 + (\<Sum>q\<leftarrow>chunk_results. res_totalNegatives q)"
     "\<forall>j < 2. fin_s f' ! j = (if \<forall>q \<in> set (tl chunk_results). res_s q ! j = res_s (hd chunk_results) ! j
         then res_s (hd chunk_results) ! j else ''?'')"
    using aggregation_outcome [of "new_CeFinalize chunk_results ''T1'' HIGH_PRIORITY" "[]" "hd chunk_results" "tl chunk_results" 2]
    by (auto simp: chunk_results_def new_CeFinalize_def result_ok_def)
  then show ?thesis
    by (intro exI [of _ f']) (auto simp: chunk_results_def)
qed

end
