(* ===== verification/Worker_State.thy ===== *)
theory Worker_State
  imports Sender Data_Validator Ce_Finalize Task_Pool
begin

section \<open>The state the stages of the worker share\<close>

text \<open>
  The globals of main.cpp that the stages read and write, the objects a stage is given as its
  \<open>void *\<close> argument, and the stage structs. Objects live in one heap per class with a common
  counter for fresh addresses; an address of one class is dangling in the heap of another.
  Addresses are not reused. What is not code of the repository is collected in \<open>platform\<close>:
  which files can be written, \<open>sqlite3_exec\<close>, \<open>boost::iequals\<close>, and the byte in front of a
  string's buffer.
\<close>

subsection \<open>Configuration: configs.hpp\<close>

record Configs =
  totalAvailableThreads :: int
  hostName :: string
  portNumber :: string
  cfg_workerId :: string

definition new_Configs :: "int \<Rightarrow> string \<Rightarrow> string \<Rightarrow> Configs" where
  "new_Configs n host port = \<lparr>totalAvailableThreads = n, hostName = host, portNumber = port, cfg_workerId = []\<rparr>"

definition getTotalThreadCount :: "Configs \<Rightarrow> int" where "getTotalThreadCount c = totalAvailableThreads c"
definition getHostName :: "Configs \<Rightarrow> string" where "getHostName c = hostName c"
definition getPortNumber :: "Configs \<Rightarrow> string" where "getPortNumber c = portNumber c"
definition getWorkerId :: "Configs \<Rightarrow> string" where "getWorkerId c = cfg_workerId c"
definition setWorkerId :: "string \<Rightarrow> Configs \<Rightarrow> Configs" where "setWorkerId i c = c\<lparr>cfg_workerId := i\<rparr>"

lemmas config_defs = getTotalThreadCount_def getHostName_def getPortNumber_def getWorkerId_def setWorkerId_def
  new_Configs_def

subsection \<open>The stages\<close>

datatype stage =
    receiver_proc
  | data_proc
  | clean_proc
  | valdiate_data_process
  | ce_algorithm
  | ce_finalize_proc
  | example_proc

subsection \<open>The objects of the stages\<close>

text \<open>\<open>DataProcessContainer\<close>: the pointer is not initialised before a table has been built.\<close>

record DataProcessContainer =
  tData :: "ptr option"

datatype ReceiverStatus = P_EMPTY | P_OK | SND_RESET | P_ERROR | P_DAT_ERR | P_SUCCESS | P_VALID

record Receiver =
  rc_packet :: json
  rc_tableId :: string
  isUserData :: Flag
  dataProcContainer :: DataProcessContainer

record DataProcessor =
  dp_instanceData :: "ptr option"
  initDone :: Flag
  dataCleanPhase :: Flag
  curRow :: "64 word"
  dp_tableData :: "ptr option"
  dp_file :: "FileDataBaseAccess option"
  colHeaders :: "string list"
  dp_errorString :: string

record DataCleaner =
  dc_iterator :: int
  dc_file :: FileDataBaseAccess
  dc_tableData :: ptr
  dc_instance :: ptr

record AlgorithmPackage =
  ap_tableData :: ptr
  ap_resultVectors :: "CeResultExportObject list"

subsection \<open>The world\<close>

record 'db world =
  w_config :: Configs
  w_files :: files
  w_db :: 'db
  w_instances :: "Instance list"
  w_models :: "InstanceModel list"
  w_draws :: "nat \<Rightarrow> nat"
  w_sender :: SenderSink
  w_cleanStageMap :: "ptr \<rightharpoonup> int"
  w_algorithmResultMap :: "string \<rightharpoonup> AlgorithmPackage"
  w_tables :: "ptr \<rightharpoonup> TableData"
  w_instanceData :: "ptr \<rightharpoonup> InstanceData"
  w_receivers :: "ptr \<rightharpoonup> Receiver"
  w_processors :: "ptr \<rightharpoonup> DataProcessor"
  w_cleaners :: "ptr \<rightharpoonup> DataCleaner"
  w_validators :: "ptr \<rightharpoonup> ValidateData"
  w_ces :: "ptr \<rightharpoonup> CandidateElimination"
  w_finals :: "ptr \<rightharpoonup> CeFinalize"
  w_fresh :: ptr

record 'db platform =
  pf_writable :: "string \<Rightarrow> bool"
  pf_exec :: "'db sql_exec"
  pf_iequals :: "string \<Rightarrow> string \<Rightarrow> bool"
  pf_before :: char

definition threads :: "'db world \<Rightarrow> int" where
  "threads w = getTotalThreadCount (w_config w)"

lemma threads_update [simp]:
  "threads (w\<lparr>w_files := x0\<rparr>) = threads w"
  "threads (w\<lparr>w_db := x1\<rparr>) = threads w"
  "threads (w\<lparr>w_instances := x2\<rparr>) = threads w"
  "threads (w\<lparr>w_models := x3\<rparr>) = threads w"
  "threads (w\<lparr>w_draws := x4\<rparr>) = threads w"
  "threads (w\<lparr>w_sender := x5\<rparr>) = threads w"
  "threads (w\<lparr>w_cleanStageMap := x6\<rparr>) = threads w"
  "threads (w\<lparr>w_algorithmResultMap := x7\<rparr>) = threads w"
  "threads (w\<lparr>w_tables := x8\<rparr>) = threads w"
  "threads (w\<lparr>w_instanceData := x9\<rparr>) = threads w"
  "threads (w\<lparr>w_receivers := x10\<rparr>) = threads w"
  "threads (w\<lparr>w_processors := x11\<rparr>) = threads w"
  "threads (w\<lparr>w_cleaners := x12\<rparr>) = threads w"
  "threads (w\<lparr>w_validators := x13\<rparr>) = threads w"
  "threads (w\<lparr>w_ces := x14\<rparr>) = threads w"
  "threads (w\<lparr>w_finals := x15\<rparr>) = threads w"
  "threads (w\<lparr>w_fresh := x16\<rparr>) = threads w"
  by (simp_all add: threads_def)

text \<open>\<open>senderSink.pushPacket\<close>.\<close>

definition send :: "string \<Rightarrow> string \<Rightarrow> SenderDataType \<Rightarrow> TaskPriority \<Rightarrow> 'db world \<Rightarrow> ('db world) result" where
  "send dat tid st prio w =
     bindR (pushPacket dat tid st prio (w_sender w)) (\<lambda>(_, sink). Inr (w\<lparr>w_sender := sink\<rparr>))"

text \<open>The packages waiting to be sent, in the order of the queue.\<close>

definition outbox :: "'db world \<Rightarrow> (SenderDataType \<times> string \<times> string) list" where
  "outbox w = sink_view (w_sender w)"

text \<open>The table an object refers to.\<close>

definition table_at :: "'db world \<Rightarrow> ptr option \<Rightarrow> TableData result" where
  "table_at w p = deref (w_tables w) p"

definition linked_algorithm :: "'db world \<Rightarrow> TableData \<Rightarrow> int" where
  "linked_algorithm w td = uint (getLinkedAlgorithm (getInstanceFromId (instanceType td) (w_instances w)))"

type_synonym 'db handler_end = "('db world \<times> (stage, ptr) submission list) result"
type_synonym 'db handler_start = "(JobStatus \<times> 'db world) result"

subsection \<open>A small worker\<close>

text \<open>A worker with two threads, one instance and one table of four lines, for concrete checks.\<close>

definition play_db :: "unit sql_exec" where
  "play_db cmd db =
     (0, (if take 8 cmd = ''SELECT *'' then [([Some ''Sunny'', Some ''Yes'', Some ''1''], [''Sky'', ''Play'', ''ID''])]
          else if take 11 cmd = ''SELECT Sky '' then [([Some ''Sunny''], [''Sky'']), ([Some ''Rainy''], [''Sky''])]
          else if take 12 cmd = ''SELECT Play '' then [([Some ''Yes''], [''Play'']), ([Some ''No''], [''Play''])]
          else []), ())"

definition play_platform :: "unit platform" where
  "play_platform = \<lparr>pf_writable = (\<lambda>_. True), pf_exec = play_db, pf_iequals = (=),
     pf_before = CHR 0x00\<rparr>"

definition play_table :: TableData where
  "play_table = \<lparr>metadata = new_TableMetadata 4 2, tableID = ''T1'', td_priority = MEDIUM_PRIORITY,
     instanceType = ''Weather_aaaaa''\<rparr>"

definition play_file :: string where
  "play_file = concat (map (\<lambda>r. r @ [newline]) [''Sky,Play'', ''Sunny,Yes'', ''Rainy,No'', ''Sunny,No'', ''Rainy,Yes''])"

definition small_world :: "'db \<Rightarrow> 'db world" where
  "small_world db = \<lparr>w_config = new_Configs 2 ''localhost'' ''8080'', w_files = [''T1.csv'' \<mapsto> play_file], w_db = db,
     w_instances = [new_Instance ''Weather_aaaaa'' 1 2 2], w_models = [new_InstanceModel ''Weather'' ''Weather_aaaaa''],
     w_draws = (\<lambda>k. 0), w_sender = new_SenderSink, w_cleanStageMap = Map.empty, w_algorithmResultMap = Map.empty,
     w_tables = [0 \<mapsto> play_table], w_instanceData = Map.empty, w_receivers = Map.empty, w_processors = Map.empty,
     w_cleaners = Map.empty, w_validators = Map.empty, w_ces = Map.empty, w_finals = Map.empty, w_fresh = 1\<rparr>"

definition play_world :: "unit world" where
  "play_world = small_world ()"

lemmas play_world_defs = play_world_def small_world_def

lemma play_threads [simp]: "threads play_world = 2"
  by (simp add: threads_def play_world_defs config_defs)

lemma play_tables [simp]: "w_tables play_world 0 = Some play_table"
  by (simp add: play_world_defs)

lemma play_linked [simp]: "linked_algorithm play_world play_table = 1"
  by (simp add: linked_algorithm_def play_world_defs play_table_def getId_def getLinkedAlgorithm_def new_Instance_def)

end
