(* ===== verification/Barrier.thy ===== *)
theory Barrier
  imports Prelude
begin

section \<open>Interface: a counter that fires with the last arrival\<close>

text \<open>
  The worker waits twice for all threads to have finished their part of a table, and then
  submits what comes next: the tracker counts validators, the algorithm scheduler collects
  results. \<open>arrive\<close> is the call a finished part makes, \<open>mark\<close> what it does when others are
  still missing.
\<close>

fun arrivals :: "('r \<Rightarrow> 'w \<Rightarrow> ('w \<times> 's list) result) \<Rightarrow> 'r list \<Rightarrow> 'w \<Rightarrow> ('w \<times> 's list) result" where
  "arrivals arrive [] w = Inr (w, [])"
| "arrivals arrive (r # rs) w =
     bindR (arrive r w) (\<lambda>(w1, subs). bindR (arrivals arrive rs w1) (\<lambda>(w2, subs'). Inr (w2, subs @ subs')))"

lemma arrivals_append:
  "arrivals arrive (xs @ ys) w =
     bindR (arrivals arrive xs w) (\<lambda>(w1, subs). bindR (arrivals arrive ys w1) (\<lambda>(w2, subs'). Inr (w2, subs @ subs')))"
proof (induction xs arbitrary: w)
  case (Cons x xs)
  show ?case by (cases "arrive x w") (auto simp: Cons bindR_assoc bindR_def split: sum.splits)
qed (simp add: bindR_def split: sum.splits)

lemma arrivals_single [simp]: "arrivals arrive [r] w = arrive r w"
  by (cases "arrive r w") (auto simp: split_beta)

locale barrier =
  fixes waiting :: "'w \<Rightarrow> nat \<Rightarrow> bool"
    and limit :: "'w \<Rightarrow> nat"
    and arrive :: "'r \<Rightarrow> 'w \<Rightarrow> ('w \<times> 's list) result"
    and mark :: "'r \<Rightarrow> 'w \<Rightarrow> 'w"
  assumes early: "waiting w n \<Longrightarrow> Suc n < limit w \<Longrightarrow> arrive r w = Inr (mark r w, [])"
    and mark_waiting: "waiting w n \<Longrightarrow> waiting (mark r w) (Suc n)"
    and mark_limit: "waiting w n \<Longrightarrow> limit (mark r w) = limit w"
begin

lemma fold_mark: "waiting w n \<Longrightarrow> waiting (fold mark rs w) (n + length rs) \<and> limit (fold mark rs w) = limit w"
proof (induction rs arbitrary: w n)
  case (Cons r rs)
  then show ?case using Cons.IH [of "mark r w" "Suc n"] by (simp add: mark_waiting mark_limit)
qed simp

text \<open>Nothing is submitted before the last arrival.\<close>

lemma none_early:
  "waiting w n \<Longrightarrow> n + length rs < limit w \<Longrightarrow> arrivals arrive rs w = Inr (fold mark rs w, [])"
proof (induction rs arbitrary: w n)
  case (Cons r rs)
  then show ?case
    using Cons.IH [of "mark r w" "Suc n"] early [of w n r] by (simp add: mark_waiting mark_limit)
qed simp

text \<open>What all arrivals together submit is what the last one submits.\<close>

lemma last_fires:
  assumes "waiting w 0" and "length rs = limit w" and "rs \<noteq> []"
  shows "arrivals arrive rs w = arrive (last rs) (fold mark (butlast rs) w)"
proof -
  have "arrivals arrive (butlast rs) w = Inr (fold mark (butlast rs) w, [])"
    using assms by (intro none_early [of w 0]) (auto simp: length_greater_0_conv [symmetric] simp del: length_greater_0_conv)
  then have "arrivals arrive (butlast rs @ [last rs]) w = arrive (last rs) (fold mark (butlast rs) w)"
    by (cases "arrive (last rs) (fold mark (butlast rs) w)") (auto simp: arrivals_append split_beta)
  then show ?thesis using assms(3) by simp
qed

end

end
