(* ===== verification/Algorithm_Scheduler.thy ===== *)
theory Algorithm_Scheduler
  imports Worker_State Barrier
begin

section \<open>Splitting a table and collecting the results: algorithm/algorithm\_scheduler.cpp\<close>

text \<open>
  \<open>sched_algo\<close> cuts the lines of a table into one chunk per thread and submits a stage of the
  linked algorithm for each; \<open>update_algo_result\<close> collects the results and submits the final
  stage with the last one. The two algorithms are the example (example.cpp), which does
  nothing, and candidate elimination with its two stages. Calls of \<open>scheduleTask\<close> are returned
  in order; their return codes are ignored by the source.
\<close>

subsection \<open>The stages of the algorithms\<close>

definition example_start_process :: "ptr option \<Rightarrow> 'db world \<Rightarrow> 'db handler_start" where
  "example_start_process data w = Inr (JOB_DONE, w)"

definition example_pause_process :: "ptr option \<Rightarrow> 'db world \<Rightarrow> 'db handler_start" where
  "example_pause_process data w = Inr (JOB_DONE, w)"

definition example_end_process :: "ptr option \<Rightarrow> 'db world \<Rightarrow> 'db handler_end" where
  "example_end_process data w = Inr (w, [])"

text \<open>An export package is the stage and its argument.\<close>

type_synonym AlgorithmExportPackage = "stage \<times> ptr option"

definition init_example_algo ::
  "string \<Rightarrow> string \<Rightarrow> int \<Rightarrow> int \<Rightarrow> int \<Rightarrow> 'db world \<Rightarrow> (AlgorithmExportPackage \<times> 'db world) result"
where
  "init_example_algo tid iid start end columns w = Inr ((example_proc, None), w)"

definition init_example_finalize ::
  "CeResultExportObject list \<Rightarrow> string \<Rightarrow> TaskPriority \<Rightarrow> 'db world \<Rightarrow> (AlgorithmExportPackage \<times> 'db world) result"
where
  "init_example_finalize results tid prio w = Inr ((example_proc, None), w)"

definition init_ce_algorithm ::
  "'db platform \<Rightarrow> string \<Rightarrow> string \<Rightarrow> int \<Rightarrow> int \<Rightarrow> int \<Rightarrow> 'db world \<Rightarrow> (AlgorithmExportPackage \<times> 'db world) result"
where
  "init_ce_algorithm pf tid iid start end columns w =
     bindR (new_CandidateElimination (pf_exec pf) tid iid start end columns (pf_writable pf) (w_files w) (w_db w))
       (\<lambda>(ce, db'). Inr ((ce_algorithm, Some (w_fresh w)),
          w\<lparr>w_db := db', w_ces := (w_ces w)(w_fresh w \<mapsto> ce), w_fresh := Suc (w_fresh w)\<rparr>))"

definition init_ce_finalize ::
  "CeResultExportObject list \<Rightarrow> string \<Rightarrow> TaskPriority \<Rightarrow> 'db world \<Rightarrow> (AlgorithmExportPackage \<times> 'db world) result"
where
  "init_ce_finalize results tid prio w =
     Inr ((ce_finalize_proc, Some (w_fresh w)),
          w\<lparr>w_finals := (w_finals w)(w_fresh w \<mapsto> new_CeFinalize results tid prio), w_fresh := Suc (w_fresh w)\<rparr>)"

text \<open>The two tables of functions have \<open>TOT_ALGO\<close> entries and are indexed without a check.\<close>

definition TOT_ALGO :: int where "TOT_ALGO = 2"

definition avial_algo ::
  "'db platform \<Rightarrow> int \<Rightarrow> string \<Rightarrow> string \<Rightarrow> int \<Rightarrow> int \<Rightarrow> int \<Rightarrow> 'db world \<Rightarrow>
   (AlgorithmExportPackage \<times> 'db world) result"
where
  "avial_algo pf algoIndex tid iid start end columns w =
     (if algoIndex \<ge> TOT_ALGO then Inl OutOfRange
      else if algoIndex = 0 then init_example_algo tid iid start end columns w
      else init_ce_algorithm pf tid iid start end columns w)"

definition avialable_finalize_algo ::
  "int \<Rightarrow> CeResultExportObject list \<Rightarrow> string \<Rightarrow> TaskPriority \<Rightarrow> 'db world \<Rightarrow>
   (AlgorithmExportPackage \<times> 'db world) result"
where
  "avialable_finalize_algo algoIndex results tid prio w =
     (if algoIndex \<ge> TOT_ALGO then Inl OutOfRange
      else if algoIndex = 0 then init_example_finalize results tid prio w
      else init_ce_finalize results tid prio w)"

subsection \<open>Splitting\<close>

definition submit_package ::
  "AlgorithmExportPackage \<Rightarrow> TaskPriority \<Rightarrow> (stage, ptr) submission"
where
  "submit_package package prio = (Some (fst package), snd package, prio)"

text \<open>The loop over \<open>i\<close>; \<open>n\<close> is the number of lines of a chunk. It gives the next first line too.\<close>

fun split_loop ::
  "'db platform \<Rightarrow> int \<Rightarrow> TableData \<Rightarrow> int \<Rightarrow> int list \<Rightarrow> int \<Rightarrow> 'db world \<Rightarrow>
   (int \<times> 'db world \<times> (stage, ptr) submission list) result"
where
  "split_loop pf algo td n [] start w = Inr (start, w, [])"
| "split_loop pf algo td n (i # is) start w =
     bindR (avial_algo pf algo (tableID td) (instanceType td) start (n * i)
              (int32 (uint (md_columns (metadata td)))) w) (\<lambda>(package, w1).
     bindR (split_loop pf algo td n is (n * i + 1) w1) (\<lambda>(start', w2, subs).
       Inr (start', w2, submit_package package (td_priority td) # subs)))"

text \<open>\<open>std::map::insert\<close> keeps an entry that is there already.\<close>

definition register_package :: "string \<Rightarrow> ptr \<Rightarrow> 'db world \<Rightarrow> 'db world" where
  "register_package tid a w =
     (if w_algorithmResultMap w tid = None
      then w\<lparr>w_algorithmResultMap := (w_algorithmResultMap w)(tid \<mapsto> \<lparr>ap_tableData = a, ap_resultVectors = []\<rparr>)\<rparr>
      else w)"

definition sched_algo :: "'db platform \<Rightarrow> ptr option \<Rightarrow> 'db world \<Rightarrow> (int \<times> 'db world \<times> (stage, ptr) submission list) result" where
  "sched_algo pf p w =
     (case p of
        None \<Rightarrow> Inr (EXIT_FAILURE, w, [])
      | Some a \<Rightarrow> bindR (table_at w (Some a)) (\<lambda>td.
          let algoIndex = linked_algorithm w td; md = metadata td in
          if threads w = 0 then Inl DivideByZero
          else
            let n = int32 (uint (md_rows md div word_of_int (threads w))) in
            bindR (split_loop pf algoIndex td n [1..threads w - 1] 1 (register_package (tableID td) a w)) (\<lambda>(start, w2, subs).
            bindR (avial_algo pf algoIndex (tableID td) (instanceType td) start (int32 (uint (md_rows md)))
                     (int32 (uint (md_columns md))) w2) (\<lambda>(package, w3).
              Inr (0, w3, subs @ [submit_package package (td_priority td)])))))"

subsection \<open>Collecting\<close>

definition dealloc_table_dat :: "'db platform \<Rightarrow> ptr \<Rightarrow> 'db world \<Rightarrow> ('db world) result" where
  "dealloc_table_dat pf a w =
     bindR (table_at w (Some a)) (\<lambda>td.
       let d = open_database (tableID td) RW_FILE (pf_writable pf) (w_files w) in
       Inr (w\<lparr>w_files := snd (dropFile d (w_files w)), w_tables := (w_tables w)(a := None)\<rparr>))"

text \<open>The last result: submit the final stage and clean up.\<close>

definition finish_table :: "'db platform \<Rightarrow> string \<Rightarrow> AlgorithmPackage \<Rightarrow> 'db world \<Rightarrow> 'db handler_end" where
  "finish_table pf tid ap w =
     bindR (table_at w (Some (ap_tableData ap))) (\<lambda>td.
     bindR (avialable_finalize_algo (linked_algorithm w td) (ap_resultVectors ap) (tableID td) (td_priority td) w)
       (\<lambda>(package, w1).
     let w2 = w1\<lparr>w_models := dereferenceInstance (tableID td) (w_models w1)\<rparr> in
     bindR (dealloc_table_dat pf (ap_tableData ap) w2) (\<lambda>w3.
       Inr (w3\<lparr>w_algorithmResultMap := (w_algorithmResultMap w3)(tid := None)\<rparr>,
            [submit_package package NON_PREEMTABLE]))))"

definition update_algo_result ::
  "'db platform \<Rightarrow> string \<Rightarrow> CeResultExportObject \<Rightarrow> 'db world \<Rightarrow> (int \<times> 'db world \<times> (stage, ptr) submission list) result"
where
  "update_algo_result pf tid res w =
     (if tid = [] then Inr (EXIT_FAILURE, w, [])
      else (case w_algorithmResultMap w tid of
          None \<Rightarrow> Inr (EXIT_FAILURE, w, [])
        | Some ap \<Rightarrow>
            let ap' = ap\<lparr>ap_resultVectors := ap_resultVectors ap @ [res]\<rparr>;
                w1 = w\<lparr>w_algorithmResultMap := (w_algorithmResultMap w)(tid \<mapsto> ap')\<rparr> in
            if length (ap_resultVectors ap') = as_size (threads w)
            then bindR (finish_table pf tid ap' w1) (\<lambda>(w2, subs). Inr (0, w2, subs))
            else Inr (0, w1, [])))"

subsection \<open>The handlers of the two stages of candidate elimination\<close>

definition candidate_elimination_start_process :: "'db platform \<Rightarrow> ptr option \<Rightarrow> 'db world \<Rightarrow> 'db handler_start" where
  "candidate_elimination_start_process pf data w =
     bindR (deref (w_ces w) data) (\<lambda>ce.
     bindR (candidate_elimination_start (pf_iequals pf) ce) (\<lambda>(st, ce').
       Inr (st, w\<lparr>w_ces := (w_ces w)(the data \<mapsto> ce')\<rparr>)))"

definition candidate_elimination_pause :: "ptr option \<Rightarrow> 'db world \<Rightarrow> 'db handler_start" where
  "candidate_elimination_pause data w = Inr (JOB_PENDING, w)"

definition candidate_elimination_end :: "'db platform \<Rightarrow> ptr option \<Rightarrow> 'db world \<Rightarrow> 'db handler_end" where
  "candidate_elimination_end pf data w =
     bindR (deref (w_ces w) data) (\<lambda>ce.
     bindR (update_algo_result pf (ce_tableId ce) (ce_result ce) w) (\<lambda>(_, w1, subs).
       Inr (w1\<lparr>w_files := close_CandidateElimination (pf_writable pf) ce (w_files w1),
               w_ces := (w_ces w1)(the data := None)\<rparr>, subs)))"

definition ce_finalize_start :: "ptr option \<Rightarrow> 'db world \<Rightarrow> 'db handler_start" where
  "ce_finalize_start data w =
     bindR (deref (w_finals w) data) (\<lambda>f.
     bindR (ce_finalize_start_process (Some f)) (\<lambda>(st, f'). Inr (st, w\<lparr>w_finals := (w_finals w)(the data \<mapsto> f')\<rparr>)))"

definition ce_finalize_pause :: "ptr option \<Rightarrow> 'db world \<Rightarrow> 'db handler_start" where
  "ce_finalize_pause data w = Inr (ce_finalize_pause_process, w)"

definition ce_finalize_end_process :: "ptr option \<Rightarrow> 'db world \<Rightarrow> 'db handler_end" where
  "ce_finalize_end_process data w =
     bindR (deref (w_finals w) data) (\<lambda>f.
     bindR (getFinalResult f) (\<lambda>finalString.
     bindR (send finalString (fin_tableId f) FRES_SEND (fin_taskPriority f) w) (\<lambda>w1.
       Inr (w1\<lparr>w_finals := (w_finals w1)(the data := None)\<rparr>, []))))"

subsection \<open>The chunks cover the table\<close>

fun split_ranges :: "int \<Rightarrow> int list \<Rightarrow> int \<Rightarrow> (int \<times> int) list" where
  "split_ranges n [] start = []"
| "split_ranges n (i # is) start = (start, n * i) # split_ranges n is (n * i + 1)"

fun split_end :: "int \<Rightarrow> int list \<Rightarrow> int \<Rightarrow> int" where
  "split_end n [] start = start"
| "split_end n (i # is) start = split_end n is (n * i + 1)"

definition lines_of :: "(int \<times> int) list \<Rightarrow> int list" where
  "lines_of rs = concat (map (\<lambda>(a, b). [a..b]) rs)"

lemma lines_of_simps [simp]:
  "lines_of [] = []" "lines_of ((a, b) # rs) = [a..b] @ lines_of rs" "lines_of (xs @ ys) = lines_of xs @ lines_of ys"
  by (simp_all add: lines_of_def)

lemma upto_join:
  fixes a b c :: int
  assumes "a - 1 \<le> b" and "b \<le> c"
  shows "[a..c] = [a..b] @ [b + 1..c]"
proof (cases "a \<le> b")
  case True
  then show ?thesis using assms(2) by (rule upto_split2)
next
  case False
  then have "b = a - 1" using assms(1) by simp
  then show ?thesis by simp
qed

lemma split_ranges_cover:
  assumes "0 \<le> n" and "k - 1 \<le> m"
  shows "lines_of (split_ranges n [k..m] (n * (k - 1) + 1)) = [n * (k - 1) + 1..n * m]"
    and "split_end n [k..m] (n * (k - 1) + 1) = n * m + 1"
proof -
  have "lines_of (split_ranges n [k..m] (n * (k - 1) + 1)) = [n * (k - 1) + 1..n * m] \<and>
        split_end n [k..m] (n * (k - 1) + 1) = n * m + 1" if "nat (m - k + 1) = l" "k - 1 \<le> m" for l k
    using that
  proof (induction l arbitrary: k)
    case 0
    then have "m = k - 1" by simp
    then show ?case by simp
  next
    case (Suc l)
    then have k: "[k..m] = k # [k + 1..m]" "k \<le> m" by (simp_all add: upto_rec1)
    have "n * (k - 1) \<le> n * k" "n * k \<le> n * m" using assms(1) k(2) by (auto intro: mult_left_mono)
    then have "[n * (k - 1) + 1..n * m] = [n * (k - 1) + 1..n * k] @ [n * k + 1..n * m]"
      by (intro upto_join) (auto simp: algebra_simps)
    then show ?case using Suc.IH [of "k + 1"] Suc.prems k by simp
  qed
  then show "lines_of (split_ranges n [k..m] (n * (k - 1) + 1)) = [n * (k - 1) + 1..n * m]"
    and "split_end n [k..m] (n * (k - 1) + 1) = n * m + 1"
    using assms(2) by blast+
qed

text \<open>The constructor of a chunk's object returns: both queries leave enough values.\<close>

definition confirm_reads :: "'db platform \<Rightarrow> string \<Rightarrow> int \<Rightarrow> bool" where
  "confirm_reads pf iid cols \<longleftrightarrow> (\<forall>db. \<exists>c db'. confirm_value (pf_exec pf) iid cols db = Inr (c, db'))"

text \<open>The lines of the objects behind a list of submissions.\<close>

definition ranges_at :: "'db world \<Rightarrow> (stage, ptr) submission list \<Rightarrow> (int \<times> int) list" where
  "ranges_at w subs = map (\<lambda>(_, a, _). let ce = the (w_ces w (the a)) in (ce_start ce, ce_end ce)) subs"

lemma ranges_at_simps [simp]:
  "ranges_at w [] = []" "ranges_at w (xs @ ys) = ranges_at w xs @ ranges_at w ys"
  "ranges_at w ((p, Some a, prio) # subs) = (ce_start (the (w_ces w a)), ce_end (the (w_ces w a))) # ranges_at w subs"
  by (simp_all add: ranges_at_def Let_def)

text \<open>What the submission of chunks leaves alone.\<close>

definition same_but_chunks :: "'db world \<Rightarrow> 'db world \<Rightarrow> bool" where
  "same_but_chunks w w' \<longleftrightarrow> w_fresh w \<le> w_fresh w' \<and> (\<forall>a < w_fresh w. w_ces w' a = w_ces w a) \<and>
     (\<exists>d c f. w' = w\<lparr>w_db := d, w_ces := c, w_fresh := f\<rparr>)"

lemma same_but_chunks_refl: "same_but_chunks w w"
  unfolding same_but_chunks_def by (intro conjI exI [of _ "w_db w"] exI [of _ "w_ces w"] exI [of _ "w_fresh w"]) auto

lemma same_but_chunks_trans:
  assumes "same_but_chunks u v" and "same_but_chunks v w"
  shows "same_but_chunks u w"
proof -
  obtain d c f d' c' f' where "v = u\<lparr>w_db := d, w_ces := c, w_fresh := f\<rparr>"
      and "w = v\<lparr>w_db := d', w_ces := c', w_fresh := f'\<rparr>"
    using assms unfolding same_but_chunks_def by blast
  then have "w = u\<lparr>w_db := d', w_ces := c', w_fresh := f'\<rparr>" by simp
  then show ?thesis using assms unfolding same_but_chunks_def by (auto simp del: world.simps)
qed

lemma same_but_chunks_fields:
  assumes "same_but_chunks w w'"
  shows "w_algorithmResultMap w' = w_algorithmResultMap w" and "w_tables w' = w_tables w"
    and "w_config w' = w_config w" and "w_instances w' = w_instances w" and "w_models w' = w_models w"
    and "w_files w' = w_files w" and "w_sender w' = w_sender w" and "w_cleanStageMap w' = w_cleanStageMap w"
  using assms by (auto simp: same_but_chunks_def)

lemma init_ce_algorithm_eq:
  assumes "confirm_reads pf iid cols"
  obtains ce w' where "init_ce_algorithm pf tid iid start end cols w = Inr ((ce_algorithm, Some (w_fresh w)), w')"
    and "same_but_chunks w w'" and "w_fresh w' = Suc (w_fresh w)"
    and "w_ces w' (w_fresh w) = Some ce" and "ce_start ce = start" and "ce_end ce = end" and "ce_tableId ce = tid"
proof -
  obtain c db' where "confirm_value (pf_exec pf) iid cols (w_db w) = Inr (c, db')"
    using assms unfolding confirm_reads_def by blast
  then show ?thesis
    by (intro that) (auto simp: init_ce_algorithm_def new_CandidateElimination_def same_but_chunks_def)
qed

lemma split_loop_eq:
  assumes "confirm_reads pf (instanceType td) (int32 (uint (md_columns (metadata td))))"
  shows "\<exists>w' subs. split_loop pf 1 td n is start w = Inr (split_end n is start, w', subs) \<and>
     same_but_chunks w w' \<and> length subs = length is \<and> w_fresh w' = w_fresh w + length is \<and>
     map (\<lambda>k. (Some ce_algorithm, Some (w_fresh w + k), td_priority td)) [0..<length is] = subs \<and>
     ranges_at w' subs = split_ranges n is start"
proof (induction "is" arbitrary: start w)
  case Nil
  then show ?case by (simp add: same_but_chunks_refl)
next
  case (Cons i "is")
  let ?tid = "tableID td"
  obtain ce w1 where c: "init_ce_algorithm pf ?tid (instanceType td) start (n * i)
       (int32 (uint (md_columns (metadata td)))) w = Inr ((ce_algorithm, Some (w_fresh w)), w1)"
    "same_but_chunks w w1" "w_fresh w1 = Suc (w_fresh w)" "w_ces w1 (w_fresh w) = Some ce"
    "ce_start ce = start" "ce_end ce = n * i"
    by (rule init_ce_algorithm_eq [OF assms])
  obtain w' subs where r: "split_loop pf 1 td n is (n * i + 1) w1 = Inr (split_end n is (n * i + 1), w', subs)"
    "same_but_chunks w1 w'" "length subs = length is" "w_fresh w' = w_fresh w1 + length is"
    "map (\<lambda>k. (Some ce_algorithm, Some (w_fresh w1 + k), td_priority td)) [0..<length is] = subs"
    "ranges_at w' subs = split_ranges n is (n * i + 1)"
    using Cons.IH [of "n * i + 1" w1] by blast
  have old: "w_ces w' (w_fresh w) = Some ce" using r(2) c(3,4) by (auto simp: same_but_chunks_def)
  let ?subs = "(Some ce_algorithm, Some (w_fresh w), td_priority td) # subs"
  have "split_loop pf 1 td n (i # is) start w = Inr (split_end n (i # is) start, w', ?subs)"
    by (simp add: avial_algo_def TOT_ALGO_def c(1) r(1) submit_package_def)
  moreover have "map (\<lambda>k. (Some ce_algorithm, Some (w_fresh w + k), td_priority td)) [0..<length (i # is)] = ?subs"
    using r(5) c(3) by (simp add: upt_conv_Cons map_Suc_upt [symmetric] comp_def del: upt_Suc)
  moreover have "ranges_at w' ?subs = split_ranges n (i # is) start"
    using old c(5,6) r(6) by simp
  ultimately show ?case
    using same_but_chunks_trans [OF c(2) r(2)] r(3,4) c(3) by (intro exI [of _ w'] exI [of _ ?subs]) simp
qed

text \<open>A table whose lines are counted in an \<open>int\<close>, linked to candidate elimination.\<close>

definition ce_table :: "'db platform \<Rightarrow> 'db world \<Rightarrow> ptr \<Rightarrow> TableData \<Rightarrow> bool" where
  "ce_table pf w a td \<longleftrightarrow> w_tables w a = Some td \<and> linked_algorithm w td = 1 \<and>
     uint (md_rows (metadata td)) < 2 ^ 31 \<and> 0 < threads w \<and> threads w < 2 ^ 31 \<and>
     confirm_reads pf (instanceType td) (int32 (uint (md_columns (metadata td))))"

lemma chunk_size:
  assumes "uint (r :: 64 word) < 2 ^ 31" and "0 < t" and "t < 2 ^ 31"
  shows "int32 (uint (r div word_of_int t)) = uint r div t"
proof -
  have "uint (word_of_int t :: 64 word) = t" using assms(2,3) by (simp add: unsigned_of_int take_bit_int_eq_self)
  then have "uint (r div word_of_int t) = uint r div t" by (simp add: uint_div)
  moreover have "uint r div t \<le> uint r" "0 \<le> uint r div t"
    using assms(2) zdiv_mono2 [of "uint r" 1 t] by (simp_all add: pos_imp_zdiv_nonneg_iff)
  ultimately show ?thesis using assms(1) by (intro trans [OF arg_cong [where f = int32] int32_id]) auto
qed

lemma sched_algo_ce:
  assumes "ce_table pf w a td"
  shows "\<exists>w' subs. sched_algo pf (Some a) w = Inr (0, w', subs) \<and>
     subs = map (\<lambda>k. (Some ce_algorithm, Some (w_fresh w + k), td_priority td)) [0..<nat (threads w)] \<and>
     lines_of (ranges_at w' subs) = [1..uint (md_rows (metadata td))] \<and>
     same_but_chunks (register_package (tableID td) a w) w'"
proof -
  let ?R = "uint (md_rows (metadata td))" and ?T = "threads w" and ?c = "int32 (uint (md_columns (metadata td)))"
  let ?n = "?R div ?T"
  have t: "w_tables w a = Some td" "linked_algorithm w td = 1" "0 < ?T" and R: "?R < 2 ^ 31"
    and cr: "confirm_reads pf (instanceType td) ?c"
    using assms by (auto simp: ce_table_def)
  have n: "int32 (uint (md_rows (metadata td) div word_of_int ?T)) = ?n" "int32 ?R = ?R"
    using assms chunk_size int32_id [of ?R] uint_nonnegative [of "md_rows (metadata td)"]
    by (simp_all add: ce_table_def)
  let ?w1 = "register_package (tableID td) a w"
  obtain w2 subs where l: "split_loop pf 1 td ?n [1..?T - 1] 1 ?w1 = Inr (split_end ?n [1..?T - 1] 1, w2, subs)"
     "same_but_chunks ?w1 w2" "length subs = nat (?T - 1)" "w_fresh w2 = w_fresh ?w1 + nat (?T - 1)"
     "map (\<lambda>k. (Some ce_algorithm, Some (w_fresh ?w1 + k), td_priority td)) [0..<nat (?T - 1)] = subs"
     "ranges_at w2 subs = split_ranges ?n [1..?T - 1] 1"
    using split_loop_eq [OF cr, of ?n "[1..?T - 1]" 1 ?w1] by (simp only: length_upto) force
  obtain ce w3 where c: "init_ce_algorithm pf (tableID td) (instanceType td) (split_end ?n [1..?T - 1] 1) ?R ?c w2 =
       Inr ((ce_algorithm, Some (w_fresh w2)), w3)" "same_but_chunks w2 w3"
     "w_ces w3 (w_fresh w2) = Some ce" "ce_start ce = split_end ?n [1..?T - 1] 1" "ce_end ce = ?R"
    by (rule init_ce_algorithm_eq [OF cr])
  let ?subs = "subs @ [(Some ce_algorithm, Some (w_fresh w2), td_priority td)]"
  have fresh: "w_fresh ?w1 = w_fresh w" by (simp add: register_package_def)
  have run: "sched_algo pf (Some a) w = Inr (0, w3, ?subs)"
    using t l(1) c(1) by (simp add: sched_algo_def table_at_def n Let_def avial_algo_def TOT_ALGO_def submit_package_def)
  have subs: "?subs = map (\<lambda>k. (Some ce_algorithm, Some (w_fresh w + k), td_priority td)) [0..<nat ?T]"
  proof -
    have T: "nat ?T = Suc (nat (?T - 1))" using t(3) by simp
    have "w_fresh w2 = w_fresh w + nat (?T - 1)" using l(4) fresh by simp
    then show ?thesis using l(5) [unfolded fresh] by (simp add: T)
  qed
  have "ranges_at w3 subs = ranges_at w2 subs"
    using c(2) l(4) [unfolded fresh] by (auto simp: ranges_at_def l(5) [symmetric, unfolded fresh] same_but_chunks_def)
  moreover have "0 \<le> ?n" "?n * (?T - 1) \<le> ?R"
  proof -
    show "0 \<le> ?n" using t(3) by (simp add: pos_imp_zdiv_nonneg_iff)
    then have "?n * (?T - 1) \<le> ?n * ?T" by (intro mult_left_mono) auto
    also have "?n * ?T \<le> ?R" using div_mult_mod_eq [of ?R ?T] pos_mod_sign [OF t(3), of ?R] by linarith
    finally show "?n * (?T - 1) \<le> ?R" .
  qed
  ultimately have "lines_of (ranges_at w3 ?subs) = [1..?R]"
    using split_ranges_cover [of ?n 1 "?T - 1"] t(3) l(6) c(3-5) upto_join [of 1 "?n * (?T - 1)" ?R] by simp
  moreover have "same_but_chunks ?w1 w3" by (rule same_but_chunks_trans [OF l(2) c(2)])
  ultimately show ?thesis using run subs by (intro exI [of _ w3] exI [of _ ?subs]) (simp del: append_assoc)
qed


subsection \<open>The last result finishes the table\<close>

text \<open>What a finished chunk does; the return code is ignored.\<close>

definition deliver :: "'db platform \<Rightarrow> string \<Rightarrow> CeResultExportObject \<Rightarrow> 'db world \<Rightarrow> 'db handler_end" where
  "deliver pf tid r w = bindR (update_algo_result pf tid r w) (\<lambda>(_, w1, subs). Inr (w1, subs))"

text \<open>A table in flight with the results \<open>rs\<close> so far.\<close>

definition collecting :: "'db world \<Rightarrow> string \<Rightarrow> ptr \<Rightarrow> TableData \<Rightarrow> CeResultExportObject list \<Rightarrow> bool" where
  "collecting w tid a td rs \<longleftrightarrow> tid \<noteq> [] \<and> w_algorithmResultMap w tid = Some \<lparr>ap_tableData = a, ap_resultVectors = rs\<rparr> \<and>
     w_tables w a = Some td \<and> tableID td = tid"

definition add_result :: "string \<Rightarrow> CeResultExportObject \<Rightarrow> 'db world \<Rightarrow> 'db world" where
  "add_result tid r w =
     w\<lparr>w_algorithmResultMap := (w_algorithmResultMap w)(tid := map_option (\<lambda>ap. ap\<lparr>ap_resultVectors := ap_resultVectors ap @ [r]\<rparr>)
         (w_algorithmResultMap w tid))\<rparr>"

interpretation results: barrier
  "\<lambda>w n. \<exists>a td rs. collecting w tid a td rs \<and> length rs = n" "\<lambda>w. as_size (threads w)" "deliver pf tid" "add_result tid"
  for pf :: "'db platform" and tid :: string
  by unfold_locales (auto simp: collecting_def deliver_def update_algo_result_def add_result_def)

lemma fold_add_result:
  "collecting w tid a td rs0 \<Longrightarrow> fold (add_result tid) rs w =
     w\<lparr>w_algorithmResultMap := (w_algorithmResultMap w)(tid \<mapsto> \<lparr>ap_tableData = a, ap_resultVectors = rs0 @ rs\<rparr>)\<rparr>"
proof (induction rs arbitrary: w rs0)
  case Nil
  then show ?case by (simp add: collecting_def fun_upd_idem)
next
  case (Cons r rs)
  have "collecting (add_result tid r w) tid a td (rs0 @ [r])"
    using Cons.prems by (simp add: collecting_def add_result_def)
  moreover have step: "add_result tid r w =
      w\<lparr>w_algorithmResultMap := (w_algorithmResultMap w)(tid \<mapsto> \<lparr>ap_tableData = a, ap_resultVectors = rs0 @ [r]\<rparr>)\<rparr>"
    using Cons.prems by (simp add: collecting_def add_result_def)
  ultimately show ?case using Cons.IH by (simp add: step cong: if_cong)
qed

lemma dealloc_table_dat_eq:
  "w_tables w a = Some td \<Longrightarrow> dealloc_table_dat pf a w =
     Inr (w\<lparr>w_files := (w_files w)(tableID td @ ''.csv'' := None), w_tables := (w_tables w)(a := None)\<rparr>)"
  by (simp add: dealloc_table_dat_def table_at_def open_database_def dropFile_def Let_def split: option.split)

lemma as_size_threads: "0 < threads w \<Longrightarrow> threads w < 2 ^ 31 \<Longrightarrow> as_size (threads w) = nat (threads w)"
  by (simp add: as_size_id)

text \<open>C11: The results of the chunks of a table are joined by one final stage: whatever the first
  results are, as long as one per thread is not reached nothing is submitted and the table stays;
  the result that completes them submits exactly one final stage, not preemtable, whose object
  holds all results in the order of their arrival, and the table, its file and its entry are gone.
  Any further result is refused and changes nothing.\<close>

theorem final_stage_scheduled_once:
  assumes "collecting w tid a td []" and "linked_algorithm w td = 1" and "0 < threads w" and "threads w < 2 ^ 31"
    and "length rs = nat (threads w)"
  shows "arrivals (deliver pf tid) (butlast rs) w = Inr (fold (add_result tid) (butlast rs) w, []) \<and>
     (\<exists>w'. arrivals (deliver pf tid) rs w = Inr (w', [(Some ce_finalize_proc, Some (w_fresh w), NON_PREEMTABLE)]) \<and>
       w_finals w' (w_fresh w) = Some (new_CeFinalize rs tid (td_priority td)) \<and>
       w_tables w' a = None \<and> w_files w' (tid @ ''.csv'') = None \<and> w_algorithmResultMap w' tid = None \<and>
       update_algo_result pf tid r w' = Inr (EXIT_FAILURE, w', []))"
proof -
  have ready: "\<exists>a td rs. collecting w tid a td rs \<and> length rs = 0" using assms(1) by blast
  have n: "length rs = as_size (threads w)" "rs \<noteq> []" using assms(3-5) by (auto simp: as_size_threads)
  have c: "tid \<noteq> []" "w_tables w a = Some td" "tableID td = tid" using assms(1) by (auto simp: collecting_def)
  obtain rs' l where rs: "rs = rs' @ [l]" using n(2) by (cases rs rule: rev_cases) auto
  have "arrivals (deliver pf tid) (butlast rs) w = Inr (fold (add_result tid) (butlast rs) w, [])"
    using n(2) by (intro results.none_early [OF ready]) (cases rs, simp_all add: n(1) [symmetric])
  moreover have "\<exists>w'. deliver pf tid l (fold (add_result tid) rs' w) =
         Inr (w', [(Some ce_finalize_proc, Some (w_fresh w), NON_PREEMTABLE)]) \<and>
       w_finals w' (w_fresh w) = Some (new_CeFinalize rs tid (td_priority td)) \<and>
       w_tables w' a = None \<and> w_files w' (tid @ ''.csv'') = None \<and> w_algorithmResultMap w' tid = None \<and>
       update_algo_result pf tid r w' = Inr (EXIT_FAILURE, w', [])"
    using c assms(2) n
    by (simp add: rs fold_add_result [OF assms(1)] deliver_def update_algo_result_def finish_table_def table_at_def Let_def
        dealloc_table_dat_eq linked_algorithm_def avialable_finalize_algo_def TOT_ALGO_def init_ce_finalize_def submit_package_def)
  ultimately show ?thesis using results.last_fires [OF ready n, of pf] by (simp add: rs)
qed

subsection \<open>A concrete table\<close>

lemma play_confirm: "confirm_reads play_platform ''Weather_aaaaa'' 2"
proof -
  have "confirm_value (pf_exec play_platform) ''Weather_aaaaa'' 2 () = Inr (''Yes'', ())" by code_simp
  then show ?thesis by (auto simp: confirm_reads_def)
qed

lemma play_ce_table: "ce_table play_platform play_world 0 play_table"
proof -
  have "md_rows (metadata play_table) = 4" "int32 (uint (md_columns (metadata play_table))) = 2"
    "instanceType play_table = ''Weather_aaaaa''"
    by (simp_all add: play_table_def new_TableMetadata_def int32_def)
  then show ?thesis using play_confirm by (simp add: ce_table_def)
qed


definition play_result :: CeResultExportObject where
  "play_result = \<lparr>res_totalColumns = 1, res_totalPositives = 1, res_totalNegatives = 1, res_s = [''Sunny''], res_g = [''?'']\<rparr>"

theorem final_stage_scheduled_once_witness:
  "\<exists>w'. arrivals (deliver play_platform ''T1'') [play_result, play_result] (register_package ''T1'' 0 play_world) =
       Inr (w', [(Some ce_finalize_proc, Some 1, NON_PREEMTABLE)]) \<and>
     w_finals w' 1 = Some (new_CeFinalize [play_result, play_result] ''T1'' MEDIUM_PRIORITY) \<and> w_files w' ''T1.csv'' = None"
proof -
  let ?w = "register_package ''T1'' 0 play_world"
  have w: "collecting ?w ''T1'' 0 play_table []" "linked_algorithm ?w play_table = 1" "threads ?w = 2"
    "w_fresh ?w = 1" "td_priority play_table = MEDIUM_PRIORITY"
    using play_linked by (simp_all add: collecting_def register_package_def play_world_defs play_table_def threads_def
        config_defs linked_algorithm_def)
  from final_stage_scheduled_once [OF w(1,2), of "[play_result, play_result]" play_platform] w(3-5)
  show ?thesis by auto
qed

end
