(* ===== verification/Data_Stages.thy ===== *)
theory Data_Stages
  imports Algorithm_Scheduler
begin

section \<open>The stages of the data processor: data\_processor.cpp, data\_cleaner.cpp, data\_tracker.cpp\<close>

text \<open>
  A table that has been received passes three stages before the algorithm sees it: the data
  processor loads the instance, the cleaner drops duplicate rows, and one validator per thread
  replaces values the instance does not allow. The tracker starts the validators and counts how
  many have finished. Submissions are returned in order, their return codes are ignored by the
  source. A handler reads its object from the heap of its class.
\<close>

subsection \<open>Validators\<close>

definition init_validate_data_phase ::
  "'db platform \<Rightarrow> int \<Rightarrow> int \<Rightarrow> ptr \<Rightarrow> ptr \<Rightarrow> 'db world \<Rightarrow> 'db handler_end"
where
  "init_validate_data_phase pf startIndex endIndex td inst w =
     bindR (table_at w (Some td)) (\<lambda>t.
       Inr (w\<lparr>w_validators := (w_validators w)(w_fresh w \<mapsto>
                new_ValidateData startIndex endIndex td inst (tableID t) (pf_writable pf) (w_files w)),
              w_fresh := Suc (w_fresh w)\<rparr>,
            [(Some valdiate_data_process, Some (w_fresh w), td_priority t)]))"

text \<open>
  The loop of \<open>schedule_validate_phase\<close>; the comparison with the number of rows is unsigned.
\<close>

fun validate_phase_loop ::
  "'db platform \<Rightarrow> ptr \<Rightarrow> ptr \<Rightarrow> int \<Rightarrow> 64 word \<Rightarrow> int list \<Rightarrow> int \<Rightarrow> int \<Rightarrow> 'db world \<Rightarrow> 'db handler_end"
where
  "validate_phase_loop pf td inst multiplier rws [] startIndex endIndex w = Inr (w, [])"
| "validate_phase_loop pf td inst multiplier rws (i # is) startIndex endIndex w =
     bindR (init_validate_data_phase pf startIndex endIndex td inst w) (\<lambda>(w1, subs).
     let endIndex1 = endIndex + multiplier * i;
         endIndex2 = (if word_of_int (endIndex1 + 1) \<le> rws then endIndex1 + 1 else endIndex1) in
     bindR (validate_phase_loop pf td inst multiplier rws is (endIndex + 1) endIndex2 w1) (\<lambda>(w2, subs').
       Inr (w2, subs @ subs')))"

definition schedule_validate_phase :: "'db platform \<Rightarrow> ptr \<Rightarrow> ptr \<Rightarrow> 'db world \<Rightarrow> 'db handler_end" where
  "schedule_validate_phase pf td inst w =
     bindR (table_at w (Some td)) (\<lambda>t.
       let totalThreads = threads w; rws = md_rows (metadata t) in
       if totalThreads = 0 then Inl DivideByZero
       else
         let multiplier = int32 (uint (rws div word_of_int totalThreads)) in
         bindR (validate_phase_loop pf td inst multiplier rws [1..totalThreads] 1 multiplier w) (\<lambda>(w1, subs).
           Inr (w1\<lparr>w_cleanStageMap := (w_cleanStageMap w1)(td \<mapsto> 0)\<rparr>, subs)))"

text \<open>Reading the file gives the cleaned table that is sent back to the server.\<close>

definition update_clean_stages ::
  "'db platform \<Rightarrow> ptr option \<Rightarrow> 'db world \<Rightarrow> (int \<times> 'db world \<times> (stage, ptr) submission list) result"
where
  "update_clean_stages pf p w =
     (case p of
        None \<Rightarrow> Inr (- 1, w, [])
      | Some td \<Rightarrow>
          (case w_cleanStageMap w td of
             None \<Rightarrow> bindR (table_at w (Some td)) (\<lambda>t. Inr (- 1, w, []))
           | Some n \<Rightarrow>
               let w1 = w\<lparr>w_cleanStageMap := (w_cleanStageMap w)(td \<mapsto> n + 1)\<rparr> in
               bindR (table_at w1 (Some td)) (\<lambda>t.
               if n + 1 \<ge> threads w
               then
                 let file = open_database (tableID t) READ_FILE (pf_writable pf) (w_files w1) in
                 bindR (send (getBlob file) (tableID t) INTR_SEND (td_priority t) w1) (\<lambda>w2.
                 bindR (sched_algo pf (Some td) w2) (\<lambda>(rc, w3, subs). Inr (0, w3, subs)))
               else Inr (0, w1, []))))"

definition validate_data_start_process :: "'db platform \<Rightarrow> ptr option \<Rightarrow> 'db world \<Rightarrow> 'db handler_start" where
  "validate_data_start_process pf data w =
     bindR (deref (w_validators w) data) (\<lambda>v.
     bindR (table_at w (Some (vd_tableData v))) (\<lambda>t.
     bindR (deref (w_instanceData w) (Some (vd_instance v))) (\<lambda>d.
     bindR (validate_data_start (pf_iequals pf) (metadata t) d v) (\<lambda>(st, v').
       Inr (st, w\<lparr>w_validators := (w_validators w)(the data \<mapsto> v')\<rparr>)))))"

definition validate_data_pause :: "ptr option \<Rightarrow> 'db world \<Rightarrow> 'db handler_start" where
  "validate_data_pause data w =
     (case data of
        None \<Rightarrow> Inr (JOB_PENDING, w)
      | Some a \<Rightarrow>
          bindR (deref (w_validators w) (Some a)) (\<lambda>v.
          bindR (table_at w (Some (vd_tableData v))) (\<lambda>t.
          bindR (send [] (tableID t) RESET_TIMER (td_priority t) w) (\<lambda>w1. Inr (JOB_PENDING, w1)))))"

definition validate_data_finalize :: "'db platform \<Rightarrow> ptr option \<Rightarrow> 'db world \<Rightarrow> 'db handler_end" where
  "validate_data_finalize pf data w =
     bindR (deref (w_validators w) data) (\<lambda>v.
     bindR (update_clean_stages pf (Some (vd_tableData v)) w) (\<lambda>(rc, w1, subs).
       Inr (w1\<lparr>w_files := close_ValidateData (pf_writable pf) v (w_files w1),
               w_validators := (w_validators w1)(the data := None)\<rparr>, subs)))"

subsection \<open>The cleaner\<close>

definition new_DataCleaner :: "'db platform \<Rightarrow> TableData \<Rightarrow> ptr \<Rightarrow> ptr \<Rightarrow> 'db world \<Rightarrow> DataCleaner" where
  "new_DataCleaner pf t td inst w =
     \<lparr>dc_iterator = 0, dc_file = open_database (tableID t) RW_FILE (pf_writable pf) (w_files w),
      dc_tableData = td, dc_instance = inst\<rparr>"

definition init_data_cleaner :: "'db platform \<Rightarrow> ptr \<Rightarrow> ptr \<Rightarrow> 'db world \<Rightarrow> 'db handler_end" where
  "init_data_cleaner pf td inst w =
     bindR (table_at w (Some td)) (\<lambda>t.
       Inr (w\<lparr>w_cleaners := (w_cleaners w)(w_fresh w \<mapsto> new_DataCleaner pf t td inst w), w_fresh := Suc (w_fresh w)\<rparr>,
            [(Some clean_proc, Some (w_fresh w), td_priority t)]))"

definition clean :: "DataCleaner \<Rightarrow> int \<times> DataCleaner" where
  "clean dc =
     (case deleteDuplicateRecords (dc_iterator dc) (dc_file dc) of (rc, file) \<Rightarrow>
        (if rc = DUPLICATE_CLEANUP_DONE then 1 else 0, dc\<lparr>dc_iterator := dc_iterator dc + 1, dc_file := file\<rparr>))"

definition getCleanedData :: "DataCleaner \<Rightarrow> string" where
  "getCleanedData dc = getBlob (dc_file dc)"

definition clean_data_start :: "ptr option \<Rightarrow> 'db world \<Rightarrow> 'db handler_start" where
  "clean_data_start data w =
     bindR (deref (w_cleaners w) data) (\<lambda>dc.
       case clean dc of (rc, dc') \<Rightarrow>
         Inr (if rc \<noteq> 0 then JOB_DONE else JOB_PENDING, w\<lparr>w_cleaners := (w_cleaners w)(the data \<mapsto> dc')\<rparr>))"

definition clean_data_pause :: "ptr option \<Rightarrow> 'db world \<Rightarrow> 'db handler_start" where
  "clean_data_pause data w = Inr (JOB_PENDING, w)"

definition delete_DataCleaner :: "'db platform \<Rightarrow> ptr \<Rightarrow> DataCleaner \<Rightarrow> 'db world \<Rightarrow> 'db world" where
  "delete_DataCleaner pf a dc w =
     w\<lparr>w_files := close_database (pf_writable pf) (dc_file dc) (w_files w), w_cleaners := (w_cleaners w)(a := None)\<rparr>"

definition clean_data_finalize :: "'db platform \<Rightarrow> ptr option \<Rightarrow> 'db world \<Rightarrow> 'db handler_end" where
  "clean_data_finalize pf data w =
     bindR (deref (w_cleaners w) data) (\<lambda>dc.
     bindR (schedule_validate_phase pf (dc_tableData dc) (dc_instance dc) w) (\<lambda>(w1, subs).
       Inr (delete_DataCleaner pf (the data) dc w1, subs)))"

definition clean_data_failed :: "'db platform \<Rightarrow> ptr option \<Rightarrow> 'db world \<Rightarrow> 'db handler_end" where
  "clean_data_failed pf data w =
     bindR (deref (w_cleaners w) data) (\<lambda>dc. Inr (delete_DataCleaner pf (the data) dc w, []))"

subsection \<open>The data processor\<close>

definition new_DataProcessor :: "DataProcessContainer \<Rightarrow> DataProcessor" where
  "new_DataProcessor container =
     \<lparr>dp_instanceData = None, initDone = initFlag False, dataCleanPhase = initFlag False, curRow = 1,
      dp_tableData = tData container, dp_file = None, colHeaders = [], dp_errorString = []\<rparr>"

definition getErrorString :: "DataProcessor \<Rightarrow> string" where "getErrorString dp = dp_errorString dp"

text \<open>\<open>DataProcessor::initlize\<close>. The instance data object is created before it is checked.\<close>

definition initlize :: "'db platform \<Rightarrow> DataProcessor \<Rightarrow> 'db world \<Rightarrow> (int \<times> DataProcessor \<times> 'db world) result" where
  "initlize pf dp w =
     bindR (table_at w (dp_tableData dp)) (\<lambda>t.
     let inst = getInstanceFromId (instanceType t) (w_instances w) in
     if getId inst = [] then Inr (- 1, dp, w)
     else
       let d = new_InstanceData inst (int32 (uint (md_columns (metadata t)))) (tableID t) (pf_writable pf) (w_files w) in
       bindR (initlizeData (pf_exec pf) d (w_db w)) (\<lambda>(rc, d', db').
       let a = w_fresh w;
           w1 = w\<lparr>w_db := db', w_instanceData := (w_instanceData w)(a \<mapsto> d'), w_fresh := Suc a\<rparr>;
           dp1 = dp\<lparr>dp_instanceData := Some a\<rparr> in
       if rc \<noteq> 0 then Inr (- 1, dp1\<lparr>dp_errorString := id_errorString d'\<rparr>, w1)
       else
         let file = open_database (tableID t) RW_FILE (pf_writable pf) (w_files w1) in
         bindR (getColumnNamesList file) (\<lambda>names.
           Inr (0, dp1\<lparr>dp_file := Some file, initDone := setFlag (initDone dp1), colHeaders := names\<rparr>, w1))))"

definition process_data_start :: "'db platform \<Rightarrow> ptr option \<Rightarrow> 'db world \<Rightarrow> 'db handler_start" where
  "process_data_start pf data w =
     bindR (deref (w_processors w) data) (\<lambda>dp.
     bindR (initlize pf dp w) (\<lambda>(rc, dp', w1).
       Inr (if rc \<noteq> 0 then JOB_FAILED else JOB_DONE, w1\<lparr>w_processors := (w_processors w1)(the data \<mapsto> dp')\<rparr>)))"

definition process_data_pause :: "ptr option \<Rightarrow> 'db world \<Rightarrow> 'db handler_start" where
  "process_data_pause data w =
     bindR (deref (w_processors w) data) (\<lambda>dp.
     bindR (table_at w (dp_tableData dp)) (\<lambda>t.
     bindR (send [] (tableID t) RESET_TIMER (td_priority t) w) (\<lambda>w1. Inr (JOB_PENDING, w1))))"

text \<open>\<open>~DataProcessor\<close> deletes the table file, which is not initialised before \<open>initlize\<close> succeeds.\<close>

definition delete_DataProcessor :: "'db platform \<Rightarrow> ptr \<Rightarrow> DataProcessor \<Rightarrow> 'db world \<Rightarrow> ('db world) result" where
  "delete_DataProcessor pf a dp w =
     (case dp_file dp of
        None \<Rightarrow> Inl UseAfterFree
      | Some file \<Rightarrow> Inr (w\<lparr>w_files := close_database (pf_writable pf) file (w_files w),
                             w_processors := (w_processors w)(a := None)\<rparr>))"

text \<open>The pointers of the object are handed on; the table pointer was never checked for null.\<close>

definition process_data_finalize :: "'db platform \<Rightarrow> ptr option \<Rightarrow> 'db world \<Rightarrow> 'db handler_end" where
  "process_data_finalize pf data w =
     bindR (deref (w_processors w) data) (\<lambda>dp.
       case (dp_tableData dp, dp_instanceData dp) of
         (Some td, Some inst) \<Rightarrow>
           bindR (init_data_cleaner pf td inst w) (\<lambda>(w1, subs).
           bindR (delete_DataProcessor pf (the data) dp w1) (\<lambda>w2. Inr (w2, subs)))
       | _ \<Rightarrow> Inl NullPointer)"

text \<open>The data processor itself is not deleted here.\<close>

definition process_data_failed :: "'db platform \<Rightarrow> ptr option \<Rightarrow> 'db world \<Rightarrow> 'db handler_end" where
  "process_data_failed pf data w =
     bindR (deref (w_processors w) data) (\<lambda>dp.
     bindR (table_at w (dp_tableData dp)) (\<lambda>t.
     bindR (send (getErrorString dp) (tableID t) DAT_ERR (td_priority t) w) (\<lambda>w1.
     bindR (dealloc_table_dat pf (the (dp_tableData dp)) w1) (\<lambda>w2. Inr (w2, [])))))"

definition init_data_processor :: "DataProcessContainer \<Rightarrow> 'db world \<Rightarrow> 'db handler_end" where
  "init_data_processor container w =
     bindR (table_at w (tData container)) (\<lambda>t.
       Inr (w\<lparr>w_processors := (w_processors w)(w_fresh w \<mapsto> new_DataProcessor container), w_fresh := Suc (w_fresh w)\<rparr>,
            [(Some data_proc, Some (w_fresh w), td_priority t)]))"

end
