(* ===== verification/Data_Flow.thy ===== *)
theory Data_Flow
  imports Data_Stages
begin

section \<open>What the stages of the data processor do to a table\<close>

text \<open>
  The cleaner as a whole, the start of the validators, and the tracker as a counter: what a
  table has been through when the algorithm is started on it.
\<close>

subsection \<open>Cleaning\<close>

text \<open>The calls of the cleaner's start handler up to the one that answers \<open>JOB_DONE\<close>, at most \<open>n\<close>.\<close>

fun clean_run :: "nat \<Rightarrow> DataCleaner \<Rightarrow> DataCleaner option" where
  "clean_run 0 dc = None"
| "clean_run (Suc n) dc = (case clean dc of (rc, dc') \<Rightarrow> if rc \<noteq> 0 then Some dc' else clean_run n dc')"

lemma clean_run_pass:
  "dc_iterator dc = int k \<Longrightarrow>
   map_option dc_file (clean_run n dc) = dedup_pass DUPLICATE_CLEANUP_DONE deleteDuplicateRecords n k (dc_file dc)"
proof (induction n arbitrary: dc k)
  case (Suc n)
  obtain rc fl where d: "deleteDuplicateRecords (int k) (dc_file dc) = (rc, fl)" by (metis surj_pair)
  then show ?case
    using Suc.IH [of "dc\<lparr>dc_iterator := dc_iterator dc + 1, dc_file := fl\<rparr>" "Suc k"] Suc.prems
    by (auto simp: clean_def)
qed simp

text \<open>What clearing one row leaves alone; a table not marked as modified has its old rows.\<close>

lemma deleteDuplicateRecords_frame:
  assumes "deleteDuplicateRecords k d = (rc, d')"
  shows "accessMode d' = accessMode d \<and> fileName d' = fileName d \<and> fileDeleted d' = fileDeleted d \<and>
    (\<not> dataModified d' \<longrightarrow> \<not> dataModified d \<and> readWriteData d' = readWriteData d)"
proof (cases "isFlagSet (fileDeleted d) \<or> accessMode d = READ_FILE \<or> length (readWriteData d) \<le> as_size k \<or> k < 0")
  case True
  then show ?thesis using assms by (auto simp: deleteDuplicateRecords_def split: if_splits)
next
  case False
  let ?row = "readWriteData d ! nat k" and ?rest = "drop (Suc (nat k)) (readWriteData d)"
  from False assms have "d' = d\<lparr>readWriteData := take (Suc (nat k)) (readWriteData d) @ filter (\<lambda>r. r \<noteq> ?row) ?rest,
      dataModified := dataModified d \<or> ?row \<in> set ?rest\<rparr>"
    by (auto simp: deleteDuplicateRecords_def duplicate_loop_eq Let_def split: if_splits)
  moreover have "filter (\<lambda>r. r \<noteq> ?row) ?rest = ?rest" if "?row \<notin> set ?rest"
    using that by (auto simp: filter_id_conv)
  ultimately show ?thesis by auto
qed

lemma dedup_pass_frame:
  "dedup_pass DUPLICATE_CLEANUP_DONE deleteDuplicateRecords n k d = Some d' \<Longrightarrow>
    accessMode d' = accessMode d \<and> fileName d' = fileName d \<and> fileDeleted d' = fileDeleted d \<and>
    (\<not> dataModified d' \<longrightarrow> \<not> dataModified d \<and> readWriteData d' = readWriteData d)"
proof (induction n arbitrary: k d)
  case (Suc n)
  obtain rc d1 where d1: "deleteDuplicateRecords (int k) d = (rc, d1)" by (metis surj_pair)
  have "dedup_pass DUPLICATE_CLEANUP_DONE deleteDuplicateRecords n (Suc k) d1 = Some d' \<or> d' = d1"
    using Suc.prems d1 by (auto split: if_splits)
  then show ?case using Suc.IH [of "Suc k" d1] deleteDuplicateRecords_frame [OF d1] by auto
qed simp

text \<open>C13: Cleaning a table file of fewer than 2\<open>^\<close>31 lines ends after at most one call more than
  it has lines, leaves every line once, at the place of its first occurrence, and once the
  cleaner is deleted the file holds exactly these lines, also when nothing had to be removed.\<close>

theorem cleaner_keeps_first_occurrences:
  assumes "w_files w (tableID t @ ''.csv'') = Some content" and "pf_writable pf (tableID t @ ''.csv'')"
    and "length (getlines content) < 2 ^ 31"
  shows "\<exists>dc. clean_run (Suc (length (getlines content))) (new_DataCleaner pf t td inst w) = Some dc \<and>
     readWriteData (dc_file dc) = keep_first (getlines content) \<and>
     (\<exists>c. w_files (delete_DataCleaner pf a dc w) (tableID t @ ''.csv'') = Some c \<and>
          getlines c = keep_first (getlines content))"
proof -
  let ?dc = "new_DataCleaner pf t td inst w"
  let ?d = "dc_file ?dc" and ?n = "Suc (length (getlines content))"
  have d: "readWriteData ?d = getlines content" "accessMode ?d = RW_FILE" "\<not> fileDeleted ?d" "\<not> dataModified ?d"
      "fileName ?d = tableID t @ ''.csv''" "dc_iterator ?dc = int 0"
    using assms(1,2) by (simp_all add: new_DataCleaner_def open_database_def Let_def)
  then have "db_ready ?d" using assms(3) by (simp add: db_ready_def)
  then obtain d' where pass: "dedup_pass DUPLICATE_CLEANUP_DONE deleteDuplicateRecords ?n 0 ?d = Some d'"
      "db_ready d'" "readWriteData d' = keep_first (getlines content)"
    using file_table.dedup_all [of ?d] d(1) by auto
  then obtain dc where dc: "clean_run ?n ?dc = Some dc" "dc_file dc = d'"
    using clean_run_pass [OF d(6), of ?n] by auto
  have frame: "fileName d' = tableID t @ ''.csv''" "\<not> dataModified d' \<Longrightarrow> readWriteData d' = getlines content"
    using dedup_pass_frame [OF pass(1)] d by auto
  have clean: "\<forall>row \<in> set (readWriteData d'). newline \<notin> set row"
    using getlines_clean pass(3) by auto
  have "\<exists>c. close_database (pf_writable pf) d' (w_files w) (tableID t @ ''.csv'') = Some c \<and> getlines c = readWriteData d'"
  proof (cases "dataModified d'")
    case True
    then show ?thesis
      using pass(2) frame(1) assms(2) clean by (simp add: close_database_def commitChanges_def db_ready_def getlines_rows)
  next
    case False
    then show ?thesis using frame assms(1) by (simp add: close_database_def commitChanges_def)
  qed
  then show ?thesis using dc pass(3) by (auto simp: delete_DataCleaner_def)
qed

subsection \<open>Starting the validators\<close>

definition validator_on :: "'db platform \<Rightarrow> 'db world \<Rightarrow> TableData \<Rightarrow> ptr \<Rightarrow> ptr \<Rightarrow> ValidateData \<Rightarrow> bool" where
  "validator_on pf w t td inst v \<longleftrightarrow> vd_file v = open_database (tableID t) RW_FILE (pf_writable pf) (w_files w) \<and>
     vd_tableData v = td \<and> vd_instance v = inst"

lemma validate_phase_loop_eq:
  assumes "w_tables w td = Some t"
  shows "\<exists>vs. validate_phase_loop pf td inst m r is s e w =
       Inr (w\<lparr>w_validators := vs, w_fresh := w_fresh w + length is\<rparr>,
            map (\<lambda>k. (Some valdiate_data_process, Some (w_fresh w + k), td_priority t)) [0..<length is]) \<and>
     (\<forall>a < w_fresh w. vs a = w_validators w a) \<and>
     (\<forall>k < length is. \<exists>v. vs (w_fresh w + k) = Some v \<and> validator_on pf w t td inst v)"
  using assms
proof (induction "is" arbitrary: s e w)
  case Nil
  show ?case by (intro exI [of _ "w_validators w"]) simp
next
  case (Cons i "is")
  let ?v = "new_ValidateData s e td inst (tableID t) (pf_writable pf) (w_files w)"
  let ?w = "w\<lparr>w_validators := (w_validators w)(w_fresh w \<mapsto> ?v), w_fresh := Suc (w_fresh w)\<rparr>"
  let ?e = "if word_of_int (e + m * i + 1) \<le> r then e + m * i + 1 else e + m * i"
  obtain vs where vs: "validate_phase_loop pf td inst m r is (e + 1) ?e ?w =
       Inr (?w\<lparr>w_validators := vs, w_fresh := w_fresh ?w + length is\<rparr>,
            map (\<lambda>k. (Some valdiate_data_process, Some (w_fresh ?w + k), td_priority t)) [0..<length is])"
     "\<forall>a < w_fresh ?w. vs a = w_validators ?w a"
     "\<forall>k < length is. \<exists>v. vs (w_fresh ?w + k) = Some v \<and> validator_on pf ?w t td inst v"
    using Cons.IH [of ?w "e + 1" ?e] Cons.prems by auto
  have "validate_phase_loop pf td inst m r (i # is) s e w =
      Inr (w\<lparr>w_validators := vs, w_fresh := w_fresh w + length (i # is)\<rparr>,
        map (\<lambda>k. (Some valdiate_data_process, Some (w_fresh w + k), td_priority t)) [0..<length (i # is)])"
    using vs(1) Cons.prems
    by (simp add: init_validate_data_phase_def table_at_def Let_def upt_conv_Cons map_Suc_upt [symmetric] comp_def del: upt_Suc)
  moreover have "\<exists>v. vs (w_fresh w + k) = Some v \<and> validator_on pf w t td inst v" if "k < length (i # is)" for k
  proof (cases k)
    case 0
    then show ?thesis using vs(2) by (simp add: validator_on_def new_ValidateData_def)
  next
    case (Suc k')
    then show ?thesis using vs(3) that by (auto simp: validator_on_def)
  qed
  ultimately show ?case using vs(2) by (intro exI [of _ vs]) auto
qed

text \<open>C36: The cleaner's end handler opens the validators' copies of the table before its own copy
  is written: one validator per thread is submitted and the count of finished ones starts at 0,
  and each of them works on the lines the file held while the duplicates were still in it, although
  the file afterwards holds what the cleaner left.\<close>

theorem validators_read_uncleaned_rows:
  assumes "w_cleaners w a = Some dc" and "w_tables w (dc_tableData dc) = Some t" and "0 < threads w"
  shows "\<exists>w' subs. clean_data_finalize pf (Some a) w = Inr (w', subs) \<and> length subs = nat (threads w) \<and>
     w_cleanStageMap w' (dc_tableData dc) = Some 0 \<and>
     (\<forall>s \<in> set subs. \<exists>b v. s = (Some valdiate_data_process, Some b, td_priority t) \<and> w_validators w' b = Some v \<and>
        vd_file v = open_database (tableID t) RW_FILE (pf_writable pf) (w_files w)) \<and>
     w_files w' = close_database (pf_writable pf) (dc_file dc) (w_files w)"
proof -
  let ?n = "nat (threads w)" and ?td = "dc_tableData dc" and ?md = "metadata t"
  let ?subs = "map (\<lambda>k. (Some valdiate_data_process, Some (w_fresh w + k), td_priority t)) [0..<?n]"
  have len: "length [1..threads w] = ?n" by simp
  obtain vs where vs: "validate_phase_loop pf ?td (dc_instance dc) (int32 (uint (md_rows ?md div word_of_int (threads w))))
       (md_rows ?md) [1..threads w] 1 (int32 (uint (md_rows ?md div word_of_int (threads w)))) w =
       Inr (w\<lparr>w_validators := vs, w_fresh := w_fresh w + ?n\<rparr>, ?subs)"
     and old: "\<forall>k < ?n. \<exists>v. vs (w_fresh w + k) = Some v \<and> validator_on pf w t ?td (dc_instance dc) v"
    using validate_phase_loop_eq [OF assms(2), of pf "dc_instance dc" _ _ "[1..threads w]"] unfolding len by blast
  have "clean_data_finalize pf (Some a) w = Inr (delete_DataCleaner pf a dc
      (w\<lparr>w_validators := vs, w_fresh := w_fresh w + ?n, w_cleanStageMap := (w_cleanStageMap w)(?td \<mapsto> 0)\<rparr>), ?subs)"
    using assms vs by (simp add: clean_data_finalize_def schedule_validate_phase_def table_at_def Let_def)
  then show ?thesis
    using old by (auto simp: delete_DataCleaner_def validator_on_def)
qed

subsection \<open>Waiting for the validators\<close>

text \<open>What a finished validator of the table does; the return code is ignored.\<close>

definition stage_done :: "'db platform \<Rightarrow> ptr \<Rightarrow> unit \<Rightarrow> 'db world \<Rightarrow> 'db handler_end" where
  "stage_done pf td u w = bindR (update_clean_stages pf (Some td) w) (\<lambda>(_, w1, subs). Inr (w1, subs))"

definition count_stage_done :: "ptr \<Rightarrow> unit \<Rightarrow> 'db world \<Rightarrow> 'db world" where
  "count_stage_done td u w =
     w\<lparr>w_cleanStageMap := (w_cleanStageMap w)(td := map_option (\<lambda>n. n + 1) (w_cleanStageMap w td))\<rparr>"

interpretation cleaned_stages: barrier
  "\<lambda>w n. w_cleanStageMap w td = Some (int n) \<and> (\<exists>t. w_tables w td = Some t)" "\<lambda>w. nat (threads w)"
  "stage_done pf td" "count_stage_done td"
  for pf :: "'db platform" and td :: ptr
  by unfold_locales
    (auto simp: stage_done_def count_stage_done_def update_clean_stages_def table_at_def Let_def nat_less_eq_zless [symmetric])

lemma fold_count_stage_done:
  "w_cleanStageMap w td = Some n \<Longrightarrow> fold (count_stage_done td) us w =
     w\<lparr>w_cleanStageMap := (w_cleanStageMap w)(td \<mapsto> n + int (length us))\<rparr>"
proof (induction us arbitrary: w n)
  case Nil
  then show ?case by (simp add: fun_upd_idem)
next
  case (Cons u us)
  have step: "count_stage_done td () w = w\<lparr>w_cleanStageMap := (w_cleanStageMap w)(td \<mapsto> n + 1)\<rparr>"
    using Cons.prems by (simp add: count_stage_done_def)
  have "fold (count_stage_done td) us (count_stage_done td () w) = (count_stage_done td () w)
      \<lparr>w_cleanStageMap := (w_cleanStageMap (count_stage_done td () w))(td \<mapsto> n + 1 + int (length us))\<rparr>"
    by (rule Cons.IH) (simp add: step)
  then show ?case by (simp add: step add.assoc fun_upd_def cong: if_cong)
qed

lemma send_eq:
  assumes "fs_inv (fwdStack (w_sender w))" and "st \<noteq> SEIZE"
  shows "\<exists>sink. send dat tid st prio w = Inr (w\<lparr>w_sender := sink\<rparr>) \<and> fs_inv (fwdStack sink) \<and>
     outbox (w\<lparr>w_sender := sink\<rparr>) = outbox w @ [(st, tid, dat)]"
  using assms
  by (intro exI [of _ "snd (Sum_Type.projr (pushPacket dat tid st prio (w_sender w)))"])
    (simp add: send_def pushPacket_eq outbox_def sink_view_def fs_inv_def)


subsection \<open>A concrete table\<close>

definition repeated_rows :: "string list" where
  "repeated_rows = [''Sky,Play'', ''Sunny,Yes'', ''Sunny,Yes'', ''Rainy,No'', ''Rainy,Yes'']"

definition repeated_world :: "unit world" where
  "repeated_world = play_world\<lparr>w_files := [''T1.csv'' \<mapsto> concat (map (\<lambda>r. r @ [newline]) repeated_rows)]\<rparr>"

lemma repeated_file:
  "w_files repeated_world (tableID play_table @ ''.csv'') = Some (concat (map (\<lambda>r. r @ [newline]) repeated_rows))"
  "pf_writable play_platform (tableID play_table @ ''.csv'')"
  "getlines (concat (map (\<lambda>r. r @ [newline]) repeated_rows)) = repeated_rows"
proof -
  show "w_files repeated_world (tableID play_table @ ''.csv'') = Some (concat (map (\<lambda>r. r @ [newline]) repeated_rows))"
    "pf_writable play_platform (tableID play_table @ ''.csv'')"
    by (simp_all add: repeated_world_def play_table_def play_platform_def)
  show "getlines (concat (map (\<lambda>r. r @ [newline]) repeated_rows)) = repeated_rows"
    by (rule getlines_rows) (simp add: repeated_rows_def newline_def)
qed

lemma repeated_once: "keep_first repeated_rows = [''Sky,Play'', ''Sunny,Yes'', ''Rainy,No'', ''Rainy,Yes'']"
  by (simp add: repeated_rows_def)

theorem cleaner_keeps_first_occurrences_witness:
  "\<exists>dc. clean_run 6 (new_DataCleaner play_platform play_table 0 0 repeated_world) = Some dc \<and>
     readWriteData (dc_file dc) = [''Sky,Play'', ''Sunny,Yes'', ''Rainy,No'', ''Rainy,Yes'']"
proof -
  have n: "Suc (length repeated_rows) = 6" by (simp add: repeated_rows_def)
  have "length (getlines (concat (map (\<lambda>r. r @ [newline]) repeated_rows))) < 2 ^ 31"
    unfolding repeated_file(3) by (simp add: repeated_rows_def)
  from cleaner_keeps_first_occurrences [OF repeated_file(1,2) this, of 0 0, unfolded repeated_file(3) n repeated_once]
  show ?thesis by blast
qed

theorem validators_read_uncleaned_rows_witness:
  "\<exists>w' subs. clean_data_finalize play_platform (Some 5)
       (repeated_world\<lparr>w_cleaners := [5 \<mapsto> new_DataCleaner play_platform play_table 0 0 repeated_world]\<rparr>) = Inr (w', subs) \<and>
     length subs = 2 \<and> (\<forall>s \<in> set subs. \<exists>b v. s = (Some valdiate_data_process, Some b, MEDIUM_PRIORITY) \<and>
       w_validators w' b = Some v \<and> readWriteData (vd_file v) = repeated_rows)"
proof -
  let ?dc = "new_DataCleaner play_platform play_table 0 0 repeated_world"
  let ?w = "repeated_world\<lparr>w_cleaners := [5 \<mapsto> ?dc]\<rparr>"
  have "w_cleaners ?w 5 = Some ?dc" "w_tables ?w (dc_tableData ?dc) = Some play_table" "threads ?w = 2"
    by (simp_all add: new_DataCleaner_def repeated_world_def)
  moreover have "readWriteData (open_database (tableID play_table) RW_FILE (pf_writable play_platform) (w_files ?w)) = repeated_rows"
    using repeated_file by (simp add: open_database_def Let_def)
  moreover have "td_priority play_table = MEDIUM_PRIORITY" by (simp add: play_table_def)
  ultimately show ?thesis
    using validators_read_uncleaned_rows [of ?w 5 ?dc play_table play_platform] by fastforce
qed


end
