(* ===== verification/Packet_Parsers.thy ===== *)
theory Packet_Parsers
  imports Worker_State
begin

section \<open>The parsers of received packets: receiver\_proc/data\_parser.hpp, instance\_data\_parser.cpp, user\_data\_parser.cpp\<close>

text \<open>
  An instance packet becomes a table of the database and an \<open>Instance\<close>; a data packet becomes a
  table file and a \<open>TableData\<close>. Both bodies are comma separated lines with a header line. The
  parsers read with \<open>int\<close> positions that stay below the length of the body, so positions are
  natural numbers here.
\<close>

subsection \<open>Scanning the body of an instance packet\<close>

definition separator :: "char \<Rightarrow> bool" where
  "separator c \<longleftrightarrow> c = comma \<or> c = newline"

text \<open>
  \<open>while(data[i++] != '\n')\<close> starts at \<open>data[-1]\<close>, the byte in front of the buffer. Position
  \<open>size()\<close> holds a null character, anything behind it is out of bounds.
\<close>

fun count_loop :: "string \<Rightarrow> int \<Rightarrow> int result" where
  "count_loop [] cols = Inl OutOfRange"
| "count_loop (c # cs) cols =
     (if c = newline then Inr cols
      else count_loop cs (case cs of [] \<Rightarrow> cols | d # _ \<Rightarrow> if d = comma then cols + 1 else cols))"

definition countColumns :: "char \<Rightarrow> string \<Rightarrow> int result" where
  "countColumns before data =
     bindR (if before = newline then Inr 0
            else count_loop data (case data of [] \<Rightarrow> 0 | d # _ \<Rightarrow> if d = comma then 1 else 0)) (\<lambda>cols. Inr (cols + 1))"

text \<open>The inner loop \<open>while(end < body.length())\<close>: on to the next separator.\<close>

function skip_field :: "string \<Rightarrow> nat \<Rightarrow> nat" where
  "skip_field body end =
     (if end < length body then if separator (body ! end) then end else skip_field body (Suc end) else end)"
  by auto
termination by (relation "measure (\<lambda>(body, end). length body - end)") auto

declare skip_field.simps [simp del]

lemma skip_field_ge: "end \<le> skip_field body end"
  by (induction body "end" rule: skip_field.induct) (subst skip_field.simps, auto)

text \<open>\<open>substr\<close> throws \<open>std::out_of_range\<close> when it starts behind the end.\<close>

definition substr :: "string \<Rightarrow> nat \<Rightarrow> nat \<Rightarrow> string result" where
  "substr s pos n = (if pos > length s then Inl UncaughtException else Inr (take n (drop pos s)))"

subsection \<open>The parser of instance packets\<close>

record InstanceDataParser =
  insertValueQuery :: string
  createTableQuery :: string
  verifyTableQuery :: string
  dropTableQuery :: string
  idp_colHeaders :: "string list"
  idp_columns :: int
  idp_rows :: int
  idp_tableId :: string
  idp_packet :: json

definition new_InstanceDataParser :: "json \<Rightarrow> InstanceDataParser" where
  "new_InstanceDataParser packet =
     \<lparr>insertValueQuery = [], createTableQuery = [], verifyTableQuery = [], dropTableQuery = [], idp_colHeaders = [],
      idp_columns = 0, idp_rows = 0, idp_tableId = [], idp_packet = packet\<rparr>"

text \<open>\<open>n\<close> columns are left; at the start of each round \<open>start\<close> and \<open>end\<close> are the same position.\<close>

fun header_loop :: "string \<Rightarrow> nat \<Rightarrow> nat \<Rightarrow> InstanceDataParser \<Rightarrow> (nat \<times> InstanceDataParser) result" where
  "header_loop body 0 end p = Inr (end, p)"
| "header_loop body (Suc n) end p =
     (let e = skip_field body end in
      bindR (substr body end (e - end)) (\<lambda>colFeild.
        header_loop body n (Suc e)
          (p\<lparr>createTableQuery := createTableQuery p @ colFeild @ '' varchar(30) NOT NULL'' @ '','',
             insertValueQuery := insertValueQuery p @ colFeild @ (if n > 0 then '','' else []),
             idp_colHeaders := idp_colHeaders p @ [colFeild]\<rparr>)))"

definition createSqlCmds :: "int \<Rightarrow> string \<Rightarrow> InstanceDataParser \<Rightarrow> (nat \<times> InstanceDataParser) result" where
  "createSqlCmds cols body p =
     bindR (header_loop body (nat cols) 0
              (p\<lparr>createTableQuery := ''CREATE TABLE '' @ idp_tableId p @ '' ('',
                 insertValueQuery := ''INSERT INTO '' @ idp_tableId p @ '' ('',
                 verifyTableQuery := ''DESC '' @ idp_tableId p @ '';'', idp_colHeaders := []\<rparr>)) (\<lambda>(end, p').
       Inr (end, p'\<lparr>createTableQuery := createTableQuery p' @ ''ID INTEGER PRIMARY KEY AUTOINCREMENT);'',
                    insertValueQuery := insertValueQuery p' @ '') VALUES (''\<rparr>))"

definition quote :: char where "quote = CHR 0x27"

text \<open>The values of one row; \<open>n\<close> columns are left.\<close>

fun value_loop :: "string \<Rightarrow> nat \<Rightarrow> nat \<Rightarrow> string \<Rightarrow> (string \<times> nat) result" where
  "value_loop data 0 end tempInsert = Inr (tempInsert, end)"
| "value_loop data (Suc n) end tempInsert =
     (let e = skip_field data end in
      bindR (substr data end (e - end)) (\<lambda>v.
        value_loop data n (Suc e) (tempInsert @ [quote] @ v @ [quote] @ (if n > 0 then '','' else []))))"

lemma value_loop_progress: "value_loop data n end q = Inr (q', end') \<Longrightarrow> end + n \<le> end'"
proof (induction n arbitrary: "end" q)
  case (Suc n)
  then obtain v where "value_loop data n (Suc (skip_field data end)) v = Inr (q', end')"
    by (auto simp: Let_def result_simps)
  from Suc.IH [OF this] show ?case using skip_field_ge [of "end" data] by simp
qed simp

text \<open>A refused row is tried once more; a row counts when one of the two attempts succeeds.\<close>

definition insert_row :: "'db sql_exec \<Rightarrow> string \<Rightarrow> 'db \<Rightarrow> bool \<times> 'db" where
  "insert_row exec sqlInsert db =
     (case writeValue exec sqlInsert db of (rc, db1) \<Rightarrow>
        if rc \<noteq> SQLITE_OK then (case writeValue exec sqlInsert db1 of (rc2, db2) \<Rightarrow> (rc2 = SQLITE_OK, db2))
        else (True, db1))"

text \<open>The outer loop; the number of columns is \<open>Suc c\<close>, it is never less than one.\<close>

function insert_loop :: "'db sql_exec \<Rightarrow> string \<Rightarrow> string \<Rightarrow> nat \<Rightarrow> nat \<Rightarrow> int \<Rightarrow> 'db \<Rightarrow> (int \<times> 'db) result" where
  "insert_loop exec q data c end rws db =
     (if end < length data
      then bindR (value_loop data (Suc c) end q) (\<lambda>(tempInsert, end').
             case insert_row exec (tempInsert @ '');'') db of (ok, db') \<Rightarrow>
               insert_loop exec q data c end' (if ok then rws + 1 else rws) db')
      else Inr (rws, db))"
  by auto
termination
proof (relation "measure (\<lambda>(exec, q, data, c, end, rws, db). length data - end)")
  fix exec :: "'db sql_exec" and q data c "end" rws db a x y ok db'
  assume "end < length data" "value_loop data (Suc c) end q = Inr a" "(x, y) = a"
  then have "end + Suc c \<le> y" using value_loop_progress [of data "Suc c" "end" q x y] by simp
  then show "((exec, q, data, c, y, if ok then rws + 1 else rws, db'), exec, q, data, c, end, rws, db)
      \<in> measure (\<lambda>(exec, q, data, c, end, rws, db). length data - end)"
    using \<open>end < length data\<close> by simp
qed simp

declare insert_loop.simps [simp del]

definition insertIntoTable ::
  "'db sql_exec \<Rightarrow> string \<Rightarrow> nat \<Rightarrow> InstanceDataParser \<Rightarrow> 'db \<Rightarrow> (int \<times> InstanceDataParser \<times> 'db) result"
where
  "insertIntoTable exec data startIndex p db =
     (let p0 = p\<lparr>idp_rows := 0\<rparr> in
      case writeValue exec (createTableQuery p) db of (rc, db1) \<Rightarrow>
        bindR (if rc \<noteq> SQLITE_OK then readValue exec (verifyTableQuery p) (- 1) db1 else Inr (Some [], db1)) (\<lambda>(temp, db2).
          if temp = None then Inr (EXIT_FAILURE, p0, db2)
          else bindR (insert_loop exec (insertValueQuery p) data (nat (idp_columns p) - 1) startIndex 0 db2) (\<lambda>(rws, db3).
                 Inr (0, p0\<lparr>idp_rows := rws\<rparr>, db3))))"

definition dropTable :: "'db sql_exec \<Rightarrow> InstanceDataParser \<Rightarrow> 'db \<Rightarrow> InstanceDataParser \<times> 'db" where
  "dropTable exec p db =
     (let dropq = ''DROP TABLE '' @ idp_tableId p @ '';'' in
      (p\<lparr>dropTableQuery := dropq\<rparr>, snd (writeValue exec dropq db)))"

text \<open>The constructor of \<open>Instance\<close> takes 8-bit algorithm and column numbers.\<close>

definition constructInstanceObjects :: "8 word \<Rightarrow> InstanceDataParser \<Rightarrow> Instance list \<Rightarrow> Instance list" where
  "constructInstanceObjects algoType p l =
     instances_add (new_Instance (idp_tableId p) algoType (word_of_int (idp_columns p)) (word_of_int (idp_rows p))) l"

text \<open>\<open>packet["body"][k]\<close>; reading inserts a null value for a missing member, which no conversion takes.\<close>

definition body_field :: "json \<Rightarrow> string \<Rightarrow> json result" where
  "body_field packet k = bindR (json_get ''body'' packet) (json_get k)"

definition drop_models :: "'db sql_exec \<Rightarrow> string \<Rightarrow> 'db \<Rightarrow> int \<times> 'db" where
  "drop_models exec cmd db = (case exec cmd db of (rc, _, db') \<Rightarrow> (rc, db'))"

text \<open>The registry draws five letters for a new alias.\<close>

definition register_version :: "'db platform \<Rightarrow> string \<Rightarrow> 'db world \<Rightarrow> string \<times> 'db world" where
  "register_version pf name w =
     (case addInstance (drop_models (pf_exec pf)) (w_draws w) name (w_models w) (w_db w) of (al, models, db') \<Rightarrow>
        (al, w\<lparr>w_models := models, w_db := db', w_draws := (\<lambda>k. w_draws w (k + 5))\<rparr>))"

text \<open>The first component is the return code, the second the out-parameter \<open>tableID\<close>.\<close>

definition processInstancePacket ::
  "'db platform \<Rightarrow> json \<Rightarrow> string \<Rightarrow> 'db world \<Rightarrow> (ReceiverStatus \<times> string \<times> 'db world) result"
where
  "processInstancePacket pf packet outID w =
     (case bindR (bindR (body_field packet ''instanceid'') json_string) (\<lambda>tid.
           bindR (bindR (body_field packet ''data'') json_string) (\<lambda>bodyData.
           bindR (bindR (body_field packet ''algotype'') json_int) (\<lambda>algoType. Inr (tid, bodyData, int32 algoType)))) of
        Inl _ \<Rightarrow> Inr (P_ERROR, outID, w)
      | Inr (tid, bodyData, algoType) \<Rightarrow>
          (case register_version pf tid w of (al, w1) \<Rightarrow>
           bindR (countColumns (pf_before pf) bodyData) (\<lambda>columns.
           bindR (createSqlCmds columns bodyData
                    ((new_InstanceDataParser packet)\<lparr>idp_tableId := al, idp_columns := columns\<rparr>)) (\<lambda>(bodyDataStart, p).
           bindR (insertIntoTable (pf_exec pf) bodyData bodyDataStart p (w_db w1)) (\<lambda>(rc, p1, db1).
             if rc = EXIT_FAILURE
             then Inr (P_ERROR, al, w1\<lparr>w_db := snd (dropTable (pf_exec pf) p1 db1)\<rparr>)
             else Inr (P_SUCCESS, al,
                    w1\<lparr>w_db := db1, w_instances := constructInstanceObjects (word_of_int algoType) p1 (w_instances w1)\<rparr>))))))"

subsection \<open>The parser of data packets\<close>

definition indexOfTaskPriority :: "int \<Rightarrow> TaskPriority result" where
  "indexOfTaskPriority i =
     (if i = 0 then Inr NON_PREEMTABLE else if i = 1 then Inr HIGH_PRIORITY
      else if i = 2 then Inr MEDIUM_PRIORITY else if i = 3 then Inr LOW_PRIORITY else Inl BadEnum)"

text \<open>The first row holds the names of the columns; the priority is passed in 8 bits.\<close>

definition constructDataObjects ::
  "int \<Rightarrow> int \<Rightarrow> string \<Rightarrow> 8 word \<Rightarrow> string \<Rightarrow> 'db world \<Rightarrow> (DataProcessContainer \<times> 'db world) result"
where
  "constructDataObjects rws columns tid prio algoType w =
     bindR (indexOfTaskPriority (uint prio)) (\<lambda>pr.
       let t = \<lparr>metadata = new_TableMetadata (word_of_int (rws - 1)) (word_of_int columns), tableID = tid,
                td_priority = pr, instanceType = algoType\<rparr> in
       Inr (\<lparr>tData = Some (w_fresh w)\<rparr>,
            w\<lparr>w_tables := (w_tables w)(w_fresh w \<mapsto> t), w_fresh := Suc (w_fresh w)\<rparr>))"

definition processDataPacket ::
  "'db platform \<Rightarrow> json \<Rightarrow> string \<Rightarrow> DataProcessContainer \<Rightarrow> 'db world \<Rightarrow>
   (ReceiverStatus \<times> string \<times> DataProcessContainer \<times> 'db world) result"
where
  "processDataPacket pf packet outID container w =
     (case bindR (bindR (body_field packet ''tableid'') json_string) (\<lambda>tid.
           bindR (bindR (body_field packet ''data'') json_string) (\<lambda>bodyData.
           bindR (bindR (body_field packet ''instancetype'') json_string) (\<lambda>algoType.
           bindR (bindR (body_field packet ''priority'') json_int) (\<lambda>prio. Inr (tid, bodyData, algoType, int32 prio))))) of
        Inl _ \<Rightarrow> Inr (P_ERROR, outID, container, w)
      | Inr (tid, bodyData, algoType, prio) \<Rightarrow>
          let d = open_database tid RW_FILE (pf_writable pf) (w_files w);
              w1 = w\<lparr>w_models := incrimentRefrence algoType (w_models w)\<rparr>;
              al = getInstanceAliasName algoType (w_models w1) in
          if al = [] then Inr (P_ERROR, tid, container, w1)
          else
            let d1 = snd (writeBlob bodyData d) in
            bindR (getTotalColumns d1) (\<lambda>columns.
            bindR (constructDataObjects (getTotalRows d1) columns tid (word_of_int prio) al w1) (\<lambda>(container', w2).
              Inr (P_SUCCESS, tid, container', w2\<lparr>w_files := close_database (pf_writable pf) d1 (w_files w2)\<rparr>))))"

end
