(* ===== verification/Receiver_Stage.thy ===== *)
theory Receiver_Stage
  imports Packet_Parsers Data_Stages Json_Schema
begin

unbundle bit_operations_syntax

section \<open>The receiver stage: receiver\_proc/receiver.cpp\<close>

text \<open>
  Every packet of the server is one receiver stage: its head is validated against a schema, and
  its kind decides whether the worker takes an identifier, a data or instance packet is parsed, or
  an acknowledgement is matched. The schemas are the literals of the source, checked by the
  validator of theory \<open>Json_Schema\<close>.
\<close>

subsection \<open>Schemas\<close>

definition typed_member :: "string \<Rightarrow> string \<Rightarrow> string \<Rightarrow> string \<times> json" where
  "typed_member name description ty = (name, JObj [(''description'', JStr description), (''type'', JStr ty)])"

definition ranged_member :: "string \<Rightarrow> string \<Rightarrow> int \<Rightarrow> int \<Rightarrow> string \<times> json" where
  "ranged_member name description lo hi =
     (name, JObj [(''description'', JStr description), (''minimum'', JNum lo), (''maximum'', JNum hi)])"

definition object_schema :: "string \<Rightarrow> (string \<times> json) list \<Rightarrow> json" where
  "object_schema title properties =
     JObj [(''$schema'', JStr ''http://json-schema.org/draft-07/schema#''), (''title'', JStr title),
           (''properties'', JObj properties), (''required'', JArr (map (\<lambda>p. JStr (fst p)) properties)),
           (''type'', JStr ''object'')]"

definition packetSchema :: json where
  "packetSchema = object_schema ''Main packet''
     [typed_member ''head'' ''packet status'' ''number'', typed_member ''id'' ''CU identification number'' ''string'']"

definition dataPacketSchema :: json where
  "dataPacketSchema = object_schema ''Data Body of packet''
     [typed_member ''tableid'' ''id of table'' ''string'', ranged_member ''priority'' ''priority of data'' 0 3,
      typed_member ''instancetype'' ''type of instance'' ''string'', typed_member ''data'' ''data'' ''string'']"

definition instancePacketSchema :: json where
  "instancePacketSchema = object_schema ''Data Body of packet''
     [typed_member ''instanceid'' ''id of table'' ''string'', ranged_member ''algotype'' ''priority of data'' 0 3,
      typed_member ''data'' ''priority of data'' ''string'']"

subsection \<open>What kind of packet\<close>

definition SP_HANDSHAKE :: int where "SP_HANDSHAKE = 1"
definition SP_DATA_SENT :: int where "SP_DATA_SENT = 2"

definition new_Receiver :: "json \<Rightarrow> Receiver" where
  "new_Receiver packet = \<lparr>rc_packet = packet, rc_tableId = [], isUserData = initFlag False,
     dataProcContainer = \<lparr>tData = None\<rparr>\<rparr>"

definition validatePacketHead :: "Receiver \<Rightarrow> ReceiverStatus" where
  "validatePacketHead r = (if schema_valid packetSchema (rc_packet r) then P_VALID else P_ERROR)"

definition body_valid :: "json \<Rightarrow> Receiver \<Rightarrow> bool" where
  "body_valid schema r =
     (case json_get ''body'' (rc_packet r) of Inl _ \<Rightarrow> False | Inr b \<Rightarrow> schema_valid schema b)"

definition validatePacketBodyType :: "Receiver \<Rightarrow> ReceiverStatus \<times> Receiver" where
  "validatePacketBodyType r =
     (if body_valid dataPacketSchema r then (P_VALID, r\<lparr>isUserData := setFlag (isUserData r)\<rparr>)
      else if body_valid instancePacketSchema r then (P_VALID, r)
      else (P_ERROR, r))"

definition has_bit :: "int \<Rightarrow> int \<Rightarrow> bool" where
  "has_bit packetHead b \<longleftrightarrow> packetHead AND b \<noteq> 0"

text \<open>\<open>matchItemInAwaitStack\<close> answers 0 when the packet was found, which is taken for a failure.\<close>

definition match_ack :: "int \<Rightarrow> Receiver \<Rightarrow> 'db world \<Rightarrow> (ReceiverStatus \<times> 'db world) result" where
  "match_ack status r w =
     bindR (bindR (json_get ''id'' (rc_packet r)) json_string) (\<lambda>tid.
     bindR (matchItemInAwaitStack status tid (w_sender w)) (\<lambda>(rc, sink).
       Inr (if rc \<noteq> 0 then P_OK else P_EMPTY, w\<lparr>w_sender := sink\<rparr>)))"

definition identify_ack :: "int \<Rightarrow> Receiver \<Rightarrow> 'db world \<Rightarrow> (ReceiverStatus \<times> Receiver \<times> 'db world) result" where
  "identify_ack packetHead r w =
     (if has_bit packetHead SP_INTR_ACK then bindR (match_ack SP_INTR_ACK r w) (\<lambda>(st, w1). Inr (st, r, w1))
      else if has_bit packetHead SP_FRES_ACK then bindR (match_ack SP_FRES_ACK r w) (\<lambda>(st, w1). Inr (st, r, w1))
      else Inr (P_ERROR, r, w))"

definition identify_data ::
  "'db platform \<Rightarrow> Receiver \<Rightarrow> 'db world \<Rightarrow> (ReceiverStatus \<times> Receiver \<times> 'db world) result"
where
  "identify_data pf r w =
     (if isFlagSet (isUserData r)
      then bindR (processDataPacket pf (rc_packet r) (rc_tableId r) (dataProcContainer r) w) (\<lambda>(st, tid, c, w1).
             Inr (st, r\<lparr>rc_tableId := tid, dataProcContainer := c\<rparr>, w1))
      else bindR (processInstancePacket pf (rc_packet r) (rc_tableId r) w) (\<lambda>(st, tid, w1).
             Inr (st, r\<lparr>rc_tableId := tid\<rparr>, w1)))"

text \<open>A data packet with a body of neither kind falls through to the acknowledgements.\<close>

definition identifyPacketType ::
  "'db platform \<Rightarrow> Receiver \<Rightarrow> 'db world \<Rightarrow> (ReceiverStatus \<times> Receiver \<times> 'db world) result"
where
  "identifyPacketType pf r w =
     (if validatePacketHead r \<noteq> P_VALID then Inr (P_ERROR, r, w)
      else bindR (bindR (json_get ''head'' (rc_packet r)) json_int) (\<lambda>head. let packetHead = int32 head in
        if has_bit packetHead SP_HANDSHAKE
        then (case bindR (json_get ''id'' (rc_packet r)) json_string of
            Inl _ \<Rightarrow> Inr (P_ERROR, r, w)
          | Inr workerId \<Rightarrow> Inr (P_EMPTY, r, w\<lparr>w_config := setWorkerId workerId (w_config w)\<rparr>))
        else if has_bit packetHead SP_DATA_SENT
        then (case validatePacketBodyType r of (st, r1) \<Rightarrow>
                if st \<noteq> P_ERROR then identify_data pf r1 w else identify_ack packetHead r1 w)
        else identify_ack packetHead r w))"

subsection \<open>The handlers\<close>

definition receiver_proccess :: "'db platform \<Rightarrow> ptr option \<Rightarrow> 'db world \<Rightarrow> 'db handler_start" where
  "receiver_proccess pf data w =
     bindR (deref (w_receivers w) data) (\<lambda>r.
     bindR (identifyPacketType pf r w) (\<lambda>(st, r', w1).
       Inr (if st = P_ERROR then JOB_FAILED else JOB_DONE, w1\<lparr>w_receivers := (w_receivers w1)(the data \<mapsto> r')\<rparr>)))"

definition notify_received :: "Receiver \<Rightarrow> 'db world \<Rightarrow> ('db world) result" where
  "notify_received r w =
     (if isFlagSet (isUserData r)
      then bindR (table_at w (tData (dataProcContainer r))) (\<lambda>t. send [] (rc_tableId r) DAT_RECVD (td_priority t) w)
      else if rc_tableId r \<noteq> []
      then send [] (getInstanceActualName (rc_tableId r) (w_models w)) DAT_RECVD DEFAULT_PRIORITY w
      else Inr w)"

definition receiver_finalize :: "ptr option \<Rightarrow> 'db world \<Rightarrow> 'db handler_end" where
  "receiver_finalize data w =
     bindR (deref (w_receivers w) data) (\<lambda>r.
     bindR (notify_received r w) (\<lambda>w1.
     bindR (if isFlagSet (isUserData r) then init_data_processor (dataProcContainer r) w1 else Inr (w1, [])) (\<lambda>(w2, subs).
       Inr (w2\<lparr>w_receivers := (w_receivers w2)(the data := None)\<rparr>, subs))))"

definition receiver_fail :: "ptr option \<Rightarrow> 'db world \<Rightarrow> 'db handler_end" where
  "receiver_fail data w =
     bindR (deref (w_receivers w) data) (\<lambda>r.
     bindR (send [] (if rc_tableId r = [] then [] else getInstanceActualName (rc_tableId r) (w_models w)) RECV_ERR
              HIGH_PRIORITY w) (\<lambda>w1.
       Inr (w1\<lparr>w_receivers := (w_receivers w1)(the data := None)\<rparr>, [])))"

definition init_receiver :: "json \<Rightarrow> 'db world \<Rightarrow> int \<times> 'db world \<times> (stage, ptr) submission list" where
  "init_receiver pkt w =
     (0, w\<lparr>w_receivers := (w_receivers w)(w_fresh w \<mapsto> new_Receiver pkt), w_fresh := Suc (w_fresh w)\<rparr>,
      [(Some receiver_proc, Some (w_fresh w), NON_PREEMTABLE)])"

end
