(* ===== verification/Packet_Flow.thy ===== *)
theory Packet_Flow
  imports Receiver_Stage
begin

section \<open>What received packets become\<close>

subsection \<open>Lines of an instance body\<close>

definition plain_fields :: "string list \<Rightarrow> bool" where
  "plain_fields vs \<longleftrightarrow> vs \<noteq> [] \<and> (\<forall>v \<in> set vs. \<forall>c \<in> set v. \<not> separator c)"

fun row_text :: "string list \<Rightarrow> string" where
  "row_text [] = []"
| "row_text (v # vs) = v @ (if vs = [] then newline else comma) # row_text vs"

text \<open>The values of a row as they stand in an INSERT statement.\<close>

fun values_sql :: "string list \<Rightarrow> string" where
  "values_sql [] = []"
| "values_sql (v # vs) = [quote] @ v @ [quote] @ (if vs = [] then [] else '','') @ values_sql vs"

fun columns_sql :: "string list \<Rightarrow> string" where
  "columns_sql [] = []"
| "columns_sql (v # vs) = v @ (if vs = [] then [] else '','') @ columns_sql vs"

lemma skip_field_find:
  assumes "\<forall>c \<in> set f. \<not> separator c" and "separator s"
  shows "skip_field (pre @ f @ s # rest) (length pre) = length pre + length f"
  using assms(1)
proof (induction f arbitrary: pre)
  case Nil
  then show ?case using assms(2) by (subst skip_field.simps) (simp add: nth_append)
next
  case (Cons c f)
  have "skip_field ((pre @ [c]) @ f @ s # rest) (length (pre @ [c])) = length (pre @ [c]) + length f"
    using Cons.prems by (intro Cons.IH) simp
  then show ?case using Cons.prems by (subst skip_field.simps) (simp add: nth_append)
qed

lemma substr_mid [simp]: "substr (pre @ f @ rest) (length pre) (length f) = Inr f"
  by (simp add: substr_def)

lemma separators [simp]: "separator comma" "separator newline"
  by (simp_all add: separator_def)

lemma value_loop_row:
  assumes "\<forall>v \<in> set vs. \<forall>c \<in> set v. \<not> separator c"
  shows "value_loop (pre @ row_text vs @ rest) (length vs) (length pre) q =
     Inr (q @ values_sql vs, length pre + length (row_text vs))"
  using assms
proof (induction vs arbitrary: pre q)
  case (Cons v vs)
  let ?s = "if vs = [] then newline else comma"
  let ?data = "pre @ v @ ?s # row_text vs @ rest"
  have e: "skip_field ?data (length pre) = length pre + length v"
    using Cons.prems by (intro skip_field_find) auto
  have s: "substr ?data (length pre) (length v) = Inr v" by (rule substr_mid)
  let ?q = "q @ [quote] @ v @ [quote] @ (if length vs > 0 then '','' else [])"
  have "value_loop ((pre @ v @ [?s]) @ row_text vs @ rest) (length vs) (length (pre @ v @ [?s])) ?q =
      Inr (?q @ values_sql vs, length (pre @ v @ [?s]) + length (row_text vs))"
    using Cons.prems by (intro Cons.IH) simp
  then show ?case by (simp add: e s Let_def)
qed simp

lemma header_loop_row:
  assumes "\<forall>v \<in> set vs. \<forall>c \<in> set v. \<not> separator c"
  shows "\<exists>p'. header_loop (pre @ row_text vs @ rest) (length vs) (length pre) p = Inr (length pre + length (row_text vs), p') \<and>
     insertValueQuery p' = insertValueQuery p @ columns_sql vs \<and>
     createTableQuery p' = createTableQuery p @ concat (map (\<lambda>v. v @ '' varchar(30) NOT NULL,'') vs) \<and>
     idp_columns p' = idp_columns p \<and> idp_tableId p' = idp_tableId p"
  using assms
proof (induction vs arbitrary: pre p)
  case (Cons v vs)
  let ?s = "if vs = [] then newline else comma"
  let ?data = "pre @ v @ ?s # row_text vs @ rest"
  have e: "skip_field ?data (length pre) = length pre + length v"
    using Cons.prems by (intro skip_field_find) auto
  have s: "substr ?data (length pre) (length v) = Inr v" by (rule substr_mid)
  let ?p = "p\<lparr>createTableQuery := createTableQuery p @ v @ '' varchar(30) NOT NULL'' @ '','',
             insertValueQuery := insertValueQuery p @ v @ (if length vs > 0 then '','' else []),
             idp_colHeaders := idp_colHeaders p @ [v]\<rparr>"
  have "\<exists>p'. header_loop ((pre @ v @ [?s]) @ row_text vs @ rest) (length vs) (length (pre @ v @ [?s])) ?p =
       Inr (length (pre @ v @ [?s]) + length (row_text vs), p') \<and>
     insertValueQuery p' = insertValueQuery ?p @ columns_sql vs \<and>
     createTableQuery p' = createTableQuery ?p @ concat (map (\<lambda>v. v @ '' varchar(30) NOT NULL,'') vs) \<and>
     idp_columns p' = idp_columns ?p \<and> idp_tableId p' = idp_tableId ?p"
    using Cons.prems by (intro Cons.IH) simp
  then show ?case using e s by (cases "vs = []") (simp_all add: Let_def add.assoc)
qed simp

lemma count_step: "c \<noteq> newline \<Longrightarrow> count_loop (c # d # t) k = count_loop (d # t) (k + (if d = comma then 1 else 0))"
  by (subst count_loop.simps(2)) (simp del: count_loop.simps)

lemma count_loop_fields:
  assumes "\<forall>v \<in> set vs. \<forall>c \<in> set v. \<not> separator c" and "vs \<noteq> []" and "row_text vs @ rest = c0 # cs"
  shows "count_loop (row_text vs @ rest) (n + (if c0 = comma then 1 else 0)) = Inr (n + int (length vs) - 1)"
proof -
  have skip: "count_loop (f @ s # t) (k + (if hd (f @ s # t) = comma then 1 else 0)) = count_loop (s # t) (k + (if s = comma then 1 else 0))"
    if "\<forall>c \<in> set f. \<not> separator c" for f s t k
    using that
  proof (induction f)
    case (Cons c f)
    then have "c \<noteq> newline" "c \<noteq> comma" by (auto simp: separator_def)
    then show ?case using Cons by (cases f) (simp_all add: count_step del: count_loop.simps)
  qed simp
  have "count_loop (row_text vs @ rest) (n + (if hd (row_text vs @ rest) = comma then 1 else 0)) = Inr (n + int (length vs) - 1)"
    using assms(1,2)
  proof (induction vs arbitrary: n)
    case (Cons v vs)
    have ne: "newline \<noteq> comma" by (simp add: newline_def comma_def)
    have v: "\<forall>c \<in> set v. \<not> separator c" using Cons.prems by simp
    show ?case
    proof (cases vs)
      case Nil
      then show ?thesis using skip [OF v, of newline rest n] ne by simp
    next
      case (Cons v' vs')
      then have "row_text vs @ rest \<noteq> []" by simp
      then obtain d t where d: "row_text vs @ rest = d # t" by (cases "row_text vs @ rest") auto
      have "count_loop (comma # row_text vs @ rest) (n + 1) = count_loop (row_text vs @ rest) (n + 1 + (if d = comma then 1 else 0))"
        using ne d by (simp add: count_step eq_commute [of newline] del: count_loop.simps)
      also have "\<dots> = Inr (n + 1 + int (length vs) - 1)"
        using Cons.IH [of "n + 1"] Cons.prems Cons d by simp
      finally show ?thesis using skip [OF v, of comma "row_text vs @ rest" n] Cons by simp
    qed
  qed simp
  then show ?thesis using assms(3) by simp
qed

subsection \<open>Filling the table of an instance\<close>

text \<open>What a list of statements does to a database that accepts them all.\<close>

definition run_sql :: "'db sql_exec \<Rightarrow> string list \<Rightarrow> 'db \<Rightarrow> 'db" where
  "run_sql exec cmds db = fold (\<lambda>cmd d. snd (writeValue exec cmd d)) cmds db"

definition accepts_all :: "'db sql_exec \<Rightarrow> bool" where
  "accepts_all exec \<longleftrightarrow> (\<forall>cmd db. fst (writeValue exec cmd db) = SQLITE_OK)"

lemma run_sql_Cons [simp]: "run_sql exec (c # cs) db = run_sql exec cs (snd (writeValue exec c db))"
  by (simp add: run_sql_def)

lemma run_sql_Nil [simp]: "run_sql exec [] db = db"
  by (simp add: run_sql_def)

lemma insert_row_ok: "accepts_all exec \<Longrightarrow> insert_row exec cmd db = (True, snd (writeValue exec cmd db))"
proof -
  assume "accepts_all exec"
  then obtain db1 where "writeValue exec cmd db = (SQLITE_OK, db1)" by (metis accepts_all_def prod.collapse)
  then show "insert_row exec cmd db = (True, snd (writeValue exec cmd db))" by (simp add: insert_row_def)
qed

lemma insert_loop_rows:
  assumes "accepts_all exec" and "\<forall>vs \<in> set rs. length vs = Suc c \<and> (\<forall>v \<in> set vs. \<forall>x \<in> set v. \<not> separator x)"
  shows "insert_loop exec q (pre @ concat (map row_text rs)) c (length pre) n db =
     Inr (n + int (length rs), run_sql exec (map (\<lambda>vs. q @ values_sql vs @ '');'') rs) db)"
  using assms(2)
proof (induction rs arbitrary: pre n db)
  case Nil
  then show ?case by (subst insert_loop.simps) simp
next
  case (Cons vs rs)
  let ?data = "pre @ row_text vs @ concat (map row_text rs)"
  have "value_loop ?data (length vs) (length pre) q = Inr (q @ values_sql vs, length pre + length (row_text vs))"
    using Cons.prems by (intro value_loop_row) simp
  moreover have "length vs = Suc c" "vs \<noteq> []" using Cons.prems by auto
  moreover have "row_text vs \<noteq> []" using \<open>vs \<noteq> []\<close> by (cases vs) auto
  moreover have "insert_loop exec q ((pre @ row_text vs) @ concat (map row_text rs)) c (length (pre @ row_text vs)) (n + 1)
        (snd (writeValue exec (q @ values_sql vs @ '');'') db)) =
      Inr (n + 1 + int (length rs), run_sql exec (map (\<lambda>vs. q @ values_sql vs @ '');'') rs)
        (snd (writeValue exec (q @ values_sql vs @ '');'') db)))"
    using Cons.prems by (intro Cons.IH) simp
  ultimately show ?case by (subst insert_loop.simps) (simp add: insert_row_ok [OF assms(1)])
qed

definition create_statement :: "string \<Rightarrow> string list \<Rightarrow> string" where
  "create_statement t hs = ''CREATE TABLE '' @ t @ '' ('' @ concat (map (\<lambda>v. v @ '' varchar(30) NOT NULL,'') hs) @
     ''ID INTEGER PRIMARY KEY AUTOINCREMENT);''"

definition insert_statement :: "string \<Rightarrow> string list \<Rightarrow> string list \<Rightarrow> string" where
  "insert_statement t hs vs = ''INSERT INTO '' @ t @ '' ('' @ columns_sql hs @ '') VALUES ('' @ values_sql vs @ '');''"

lemma countColumns_row:
  assumes "plain_fields hs" and "before \<noteq> newline"
  shows "countColumns before (row_text hs @ rest) = Inr (int (length hs))"
proof -
  have "row_text hs @ rest \<noteq> []" using assms(1) by (cases hs) (auto simp: plain_fields_def)
  then obtain c cs where c: "row_text hs @ rest = c # cs" by (cases "row_text hs @ rest") auto
  then have "count_loop (row_text hs @ rest) (0 + (if c = comma then 1 else 0)) = Inr (0 + int (length hs) - 1)"
    using assms(1) by (intro count_loop_fields) (auto simp: plain_fields_def)
  then show ?thesis using c assms(2) by (auto simp: countColumns_def)
qed

lemma insertIntoTable_eq:
  assumes "accepts_all exec" and "\<forall>vs \<in> set rs. length vs = Suc c \<and> (\<forall>v \<in> set vs. \<forall>x \<in> set v. \<not> separator x)"
    and "createTableQuery p = cr" and "insertValueQuery p = q" and "idp_columns p = int (Suc c)"
  shows "insertIntoTable exec (pre @ concat (map row_text rs)) (length pre) p db =
     Inr (0, p\<lparr>idp_rows := int (length rs)\<rparr>, run_sql exec (cr # map (\<lambda>vs. q @ values_sql vs @ '');'') rs) db)"
proof -
  obtain db1 where w: "writeValue exec cr db = (SQLITE_OK, db1)"
    using assms(1) by (metis accepts_all_def prod.collapse)
  have "nat (idp_columns p) - 1 = c" by (simp add: assms(5))
  then show ?thesis
    using insert_loop_rows [OF assms(1,2), of q pre 0] by (simp add: insertIntoTable_def assms(3,4) w Let_def)
qed

text \<open>Creating the table and inserting the rows behind the header.\<close>

lemma insertIntoTable_rows:
  assumes "accepts_all exec" and "plain_fields hs" and "\<forall>vs \<in> set rs. length vs = length hs \<and> plain_fields vs"
    and "idp_tableId p = t" and "idp_columns p = int (length hs)"
  shows "\<exists>p' p''. createSqlCmds (int (length hs)) (concat (map row_text (hs # rs))) p = Inr (length (row_text hs), p') \<and>
     insertIntoTable exec (concat (map row_text (hs # rs))) (length (row_text hs)) p' db =
       Inr (0, p'', run_sql exec (create_statement t hs # map (insert_statement t hs) rs) db) \<and>
     idp_rows p'' = int (length rs) \<and> idp_columns p'' = int (length hs) \<and> idp_tableId p'' = t"
proof -
  let ?body = "concat (map row_text (hs # rs))"
  let ?base = "p\<lparr>createTableQuery := ''CREATE TABLE '' @ t @ '' ('', insertValueQuery := ''INSERT INTO '' @ t @ '' ('',
       verifyTableQuery := ''DESC '' @ t @ '';'', idp_colHeaders := []\<rparr>"
  obtain p1 where "header_loop ([] @ row_text hs @ concat (map row_text rs)) (length hs) (length ([] :: string)) ?base =
       Inr (length ([] :: string) + length (row_text hs), p1)"
    and p1: "insertValueQuery p1 = insertValueQuery ?base @ columns_sql hs"
      "createTableQuery p1 = createTableQuery ?base @ concat (map (\<lambda>v. v @ '' varchar(30) NOT NULL,'') hs)"
      "idp_columns p1 = idp_columns ?base" "idp_tableId p1 = idp_tableId ?base"
    using header_loop_row [of hs "[]" "concat (map row_text rs)" ?base] assms(2) unfolding plain_fields_def by blast
  then have h: "header_loop ?body (length hs) 0 ?base = Inr (length (row_text hs), p1)" by simp
  let ?p = "p1\<lparr>createTableQuery := createTableQuery p1 @ ''ID INTEGER PRIMARY KEY AUTOINCREMENT);'',
      insertValueQuery := insertValueQuery p1 @ '') VALUES (''\<rparr>"
  have create: "createSqlCmds (int (length hs)) ?body p = Inr (length (row_text hs), ?p)"
    using h assms(4) by (simp add: createSqlCmds_def)
  let ?q = "''INSERT INTO '' @ t @ '' ('' @ columns_sql hs @ '') VALUES (''"
  have q: "createTableQuery ?p = create_statement t hs" "insertValueQuery ?p = ?q"
    using p1 by (simp_all add: create_statement_def)
  have st: "(\<lambda>vs. ?q @ values_sql vs @ '');'') = insert_statement t hs"
    by (simp add: insert_statement_def fun_eq_iff)
  obtain c where c: "length hs = Suc c" using assms(2) by (cases hs) (auto simp: plain_fields_def)
  then have rows: "\<forall>vs \<in> set rs. length vs = Suc c \<and> (\<forall>v \<in> set vs. \<forall>x \<in> set v. \<not> separator x)"
      and "idp_columns ?p = int (Suc c)"
    using assms(3,5) p1(3) by (simp_all add: plain_fields_def)
  from insertIntoTable_eq [OF assms(1) rows q this(2)]
  have "insertIntoTable exec (row_text hs @ concat (map row_text rs)) (length (row_text hs)) ?p db =
      Inr (0, ?p\<lparr>idp_rows := int (length rs)\<rparr>, run_sql exec (create_statement t hs # map (\<lambda>vs. ?q @ values_sql vs @ '');'') rs) db)" .
  then have "insertIntoTable exec ?body (length (row_text hs)) ?p db =
      Inr (0, ?p\<lparr>idp_rows := int (length rs)\<rparr>, run_sql exec (create_statement t hs # map (insert_statement t hs) rs) db)"
    unfolding st by simp
  then show ?thesis using create p1(3,4) assms(4,5) by (intro exI [of _ ?p] exI) auto
qed

subsection \<open>Instance packets\<close>

text \<open>The members of the body the parser reads.\<close>

definition instance_body :: "json \<Rightarrow> string \<Rightarrow> int \<Rightarrow> string list list \<Rightarrow> bool" where
  "instance_body packet name algo rs \<longleftrightarrow> body_field packet ''instanceid'' = Inr (JStr name) \<and>
     body_field packet ''algotype'' = Inr (JNum algo) \<and> 0 \<le> algo \<and> algo < 256 \<and>
     body_field packet ''data'' = Inr (JStr (concat (map row_text rs))) \<and> rs \<noteq> [] \<and> plain_fields (hd rs)"

lemma register_version_frame:
  "register_version pf name w = (al, w') \<Longrightarrow> w_instances w' = w_instances w"
  by (auto simp: register_version_def split: prod.splits)

lemma instance_body_parse:
  assumes "instance_body packet name algo (hs # rs)" and "pf_before pf \<noteq> newline" and "register_version pf name w = (al, w1)"
    and "createSqlCmds (int (length hs)) (concat (map row_text (hs # rs)))
      ((new_InstanceDataParser packet)\<lparr>idp_tableId := al, idp_columns := int (length hs)\<rparr>) = Inr (n, p)"
  shows "processInstancePacket pf packet out w =
    bindR (insertIntoTable (pf_exec pf) (concat (map row_text (hs # rs))) n p (w_db w1)) (\<lambda>(rc, p1, db1).
             if rc = EXIT_FAILURE
             then Inr (P_ERROR, al, w1\<lparr>w_db := snd (dropTable (pf_exec pf) p1 db1)\<rparr>)
             else Inr (P_SUCCESS, al,
                    w1\<lparr>w_db := db1, w_instances := constructInstanceObjects (word_of_int algo) p1 (w_instances w1)\<rparr>))"
proof -
  have "countColumns (pf_before pf) (row_text hs @ concat (map row_text rs)) = Inr (int (length hs))"
    using assms(1,2) by (intro countColumns_row) (simp_all add: instance_body_def)
  moreover have "int32 algo = algo" using assms(1) by (intro int32_id) (auto simp: instance_body_def)
  ultimately show ?thesis
    using assms(1,3,4) by (simp add: processInstancePacket_def instance_body_def)
qed


lemma no_old_version:
  "\<forall>m \<in> set l. actualName m = n \<longrightarrow> \<not> scheduledToDelete m \<and> referenceCount m = 0 \<Longrightarrow>
   getInstanceAliasName n (fst (versions_loop exec n l db) @ [new_InstanceModel n al]) = al"
  by (induction l arbitrary: db) (auto simp: new_InstanceModel_def split_beta)

lemma unknown_instance: "iid \<notin> getId ` set l \<Longrightarrow> getInstanceFromId iid l = blank_Instance"
  by (induction l) auto

text \<open>An instance packet whose table cannot be created, because the database refuses the
  CREATE statement and the DESC statement that is meant to check for an old table, is an error,
  but its version is registered all the same: when the versions before it are not in use they
  are gone, and from then on the name stands for an alias that has no instance. The stage is run
  again after the error, and each run registers one more such version.\<close>

theorem failed_instance_packet_shadows:
  assumes "instance_body packet name algo (hs # rs)" and "pf_before pf \<noteq> newline"
    and "\<forall>cmd db. fst (pf_exec pf cmd db) \<noteq> SQLITE_OK \<and> fst (snd (pf_exec pf cmd db)) = []"
    and "register_version pf name w = (al, w1)" and "al \<notin> getId ` set (w_instances w)"
    and "\<forall>m \<in> set (w_models w). actualName m = name \<longrightarrow> \<not> scheduledToDelete m \<and> referenceCount m = 0"
  shows "\<exists>w'. processInstancePacket pf packet out w = Inr (P_ERROR, al, w') \<and>
     getInstanceAliasName name (w_models w') = al \<and>
     getId (getInstanceFromId (getInstanceAliasName name (w_models w')) (w_instances w')) = []"
proof -
  let ?p = "(new_InstanceDataParser packet)\<lparr>idp_tableId := al, idp_columns := int (length hs)\<rparr>"
  let ?body = "row_text hs @ concat (map row_text rs)"
  have hs: "\<forall>v \<in> set hs. \<forall>c \<in> set v. \<not> separator c"
    using assms(1) by (simp add: instance_body_def plain_fields_def)
  let ?base = "?p\<lparr>createTableQuery := ''CREATE TABLE '' @ al @ '' ('', insertValueQuery := ''INSERT INTO '' @ al @ '' ('',
       verifyTableQuery := ''DESC '' @ al @ '';'', idp_colHeaders := []\<rparr>"
  obtain n p where c: "createSqlCmds (int (length hs)) (concat (map row_text (hs # rs))) ?p = Inr (n, p)"
    using header_loop_row [OF hs, of "[]" "concat (map row_text rs)" ?base] by (auto simp: createSqlCmds_def)
  have w: "\<exists>rc db'. writeValue (pf_exec pf) cmd db = (rc, db') \<and> rc \<noteq> SQLITE_OK" for cmd db
    using assms(3) [rule_format, of "c_str cmd" db] by (auto simp: writeValue_def split: prod.split)
  have r: "\<exists>db'. readValue (pf_exec pf) cmd k db = Inr (None, db')" for cmd k db
    using assms(3) [rule_format, of "c_str cmd" db] by (auto simp: readValue_def query_def split: prod.split)
  obtain rc db1 where w1: "writeValue (pf_exec pf) (createTableQuery p) (w_db w1) = (rc, db1)" "rc \<noteq> SQLITE_OK"
    using w by blast
  obtain db2 where "readValue (pf_exec pf) (verifyTableQuery p) (- 1) db1 = Inr (None, db2)" using r by blast
  then have "\<exists>p1 db1. insertIntoTable (pf_exec pf) ?body n p (w_db w1) = Inr (EXIT_FAILURE, p1, db1)"
    using w1 by (simp add: insertIntoTable_def Let_def)
  then obtain p1 db1 where "insertIntoTable (pf_exec pf) ?body n p (w_db w1) = Inr (EXIT_FAILURE, p1, db1)" by blast
  then have run: "processInstancePacket pf packet out w =
      Inr (P_ERROR, al, w1\<lparr>w_db := snd (dropTable (pf_exec pf) p1 db1)\<rparr>)"
    using instance_body_parse [OF assms(1,2,4) c] by simp
  obtain ms d where v: "versions_loop (drop_models (pf_exec pf)) name (w_models w) (w_db w) = (ms, d)" by fastforce
  then have "w_models w1 = ms @ [new_InstanceModel name al]"
    using assms(4) by (auto simp: register_version_def addInstance_def Let_def)
  then have "getInstanceAliasName name (w_models w1) = al"
    using no_old_version [OF assms(6), of "drop_models (pf_exec pf)" "w_db w" al] v by simp
  then show ?thesis
    using run assms(5) register_version_frame [OF assms(4)]
    by (simp add: unknown_instance blank_Instance_def getId_def)
qed

subsection \<open>Data packets\<close>

definition data_body :: "json \<Rightarrow> string \<Rightarrow> string \<Rightarrow> int \<Rightarrow> string \<Rightarrow> bool" where
  "data_body packet tid inst prio data \<longleftrightarrow> body_field packet ''tableid'' = Inr (JStr tid) \<and>
     body_field packet ''instancetype'' = Inr (JStr inst) \<and> body_field packet ''priority'' = Inr (JNum prio) \<and>
     0 \<le> prio \<and> prio \<le> 3 \<and> body_field packet ''data'' = Inr (JStr data)"

lemma alias_incriment [simp]: "getInstanceAliasName n (incrimentRefrence k l) = getInstanceAliasName n l"
  by (induction l) auto

lemma priority_of_number:
  assumes "0 \<le> prio" and "prio \<le> 3"
  shows "\<exists>pr. indexOfTaskPriority (uint (word_of_int (int32 prio) :: 8 word)) = Inr pr \<and> int (priority_value pr) = prio"
proof -
  have "prio \<in> {0, 1, 2, 3}" using assms by auto
  moreover have "int32 prio = prio" using assms by (intro int32_id) auto
  ultimately show ?thesis by (auto simp: indexOfTaskPriority_def)
qed

lemma parse_data_body:
  "data_body packet tid inst prio data \<Longrightarrow>
   bindR (bindR (body_field packet ''tableid'') json_string) (\<lambda>tid.
           bindR (bindR (body_field packet ''data'') json_string) (\<lambda>bodyData.
           bindR (bindR (body_field packet ''instancetype'') json_string) (\<lambda>algoType.
           bindR (bindR (body_field packet ''priority'') json_int) (\<lambda>prio. Inr (tid, bodyData, algoType, int32 prio))))) =
   Inr (tid, data, inst, int32 prio)"
  by (simp add: data_body_def)


text \<open>A data packet with an empty body cannot be handled: the first row of an empty table is read.\<close>

lemma empty_data_packet:
  assumes "data_body packet tid inst prio []" and "getInstanceAliasName inst (w_models w) \<noteq> []"
  shows "processDataPacket pf packet out c w = Inl OutOfRange"
proof -
  let ?d = "open_database tid RW_FILE (pf_writable pf) (w_files w)"
  have "accessMode ?d = RW_FILE" "\<not> fileDeleted ?d"
    by (simp_all add: open_database_def Let_def split: option.split)
  then have "getTotalColumns (snd (writeBlob [] ?d)) = Inl OutOfRange"
    by (simp add: getTotalColumns_def writeBlob_def split_string_by_newline_def)
  then show ?thesis
    unfolding processDataPacket_def parse_data_body [OF assms(1)] using assms(2) by (simp add: Let_def)
qed

subsection \<open>Concrete packets\<close>

text \<open>A database that records its statements, one that refuses them, and three packets.\<close>

definition log_platform :: "string list platform" where
  "log_platform = \<lparr>pf_writable = (\<lambda>_. True), pf_exec = (\<lambda>cmd db. (0, [], db @ [cmd])), pf_iequals = (=),
     pf_before = CHR 0x00\<rparr>"

definition refusing_platform :: "string list platform" where
  "refusing_platform = log_platform\<lparr>pf_exec := (\<lambda>cmd db. (1, [], db))\<rparr>"

definition weather_rows_text :: string where
  "weather_rows_text = concat (map row_text [[''Sky'', ''Play''], [''Sunny'', ''Yes''], [''Rainy'', ''No'']])"

definition weather_instance_packet :: json where
  "weather_instance_packet = JObj [(''head'', JNum 2), (''id'', JStr ''CU1''), (''body'',
     JObj [(''instanceid'', JStr ''Weather''), (''algotype'', JNum 1), (''data'', JStr weather_rows_text)])]"

definition weather_data_packet :: json where
  "weather_data_packet = JObj [(''head'', JNum 2), (''id'', JStr ''CU1''), (''body'',
     JObj [(''tableid'', JStr ''T2''), (''priority'', JNum 2), (''instancetype'', JStr ''Weather''),
       (''data'', JStr (concat (map (\<lambda>r. r @ [newline]) [''Sky,Play'', ''Sunny,Yes'', ''Rainy,No''])))])]"

lemma weather_instance_body:
  "instance_body weather_instance_packet ''Weather'' 1 [[''Sky'', ''Play''], [''Sunny'', ''Yes''], [''Rainy'', ''No'']]"
  by (simp add: instance_body_def weather_instance_packet_def body_field_def weather_rows_text_def plain_fields_def
      separator_def comma_def newline_def)

lemma first_prefix: "getPrefixString (\<lambda>_. 0) = ''aaaaa''"
  by (simp add: getPrefixString_def alphabetPool_def upt_rec)


theorem failed_instance_packet_shadows_witness:
  "\<exists>w'. processInstancePacket refusing_platform weather_instance_packet [] ((small_world [])\<lparr>w_instances := []\<rparr>) =
       Inr (P_ERROR, ''Weather_aaaaa'', w') \<and> getInstanceAliasName ''Weather'' (w_models w') = ''Weather_aaaaa''"
proof -
  let ?w = "(small_world [])\<lparr>w_instances := []\<rparr>"
  let ?w1 = "?w\<lparr>w_models := [new_InstanceModel ''Weather'' ''Weather_aaaaa''], w_draws := (\<lambda>k. 0)\<rparr>"
  have r: "register_version refusing_platform ''Weather'' ?w = (''Weather_aaaaa'', ?w1)"
    by (simp add: register_version_def addInstance_def Let_def small_world_def first_prefix new_InstanceModel_def
        deleteInstanceModel_def drop_models_def refusing_platform_def)
  have before: "pf_before refusing_platform \<noteq> newline" by (simp add: refusing_platform_def log_platform_def newline_def)
  have refuses: "\<forall>cmd db. fst (pf_exec refusing_platform cmd db) \<noteq> SQLITE_OK \<and> fst (snd (pf_exec refusing_platform cmd db)) = []"
    by (simp add: refusing_platform_def SQLITE_OK_def)
  have unused: "\<forall>m \<in> set (w_models ?w). actualName m = ''Weather'' \<longrightarrow> \<not> scheduledToDelete m \<and> referenceCount m = 0"
    by (simp add: small_world_def new_InstanceModel_def)
  show ?thesis
    using failed_instance_packet_shadows [OF weather_instance_body before refuses r _ unused, of "[]"] by auto
qed


end
