(* ===== verification/Pipeline.thy ===== *)
theory Pipeline
  imports Data_Flow Packet_Flow Scheduler
begin

section \<open>The stages put together\<close>

text \<open>
  The stage structs of the worker, with the handlers of the components, in the form the scheduler
  runs them: \<open>worker_stage\<close> is the environment of the scheduler's definitions, whose world is the
  state the stages share.
\<close>

subsection \<open>The stage structs\<close>

text \<open>Members that an initialiser leaves out are null; the example stage has no type, that is 0.\<close>

type_synonym 'db stage_struct = "(stage, ptr, 'db world) ProcessStates"

definition receiver_struct :: "'db platform \<Rightarrow> 'db stage_struct" where [simp]:
  "receiver_struct pf = \<lparr>ps_type = RECEIVER_STAGE, start_proc = Some (receiver_proccess pf), pause_proc = None,
     end_proc = Some receiver_finalize, fail_proc = Some receiver_fail\<rparr>"

definition data_struct :: "'db platform \<Rightarrow> 'db stage_struct" where [simp]:
  "data_struct pf = \<lparr>ps_type = DATAPROCESSOR_STAGE, start_proc = Some (process_data_start pf),
     pause_proc = Some process_data_pause, end_proc = Some (process_data_finalize pf),
     fail_proc = Some (process_data_failed pf)\<rparr>"

definition clean_struct :: "'db platform \<Rightarrow> 'db stage_struct" where [simp]:
  "clean_struct pf = \<lparr>ps_type = DATAPROCESSOR_STAGE, start_proc = Some clean_data_start,
     pause_proc = Some clean_data_pause, end_proc = Some (clean_data_finalize pf), fail_proc = Some (clean_data_failed pf)\<rparr>"

definition validate_struct :: "'db platform \<Rightarrow> 'db stage_struct" where [simp]:
  "validate_struct pf = \<lparr>ps_type = DATAPROCESSOR_STAGE, start_proc = Some (validate_data_start_process pf),
     pause_proc = Some validate_data_pause, end_proc = Some (validate_data_finalize pf), fail_proc = None\<rparr>"

definition ce_struct :: "'db platform \<Rightarrow> 'db stage_struct" where [simp]:
  "ce_struct pf = \<lparr>ps_type = COMPUTE_STAGE, start_proc = Some (candidate_elimination_start_process pf),
     pause_proc = Some candidate_elimination_pause, end_proc = Some (candidate_elimination_end pf), fail_proc = None\<rparr>"

definition ce_finalize_struct :: "'db stage_struct" where [simp]:
  "ce_finalize_struct = \<lparr>ps_type = COMPUTE_STAGE, start_proc = Some ce_finalize_start,
     pause_proc = Some ce_finalize_pause, end_proc = Some ce_finalize_end_process, fail_proc = None\<rparr>"

definition example_struct :: "'db stage_struct" where [simp]:
  "example_struct = \<lparr>ps_type = 0, start_proc = Some example_start_process,
     pause_proc = Some example_pause_process, end_proc = Some example_end_process, fail_proc = None\<rparr>"

fun worker_stage :: "'db platform \<Rightarrow> stage \<Rightarrow> 'db stage_struct" where
  "worker_stage pf receiver_proc = receiver_struct pf"
| "worker_stage pf data_proc = data_struct pf"
| "worker_stage pf clean_proc = clean_struct pf"
| "worker_stage pf valdiate_data_process = validate_struct pf"
| "worker_stage pf ce_algorithm = ce_struct pf"
| "worker_stage pf ce_finalize_proc = ce_finalize_struct"
| "worker_stage pf example_proc = example_struct"

subsection \<open>Every submission carries an object of its stage\<close>

fun object_live :: "stage \<Rightarrow> ptr \<Rightarrow> 'db world \<Rightarrow> bool" where
  "object_live receiver_proc a w = (w_receivers w a \<noteq> None)"
| "object_live data_proc a w = (w_processors w a \<noteq> None)"
| "object_live clean_proc a w = (w_cleaners w a \<noteq> None)"
| "object_live valdiate_data_process a w = (w_validators w a \<noteq> None)"
| "object_live ce_algorithm a w = (w_ces w a \<noteq> None)"
| "object_live ce_finalize_proc a w = (w_finals w a \<noteq> None)"
| "object_live example_proc a w = False"

text \<open>The example algorithm is submitted without an argument; \<open>scheduleTask\<close> refuses that.\<close>

fun well_typed :: "'db world \<Rightarrow> (stage, ptr) submission \<Rightarrow> bool" where
  "well_typed w (Some p, Some a, prio) = object_live p a w"
| "well_typed w (Some p, None, prio) = (p = example_proc)"
| "well_typed w (None, a, prio) = False"

named_theorems stage_defs "handlers and the calls they make"

lemmas [stage_defs] = receiver_finalize_def receiver_fail_def notify_received_def init_data_processor_def
  process_data_finalize_def process_data_failed_def init_data_cleaner_def delete_DataProcessor_def
  clean_data_finalize_def clean_data_failed_def delete_DataCleaner_def validate_data_finalize_def
  candidate_elimination_end_def ce_finalize_end_process_def example_end_process_def dealloc_table_dat_def

text \<open>A submission of a chunk stays well-typed as long as chunks are only added.\<close>

definition chunk_typed :: "'db world \<Rightarrow> (stage, ptr) submission \<Rightarrow> bool" where
  "chunk_typed w s \<longleftrightarrow> (\<exists>prio. s = (Some example_proc, None, prio)) \<or>
     (\<exists>a prio. s = (Some ce_algorithm, Some a, prio) \<and> w_ces w a \<noteq> None)"

lemma avial_algo_chunk:
  "avial_algo pf algo t i s e c w = Inr (pkg, w') \<Longrightarrow>
   chunk_typed w' (submit_package pkg prio) \<and> (\<forall>b. w_ces w b \<noteq> None \<longrightarrow> w_ces w' b \<noteq> None)"
  by (auto simp: avial_algo_def init_example_algo_def init_ce_algorithm_def result_simps chunk_typed_def submit_package_def
      split: if_splits)

lemma split_loop_chunk:
  "split_loop pf algo td n is s w = Inr (s', w', subs) \<Longrightarrow>
   (\<forall>x \<in> set subs. chunk_typed w' x) \<and> (\<forall>b. w_ces w b \<noteq> None \<longrightarrow> w_ces w' b \<noteq> None)"
proof (induction "is" arbitrary: s w s' w' subs)
  case (Cons i "is")
  then obtain pkg w1 subs1 where a: "avial_algo pf algo (tableID td) (instanceType td) s (n * i)
        (int32 (uint (md_columns (metadata td)))) w = Inr (pkg, w1)"
    and l: "split_loop pf algo td n is (n * i + 1) w1 = Inr (s', w', subs1)"
    and subs: "subs = submit_package pkg (td_priority td) # subs1"
    by (auto simp: result_simps)
  show ?case
    using avial_algo_chunk [OF a, of "td_priority td"] Cons.IH [OF l] subs by (auto simp: chunk_typed_def)
qed simp

lemma sched_algo_chunk:
  "sched_algo pf p w = Inr (rc, w', subs) \<Longrightarrow> \<forall>x \<in> set subs. chunk_typed w' x"
proof -
  assume s: "sched_algo pf p w = Inr (rc, w', subs)"
  show ?thesis
  proof (cases p)
    case None
    then show ?thesis using s by (simp add: sched_algo_def)
  next
    case (Some a)
    with s obtain td n start w2 subs1 pkg where
        l: "split_loop pf (linked_algorithm w td) td n [1..threads w - 1] 1 (register_package (tableID td) a w) = Inr (start, w2, subs1)"
      and a: "avial_algo pf (linked_algorithm w td) (tableID td) (instanceType td) start (int32 (uint (md_rows (metadata td))))
         (int32 (uint (md_columns (metadata td)))) w2 = Inr (pkg, w')"
      and subs: "subs = subs1 @ [submit_package pkg (td_priority td)]"
      by (auto simp: sched_algo_def Let_def result_simps split: if_splits)
    show ?thesis
      using split_loop_chunk [OF l] avial_algo_chunk [OF a, of "td_priority td"] subs by (auto simp: chunk_typed_def)
  qed
qed

lemma update_clean_stages_typed:
  "update_clean_stages pf p w = Inr (rc, w', subs) \<Longrightarrow> \<forall>x \<in> set subs. chunk_typed w' x"
  by (auto simp: update_clean_stages_def Let_def result_simps dest: sched_algo_chunk split: option.splits if_splits)

lemma update_algo_result_typed:
  "update_algo_result pf t r w = Inr (rc, w', subs) \<Longrightarrow>
   \<forall>x \<in> set subs. (\<exists>a prio. x = (Some ce_finalize_proc, Some a, prio) \<and> w_finals w' a \<noteq> None) \<or> (\<exists>prio. x = (Some example_proc, None, prio))"
  by (auto simp: update_algo_result_def finish_table_def Let_def result_simps submit_package_def dealloc_table_dat_def
      avialable_finalize_algo_def init_ce_finalize_def init_example_finalize_def split: option.splits if_splits)

lemma validate_phase_loop_typed:
  "validate_phase_loop pf td inst m r is s e w = Inr (w', subs) \<Longrightarrow>
   (\<forall>x \<in> set subs. \<exists>a prio. x = (Some valdiate_data_process, Some a, prio) \<and> w_validators w' a \<noteq> None) \<and>
   (\<forall>b. w_validators w b \<noteq> None \<longrightarrow> w_validators w' b \<noteq> None)"
proof (induction "is" arbitrary: s e w w' subs)
  case (Cons i "is")
  then obtain w1 subs1 e' subs2 where a: "init_validate_data_phase pf s e td inst w = Inr (w1, subs1)"
    and l: "validate_phase_loop pf td inst m r is (e + 1) e' w1 = Inr (w', subs2)" and subs: "subs = subs1 @ subs2"
    by (auto simp: Let_def result_simps)
  have "(\<forall>x \<in> set subs1. \<exists>a prio. x = (Some valdiate_data_process, Some a, prio) \<and> w_validators w1 a \<noteq> None) \<and>
     (\<forall>b. w_validators w b \<noteq> None \<longrightarrow> w_validators w1 b \<noteq> None)"
    using a by (auto simp: init_validate_data_phase_def result_simps)
  then show ?case using Cons.IH [OF l] subs by fastforce
qed simp

lemma end_handlers_typed:
  assumes "end_proc (worker_stage pf p) = Some h" and "h data w = Inr (w', subs)" and "s \<in> set subs"
  shows "well_typed w' s"
proof (cases p)
  case data_proc
  then obtain dp where "deref (w_processors w) data = Inr dp" "process_data_finalize pf data w = Inr (w', subs)"
    using assms(1,2) by (auto simp: process_data_finalize_def result_simps)
  then show ?thesis using assms(3)
    by (cases "dp_tableData dp"; cases "dp_instanceData dp"; cases "dp_file dp")
      (auto simp: stage_defs result_simps)
next
  case clean_proc
  then show ?thesis using assms validate_phase_loop_typed
    by (fastforce simp: stage_defs schedule_validate_phase_def Let_def result_simps split: if_splits)
next
  case valdiate_data_process
  then show ?thesis using assms
    by (fastforce simp: stage_defs result_simps chunk_typed_def dest!: update_clean_stages_typed)
next
  case ce_algorithm
  then show ?thesis using assms
    by (fastforce simp: stage_defs result_simps dest!: update_algo_result_typed)
qed (use assms in \<open>auto simp: stage_defs result_simps split: if_splits option.splits\<close>)

lemma fail_handlers_submit_nothing:
  "fail_proc (worker_stage pf p) = Some h \<Longrightarrow> h data w = Inr (w', subs) \<Longrightarrow> subs = []"
  by (cases p) (auto simp: stage_defs result_simps)

lemma worker_acceptable: "well_typed w (p, a, prio) \<Longrightarrow> acceptable (worker_stage pf) p a \<longleftrightarrow> p \<noteq> Some example_proc"
  by (cases "(w, p, a, prio)" rule: well_typed.cases; cases "the p") (auto simp: acceptable_def isProcessTypeValid_def)

text \<open>C20: The stages are wired correctly: whatever an end or fail handler of any stage submits is a
  stage of the worker together with a live object of the class this stage's handlers expect, and
  \<open>scheduleTask\<close> accepts it; the only exception is the example algorithm, which is submitted
  without an argument and is refused, so a table linked to it is never finished.\<close>

theorem submissions_are_well_typed:
  assumes "end_proc (worker_stage pf p) = Some h \<or> fail_proc (worker_stage pf p) = Some h"
    and "h data w = Inr (w', subs)" and "(q, a, prio) \<in> set subs"
  shows "(\<exists>st b. q = Some st \<and> a = Some b \<and> object_live st b w' \<and> acceptable (worker_stage pf) q a) \<or>
     q = Some example_proc \<and> a = None \<and> \<not> acceptable (worker_stage pf) q a"
proof -
  have "well_typed w' (q, a, prio)"
    using assms end_handlers_typed fail_handlers_submit_nothing by fastforce
  then show ?thesis using worker_acceptable [of w' q a prio pf]
    by (cases "(w', q, a, prio)" rule: well_typed.cases) (auto elim: object_live.elims)
qed

subsection \<open>Repeated rows\<close>

text \<open>A chunk that ends behind the last line of the cleaned file.\<close>

definition overrun :: "CandidateElimination \<Rightarrow> bool" where
  "overrun ce \<longleftrightarrow> ce_ok ce \<and> accessMode (ce_file ce) = READ_FILE \<and> \<not> fileDeleted (ce_file ce) \<and>
     0 \<le> ce_start ce \<and> ce_start ce \<le> int (length (readData (ce_file ce))) \<and> int (length (readData (ce_file ce))) \<le> ce_end ce"

lemma first_positive_overrun:
  assumes "ce_ok ce" "accessMode (ce_file ce) = READ_FILE" "\<not> fileDeleted (ce_file ce)"
    and "0 \<le> s" and "s \<le> int (length (readData (ce_file ce)))" and "int (length (readData (ce_file ce))) \<le> e"
  shows "first_positive_loop ieq ce [s..e] = Inl OutOfRange \<or>
     (\<exists>row. first_positive_loop ieq ce [s..e] = Inr row \<and> well_sized ce row)"
  using assms(4-6)
proof (induction "nat (int (length (readData (ce_file ce))) - s)" arbitrary: s)
  case 0
  then have "getRowValueList s (ce_file ce) = Inl OutOfRange" "s \<le> e"
    using assms(2,3) by (simp_all add: getRowValueList_def vec_at_def)
  then show ?case by (simp add: upto_rec1)
next
  case (Suc n)
  let ?row = "line_values ce s"
  have s: "s < int (length (readData (ce_file ce)))" "[s..e] = s # [s + 1..e]"
    using Suc.hyps(2) Suc.prems by (simp_all add: upto_rec1)
  have read: "getRowValueList s (ce_file ce) = Inr ?row"
    using assms(2,3) Suc.prems(1) s(1) by (intro read_line)
  have rest: "first_positive_loop ieq ce [s + 1..e] = Inl OutOfRange \<or>
     (\<exists>row. first_positive_loop ieq ce [s + 1..e] = Inr row \<and> well_sized ce row)"
    using Suc.hyps Suc.prems s(1) by simp
  show ?case
  proof (cases "well_sized ce ?row")
    case True
    then have "vec_at ?row (targetCol ce) = Inr (?row ! nat (targetCol ce))"
      using assms(1) by (simp add: vec_at_def ce_ok_def well_sized_def)
    then show ?thesis using True read rest sized_int [OF assms(1)] by (simp add: s(2))
  next
    case False
    then show ?thesis using read rest sized_int [OF assms(1)] by (simp add: s(2))
  qed
qed

lemma ce_run_overrun:
  assumes "overrun ce" and "startSet ce" and "nat (int (length (readData (ce_file ce))) - ce_start ce) < n"
  shows "ce_run n ieq ce = Some (Inl OutOfRange)"
  using assms
proof (induction n arbitrary: ce)
  case (Suc n)
  let ?ce = "ce\<lparr>ce_start := ce_start ce + 1\<rparr>" and ?L = "int (length (readData (ce_file ce)))"
  have nx: "getNextRow ce = (ce_start ce, ?ce)" "\<not> ce_start ce < 0"
    using Suc.prems(1) by (auto simp: getNextRow_def overrun_def)
  show ?case
  proof (cases "ce_start ce = ?L")
    case True
    then have "getRowValueList (ce_start ce) (ce_file ?ce) = Inl OutOfRange"
      using Suc.prems(1) by (simp add: overrun_def getRowValueList_def vec_at_def)
    then show ?thesis using Suc.prems(2) nx by (simp add: candidate_elimination_start_def)
  next
    case False
    let ?row = "line_values ce (ce_start ce)"
    have s: "ce_start ce < ?L" using Suc.prems(1) False by (auto simp: overrun_def)
    then have read: "getRowValueList (ce_start ce) (ce_file ?ce) = Inr ?row"
      using Suc.prems(1) by (auto simp: overrun_def intro: read_line)
    have sz: "int (length ?row) = ce_columns ce + 1 \<longleftrightarrow> well_sized ce ?row" "nat (int (length ?row)) = length ?row"
      using Suc.prems(1) sized_int by (auto simp: overrun_def)
    have ok: "overrun ?ce" "startSet ?ce" using Suc.prems(1,2) s by (auto simp: overrun_def ce_ok_def)
    have fuel: "nat (int (length (readData (ce_file ?ce))) - ce_start ?ce) < n" using Suc.prems(3) s by simp
    show ?thesis
    proof (cases "well_sized ce ?row")
      case True
      then have "compare ieq ?row ?ce = Inr (learn ieq ?row ?ce)"
        using ok(1) by (intro compare_learn) (simp_all add: overrun_def well_sized_def)
      moreover have "ce_ok (learn ieq ?row ?ce)" using ok(1) by (intro learn_ok) (simp add: overrun_def)
      then have "overrun (learn ieq ?row ?ce)" using ok(1) by (simp add: overrun_def)
      ultimately show ?thesis
        using Suc.IH [of "learn ieq ?row ?ce"] ok fuel Suc.prems(2) nx read True
        by (simp add: candidate_elimination_start_def sz)
    next
      case False
      then show ?thesis
        using Suc.IH [OF ok fuel] Suc.prems(1,2) nx read
        by (simp add: candidate_elimination_start_def sz)
    qed
  qed
qed simp

lemma length_keep_first_less: "\<not> distinct xs \<Longrightarrow> length (keep_first xs) < length xs"
  by (metis card_distinct card_length distinct_card distinct_keep_first le_neq_implies_less set_keep_first)

lemma ce_run_overrun_fresh:
  assumes "overrun ce" and "\<not> startSet ce"
  shows "\<exists>n. ce_run n ieq ce = Some (Inl OutOfRange)"
proof -
  have "getFirstPostive ieq ce = Inl OutOfRange \<or> (\<exists>row. getFirstPostive ieq ce = Inr row \<and> well_sized ce row)"
    unfolding getFirstPostive_def using assms(1) by (intro first_positive_overrun) (auto simp: overrun_def)
  then show ?thesis
  proof
    assume "getFirstPostive ieq ce = Inl OutOfRange"
    then have "ce_run 1 ieq ce = Some (Inl OutOfRange)" using assms(2) by (simp add: candidate_elimination_start_def)
    then show ?thesis ..
  next
    assume "\<exists>row. getFirstPostive ieq ce = Inr row \<and> well_sized ce row"
    then obtain row where row: "getFirstPostive ieq ce = Inr row" "well_sized ce row" by blast
    let ?ce = "(learn ieq row ce)\<lparr>startSet := True\<rparr>"
    have c: "compare ieq row ce = Inr (learn ieq row ce)"
      using assms(1) row(2) by (intro compare_learn) (simp_all add: overrun_def well_sized_def)
    have "overrun ?ce" using assms(1) learn_ok [of ce ieq row] by (auto simp: overrun_def ce_ok_def)
    then obtain n where "ce_run n ieq ?ce = Some (Inl OutOfRange)" using ce_run_overrun [of ?ce] by fastforce
    then have "ce_run (Suc n) ieq ce = Some (Inl OutOfRange)"
      using assms(2) row c by (auto simp: candidate_elimination_start_def well_sized_def)
    then show ?thesis ..
  qed
qed


subsection \<open>Concrete stages\<close>

theorem submissions_are_well_typed_witness:
  "\<exists>w' b. receiver_finalize (Some 7) (play_world\<lparr>w_receivers := [7 \<mapsto>
        (new_Receiver weather_data_packet)\<lparr>isUserData := True, dataProcContainer := \<lparr>tData = Some 0\<rparr>\<rparr>]\<rparr>) =
       Inr (w', [(Some data_proc, Some b, MEDIUM_PRIORITY)]) \<and> object_live data_proc b w'"
proof -
  let ?w = "play_world\<lparr>w_receivers := [7 \<mapsto>
      (new_Receiver weather_data_packet)\<lparr>isUserData := True, dataProcContainer := \<lparr>tData = Some 0\<rparr>\<rparr>]\<rparr>"
  have "fs_inv (fwdStack (w_sender ?w))" by (simp add: play_world_defs new_SenderSink_def fs_inv_new)
  then obtain sink where "send [] [] DAT_RECVD MEDIUM_PRIORITY ?w = Inr (?w\<lparr>w_sender := sink\<rparr>)"
    using send_eq [of ?w DAT_RECVD] by blast
  then obtain w' where run: "receiver_finalize (Some 7) ?w = Inr (w', [(Some data_proc, Some 1, MEDIUM_PRIORITY)])"
    by (simp add: receiver_finalize_def notify_received_def table_at_def new_Receiver_def init_data_processor_def
        play_world_defs play_table_def)
  have "end_proc (worker_stage play_platform receiver_proc) = Some receiver_finalize \<or>
      fail_proc (worker_stage play_platform receiver_proc) = Some receiver_finalize" by simp
  from submissions_are_well_typed [OF this run, of "Some data_proc" "Some 1" MEDIUM_PRIORITY]
  have "object_live data_proc 1 w'" by simp
  with run show ?thesis by blast
qed


end
