(* ===== verification/Worker_System.thy ===== *)
theory Worker_System
  imports Sched_System Pipeline
begin

section \<open>The worker's stages under the scheduler\<close>

text \<open>
  The stages of the worker keep the contract the scheduler needs: a handler leaves the objects of
  other stages alone, and what it submits are new objects. So the accounts of the scheduler hold in
  every state the worker can reach, and no handler is ever called with a dangling argument.
\<close>

subsection \<open>Worlds that gain objects\<close>

definition live_objects :: "'db world \<Rightarrow> (stage \<times> ptr) set" where
  "live_objects w = {(p, b). object_live p b w}"

text \<open>New objects get addresses from the counter.\<close>

definition grow :: "'db world \<Rightarrow> 'db world \<Rightarrow> bool" where
  "grow w w' \<longleftrightarrow> w_fresh w \<le> w_fresh w' \<and> live_objects w \<subseteq> live_objects w' \<and>
     live_objects w' \<subseteq> live_objects w \<union> UNIV \<times> {w_fresh w..<w_fresh w'}"

definition heap_bound :: "'db world \<Rightarrow> bool" where
  "heap_bound w \<longleftrightarrow> live_objects w \<subseteq> UNIV \<times> {..<w_fresh w}"

definition heaps_same :: "'db world \<Rightarrow> 'db world \<Rightarrow> bool" where
  "heaps_same w w' \<longleftrightarrow> w_receivers w' = w_receivers w \<and> w_processors w' = w_processors w \<and> w_cleaners w' = w_cleaners w \<and>
     w_validators w' = w_validators w \<and> w_ces w' = w_ces w \<and> w_finals w' = w_finals w \<and> w_fresh w \<le> w_fresh w'"

lemma object_live_heaps: "heaps_same w w' \<Longrightarrow> object_live p b w' = object_live p b w"
  by (cases p) (simp_all add: heaps_same_def)

lemma grow_same: "heaps_same w w' \<Longrightarrow> grow w w'"
  by (auto simp: grow_def live_objects_def object_live_heaps) (simp add: heaps_same_def)

lemma grow_refl: "grow w w"
  by (simp add: grow_def)

lemma grow_trans: "grow w w' \<Longrightarrow> grow w' w'' \<Longrightarrow> grow w w''"
  unfolding grow_def by fastforce

lemma grow_bound: "grow w w' \<Longrightarrow> heap_bound w \<Longrightarrow> heap_bound w'"
  unfolding grow_def heap_bound_def by fastforce

lemma grow_live: "grow w w' \<Longrightarrow> object_live p b w \<Longrightarrow> object_live p b w'"
  by (auto simp: grow_def live_objects_def)

lemma send_same: "send dat tid st prio w = Inr w' \<Longrightarrow> heaps_same w w'"
  by (auto simp: send_def result_simps heaps_same_def)

subsection \<open>Submissions of new objects\<close>

definition submits :: "'db world \<Rightarrow> 'db world \<Rightarrow> (stage, ptr) submission list \<Rightarrow> bool" where
  "submits w w' subs \<longleftrightarrow> grow w w' \<and> distinct (submitted_objects subs) \<and>
     (\<forall>p b. (Some p, Some b) \<in> set (submitted_objects subs) \<longrightarrow>
        object_live p b w' \<and> w_fresh w \<le> b \<and> b < w_fresh w')"

lemma submitted_objects_simps [simp]:
  "submitted_objects [] = []" "submitted_objects (subs @ subs') = submitted_objects subs @ submitted_objects subs'"
  by (simp_all add: submitted_objects_def)

lemma submitted_objects_some: "x \<in> set (submitted_objects subs) \<Longrightarrow> \<exists>p b. x = (Some p, Some b)"
  by (auto simp: submitted_objects_def)

lemma submits_nil: "grow w w' \<Longrightarrow> submits w w' []"
  by (simp add: submits_def)

lemma submits_append:
  assumes "submits w w1 subs" and "submits w1 w2 subs'"
  shows "submits w w2 (subs @ subs')"
proof -
  have gs: "grow w w1" "grow w1 w2" using assms by (simp_all add: submits_def)
  then have grow: "grow w w2" by (rule grow_trans)
  have le: "w_fresh w \<le> w_fresh w1" "w_fresh w1 \<le> w_fresh w2" using gs by (simp_all add: grow_def)
  have keep: "object_live p b w1 \<Longrightarrow> object_live p b w2" for p b by (rule grow_live [OF gs(2)])
  have one: "object_live p b w1 \<and> w_fresh w \<le> b \<and> b < w_fresh w1"
    if "(Some p, Some b) \<in> set (submitted_objects subs)" for p b
    using assms(1) that unfolding submits_def by blast
  have two: "object_live p b w2 \<and> w_fresh w1 \<le> b \<and> b < w_fresh w2"
    if "(Some p, Some b) \<in> set (submitted_objects subs')" for p b
    using assms(2) that unfolding submits_def by blast
  have "x \<notin> set (submitted_objects subs')" if x: "x \<in> set (submitted_objects subs)" for x
  proof -
    obtain p b where pb: "x = (Some p, Some b)" using submitted_objects_some [OF x] by blast
    then have "b < w_fresh w1" using one x by blast
    then show ?thesis using two pb by (meson leD)
  qed
  then have "set (submitted_objects subs) \<inter> set (submitted_objects subs') = {}" by blast
  moreover have "distinct (submitted_objects subs)" "distinct (submitted_objects subs')"
    using assms by (simp_all add: submits_def)
  moreover have "object_live p b w2 \<and> w_fresh w \<le> b \<and> b < w_fresh w2"
    if "(Some p, Some b) \<in> set (submitted_objects subs) \<union> set (submitted_objects subs')" for p b
  proof (cases "(Some p, Some b) \<in> set (submitted_objects subs)")
    case True
    then show ?thesis using one [OF True] keep le by simp
  next
    case False
    then show ?thesis using two [of p b] that le by simp
  qed
  ultimately show ?thesis unfolding submits_def using grow by auto
qed

text \<open>One new object at the next address.\<close>

lemma submits_one:
  assumes "w_fresh w' = Suc (w_fresh w)" and "live_objects w' = insert (p, w_fresh w) (live_objects w)"
  shows "submits w w' [(Some p, Some (w_fresh w), prio)]"
  using assms by (auto simp: submits_def grow_def submitted_objects_def live_objects_def)

lemma submits_after: "grow w w1 \<Longrightarrow> submits w1 w2 subs \<Longrightarrow> submits w w2 subs"
  using submits_append [OF submits_nil] by fastforce

lemma submits_before: "submits w w1 subs \<Longrightarrow> grow w1 w2 \<Longrightarrow> submits w w2 subs"
  using submits_append [OF _ submits_nil] by fastforce

subsection \<open>The calls the handlers make\<close>

lemma heaps_sameI:
  assumes "w_receivers w' = w_receivers w" "w_processors w' = w_processors w" "w_cleaners w' = w_cleaners w"
    "w_validators w' = w_validators w" "w_ces w' = w_ces w" "w_finals w' = w_finals w" "w_fresh w \<le> w_fresh w'"
  shows "heaps_same w w'"
  using assms by (simp add: heaps_same_def)

lemma heaps_same_trans: "heaps_same w w' \<Longrightarrow> heaps_same w' w'' \<Longrightarrow> heaps_same w w''"
  by (auto simp: heaps_same_def)

text \<open>The live objects after a new one has been put on one of the heaps, or an old one rewritten or removed.\<close>

lemma live_objects_insert:
  "live_objects (w\<lparr>w_processors := (w_processors w)(a \<mapsto> dp), w_fresh := n\<rparr>) = insert (data_proc, a) (live_objects w)"
  "live_objects (w\<lparr>w_cleaners := (w_cleaners w)(a \<mapsto> dc), w_fresh := n\<rparr>) = insert (clean_proc, a) (live_objects w)"
  "live_objects (w\<lparr>w_validators := (w_validators w)(a \<mapsto> v), w_fresh := n\<rparr>) = insert (valdiate_data_process, a) (live_objects w)"
  "live_objects (w\<lparr>w_db := db, w_ces := (w_ces w)(a \<mapsto> ce), w_fresh := n\<rparr>) = insert (ce_algorithm, a) (live_objects w)"
  "live_objects (w\<lparr>w_finals := (w_finals w)(a \<mapsto> f), w_fresh := n\<rparr>) = insert (ce_finalize_proc, a) (live_objects w)"
  "live_objects (w\<lparr>w_receivers := (w_receivers w)(a \<mapsto> r), w_fresh := n\<rparr>) = insert (receiver_proc, a) (live_objects w)"
proof -
  have "(p, b) \<in> live_objects (w\<lparr>w_processors := (w_processors w)(a \<mapsto> dp), w_fresh := n\<rparr>) \<longleftrightarrow> (p, b) \<in> insert (data_proc, a) (live_objects w)"
    "(p, b) \<in> live_objects (w\<lparr>w_cleaners := (w_cleaners w)(a \<mapsto> dc), w_fresh := n\<rparr>) \<longleftrightarrow> (p, b) \<in> insert (clean_proc, a) (live_objects w)"
    "(p, b) \<in> live_objects (w\<lparr>w_validators := (w_validators w)(a \<mapsto> v), w_fresh := n\<rparr>) \<longleftrightarrow> (p, b) \<in> insert (valdiate_data_process, a) (live_objects w)"
    "(p, b) \<in> live_objects (w\<lparr>w_db := db, w_ces := (w_ces w)(a \<mapsto> ce), w_fresh := n\<rparr>) \<longleftrightarrow> (p, b) \<in> insert (ce_algorithm, a) (live_objects w)"
    "(p, b) \<in> live_objects (w\<lparr>w_finals := (w_finals w)(a \<mapsto> f), w_fresh := n\<rparr>) \<longleftrightarrow> (p, b) \<in> insert (ce_finalize_proc, a) (live_objects w)"
    "(p, b) \<in> live_objects (w\<lparr>w_receivers := (w_receivers w)(a \<mapsto> r), w_fresh := n\<rparr>) \<longleftrightarrow> (p, b) \<in> insert (receiver_proc, a) (live_objects w)"
    for p b by (cases p; simp add: live_objects_def)+
  then show "live_objects (w\<lparr>w_processors := (w_processors w)(a \<mapsto> dp), w_fresh := n\<rparr>) = insert (data_proc, a) (live_objects w)"
    "live_objects (w\<lparr>w_cleaners := (w_cleaners w)(a \<mapsto> dc), w_fresh := n\<rparr>) = insert (clean_proc, a) (live_objects w)"
    "live_objects (w\<lparr>w_validators := (w_validators w)(a \<mapsto> v), w_fresh := n\<rparr>) = insert (valdiate_data_process, a) (live_objects w)"
    "live_objects (w\<lparr>w_db := db, w_ces := (w_ces w)(a \<mapsto> ce), w_fresh := n\<rparr>) = insert (ce_algorithm, a) (live_objects w)"
    "live_objects (w\<lparr>w_finals := (w_finals w)(a \<mapsto> f), w_fresh := n\<rparr>) = insert (ce_finalize_proc, a) (live_objects w)"
    "live_objects (w\<lparr>w_receivers := (w_receivers w)(a \<mapsto> r), w_fresh := n\<rparr>) = insert (receiver_proc, a) (live_objects w)"
    by (auto simp: set_eq_iff)
qed

lemma init_data_processor_submits: "init_data_processor c w = Inr (w', subs) \<Longrightarrow> submits w w' subs"
  by (auto simp: init_data_processor_def result_simps intro!: submits_one live_objects_insert)

lemma init_data_cleaner_submits: "init_data_cleaner pf td inst w = Inr (w', subs) \<Longrightarrow> submits w w' subs"
  by (auto simp: init_data_cleaner_def result_simps intro!: submits_one live_objects_insert)

lemma init_validate_submits: "init_validate_data_phase pf s e td inst w = Inr (w', subs) \<Longrightarrow> submits w w' subs"
  by (auto simp: init_validate_data_phase_def result_simps intro!: submits_one live_objects_insert)

lemma validate_phase_loop_submits:
  "validate_phase_loop pf td inst m r is s e w = Inr (w', subs) \<Longrightarrow> submits w w' subs"
proof (induction "is" arbitrary: s e w w' subs)
  case (Cons i "is")
  then obtain w1 subs1 e' subs2 where "init_validate_data_phase pf s e td inst w = Inr (w1, subs1)"
    and "validate_phase_loop pf td inst m r is (e + 1) e' w1 = Inr (w', subs2)" and "subs = subs1 @ subs2"
    by (auto simp: Let_def result_simps)
  then show ?case using submits_append init_validate_submits Cons.IH by metis
qed (simp add: submits_nil grow_refl)

lemma schedule_validate_submits:
  assumes "schedule_validate_phase pf td inst w = Inr (w', subs)"
  shows "submits w w' subs"
proof -
  obtain w1 m r where "validate_phase_loop pf td inst m r [1..threads w] 1 m w = Inr (w1, subs)"
    and "w' = w1\<lparr>w_cleanStageMap := (w_cleanStageMap w1)(td \<mapsto> 0)\<rparr>"
    using assms by (auto simp: schedule_validate_phase_def Let_def result_simps split: if_splits)
  moreover have "heaps_same w1 w'" by (rule heaps_sameI) (simp_all add: calculation(2))
  ultimately show ?thesis using validate_phase_loop_submits submits_before grow_same by blast
qed

lemma avial_algo_submits:
  "avial_algo pf algo t i s e c w = Inr (pkg, w') \<Longrightarrow> submits w w' [submit_package pkg prio]"
  by (auto simp: avial_algo_def init_example_algo_def init_ce_algorithm_def result_simps submit_package_def
      submitted_objects_def submits_def grow_refl split: if_splits)
    (auto simp: grow_def live_objects_insert)

lemma split_loop_submits: "split_loop pf algo td n is s w = Inr (s', w', subs) \<Longrightarrow> submits w w' subs"
proof (induction "is" arbitrary: s w s' w' subs)
  case (Cons i "is")
  then obtain pkg w1 subs1 where a: "avial_algo pf algo (tableID td) (instanceType td) s (n * i)
        (int32 (uint (md_columns (metadata td)))) w = Inr (pkg, w1)"
    and l: "split_loop pf algo td n is (n * i + 1) w1 = Inr (s', w', subs1)"
    and subs: "subs = [submit_package pkg (td_priority td)] @ subs1"
    by (auto simp: result_simps)
  show ?case unfolding subs using avial_algo_submits [OF a] Cons.IH [OF l] by (rule submits_append)
qed (simp add: submits_nil grow_refl)

lemma sched_algo_submits:
  assumes "sched_algo pf p w = Inr (rc, w', subs)"
  shows "submits w w' subs"
proof (cases p)
  case None
  then show ?thesis using assms by (simp add: sched_algo_def submits_nil grow_refl)
next
  case (Some a)
  with assms obtain td n start w2 subs1 pkg where
      l: "split_loop pf (linked_algorithm w td) td n [1..threads w - 1] 1 (register_package (tableID td) a w) = Inr (start, w2, subs1)"
    and av: "avial_algo pf (linked_algorithm w td) (tableID td) (instanceType td) start (int32 (uint (md_rows (metadata td))))
       (int32 (uint (md_columns (metadata td)))) w2 = Inr (pkg, w')"
    and subs: "subs = subs1 @ [submit_package pkg (td_priority td)]"
    by (auto simp: sched_algo_def Let_def result_simps split: if_splits)
  have "grow w (register_package (tableID td) a w)"
    by (intro grow_same heaps_sameI) (simp_all add: register_package_def)
  then show ?thesis
    unfolding subs using submits_after submits_append split_loop_submits [OF l] avial_algo_submits [OF av] by blast
qed

lemma update_clean_stages_submits:
  assumes "update_clean_stages pf p w = Inr (rc, w', subs)"
  shows "submits w w' subs"
proof (cases p)
  case None
  then show ?thesis using assms by (simp add: update_clean_stages_def submits_nil grow_refl)
next
  case p: (Some td)
  show ?thesis
  proof (cases "w_cleanStageMap w td")
    case None
    then show ?thesis using assms p by (auto simp: update_clean_stages_def result_simps submits_nil grow_refl)
  next
    case (Some n)
    let ?w1 = "w\<lparr>w_cleanStageMap := (w_cleanStageMap w)(td \<mapsto> n + 1)\<rparr>"
    have same: "heaps_same w ?w1" by (rule heaps_sameI) simp_all
    show ?thesis
    proof (cases "n + 1 \<ge> threads w")
      case True
      then obtain dat tid prio w2 rc' where sent: "send dat tid INTR_SEND prio ?w1 = Inr w2"
        and algo: "sched_algo pf (Some td) w2 = Inr (rc', w', subs)"
        using assms p Some by (auto simp: update_clean_stages_def Let_def result_simps)
      have "grow w w2" using grow_same [OF heaps_same_trans [OF same send_same [OF sent]]] .
      then show ?thesis using sched_algo_submits [OF algo] by (rule submits_after)
    next
      case False
      then have "w' = ?w1" "subs = []"
        using assms p Some by (auto simp: update_clean_stages_def Let_def result_simps)
      then show ?thesis using grow_same [OF same] by (simp add: submits_nil)
    qed
  qed
qed

lemma finalize_algo_submits:
  "avialable_finalize_algo algo res tid prio w = Inr (pkg, w') \<Longrightarrow> submits w w' [submit_package pkg prio']"
  by (auto simp: avialable_finalize_algo_def init_example_finalize_def init_ce_finalize_def result_simps
      submit_package_def submitted_objects_def submits_def grow_refl split: if_splits)
    (auto simp: grow_def live_objects_insert)

lemma dealloc_same: "dealloc_table_dat pf a w = Inr w' \<Longrightarrow> heaps_same w w'"
  by (auto simp: dealloc_table_dat_def result_simps Let_def intro!: heaps_sameI)

lemma finish_table_submits:
  assumes "finish_table pf tid ap w = Inr (w', subs)"
  shows "submits w w' subs"
proof -
  obtain algo res t prio pkg w1 w3 where fin: "avialable_finalize_algo algo res t prio w = Inr (pkg, w1)"
    and de: "dealloc_table_dat pf (ap_tableData ap) (w1\<lparr>w_models := dereferenceInstance t (w_models w1)\<rparr>) = Inr w3"
    and w': "w' = w3\<lparr>w_algorithmResultMap := (w_algorithmResultMap w3)(tid := None)\<rparr>"
    and subs: "subs = [submit_package pkg NON_PREEMTABLE]"
    using assms by (auto simp: finish_table_def Let_def result_simps)
  have "heaps_same w1 (w1\<lparr>w_models := dereferenceInstance t (w_models w1)\<rparr>)" and "heaps_same w3 w'"
    unfolding w' by (rule heaps_sameI; simp)+
  then have "grow w1 w'" using grow_same heaps_same_trans dealloc_same [OF de] by blast
  then show ?thesis unfolding subs by (rule submits_before [OF finalize_algo_submits [OF fin]])
qed

lemma update_algo_result_submits:
  assumes "update_algo_result pf tid r w = Inr (rc, w', subs)"
  shows "submits w w' subs"
proof (cases "tid = [] \<or> w_algorithmResultMap w tid = None")
  case True
  then show ?thesis using assms by (auto simp: update_algo_result_def submits_nil grow_refl split: if_splits)
next
  case False
  then obtain ap where ap: "tid \<noteq> []" "w_algorithmResultMap w tid = Some ap" by blast
  let ?w1 = "w\<lparr>w_algorithmResultMap := (w_algorithmResultMap w)(tid \<mapsto> ap\<lparr>ap_resultVectors := ap_resultVectors ap @ [r]\<rparr>)\<rparr>"
  have same: "grow w ?w1" by (intro grow_same heaps_sameI) simp_all
  have "w' = ?w1 \<and> subs = [] \<or> (\<exists>ap'. finish_table pf tid ap' ?w1 = Inr (w', subs))"
    using assms ap by (auto simp: update_algo_result_def Let_def result_simps split: if_splits)
  then show ?thesis
  proof (elim disjE conjE exE)
    fix ap'
    assume "finish_table pf tid ap' ?w1 = Inr (w', subs)"
    then show ?thesis using submits_after [OF same] finish_table_submits by blast
  qed (use same in \<open>simp add: submits_nil\<close>)
qed

subsection \<open>Start handlers\<close>

lemma processDataPacket_same: "processDataPacket pf pk outID c w = Inr (st, t, c', w') \<Longrightarrow> heaps_same w w'"
  by (auto simp: processDataPacket_def constructDataObjects_def Let_def result_simps heaps_same_def
      split: sum.splits if_splits)

lemma register_version_same: "register_version pf name w = (al, w') \<Longrightarrow> heaps_same w w'"
  by (auto simp: register_version_def heaps_same_def split: prod.splits)

lemma processInstancePacket_same: "processInstancePacket pf pk outID w = Inr (st, t, w') \<Longrightarrow> heaps_same w w'"
  by (auto simp: processInstancePacket_def result_simps heaps_same_def
      split: sum.splits if_splits prod.splits dest!: register_version_same)

lemma match_ack_same: "match_ack status r w = Inr (st, w') \<Longrightarrow> heaps_same w w'"
  by (auto simp: match_ack_def result_simps heaps_same_def)

lemma heaps_same_refl: "heaps_same w w"
  by (simp add: heaps_same_def)

lemma identify_ack_same: "identify_ack code r w = Inr (st, r', w') \<Longrightarrow> heaps_same w w'"
  by (auto simp: identify_ack_def result_simps heaps_same_refl dest: match_ack_same split: if_splits)

lemma identify_data_same: "identify_data pf r w = Inr (st, r', w') \<Longrightarrow> heaps_same w w'"
  by (auto simp: identify_data_def result_simps dest: processDataPacket_same processInstancePacket_same split: if_splits)

lemma identifyPacketType_same: "identifyPacketType pf r w = Inr (st, r', w') \<Longrightarrow> heaps_same w w'"
  by (auto simp: identifyPacketType_def Let_def result_simps heaps_same_refl
      dest: identify_ack_same identify_data_same split: if_splits prod.splits sum.splits)
    (auto simp: heaps_same_def)

lemma initlize_same: "initlize pf dp w = Inr (rc, dp', w') \<Longrightarrow> heaps_same w w'"
  by (auto simp: initlize_def Let_def result_simps heaps_same_refl split: if_splits) (auto simp: heaps_same_def)

lemma all_stages:
  "(\<forall>p. P p) \<longleftrightarrow> P receiver_proc \<and> P data_proc \<and> P clean_proc \<and> P valdiate_data_process \<and> P ce_algorithm \<and>
     P ce_finalize_proc \<and> P example_proc"
  by (metis stage.exhaust)

text \<open>Writing a live object back leaves the same objects live.\<close>

lemma grow_iff:
  "w_fresh w \<le> w_fresh w' \<Longrightarrow> (\<forall>p b. object_live p b w' \<longleftrightarrow> object_live p b w) \<Longrightarrow> grow w w'"
  by (auto simp: grow_def live_objects_def)

lemma start_grows:
  assumes "start_proc (worker_stage pf p) = Some f" and "f (Some a) w = Inr (st, w')"
  shows "grow w w'"
proof (cases p)
  case receiver_proc
  then obtain r st' r' w1 where r: "w_receivers w a = Some r" and i: "identifyPacketType pf r w = Inr (st', r', w1)"
    and w': "w' = w1\<lparr>w_receivers := (w_receivers w1)(a \<mapsto> r')\<rparr>"
    using assms by (auto simp: receiver_proccess_def result_simps)
  have "heaps_same w w1" using i by (rule identifyPacketType_same)
  then show ?thesis using r unfolding w' by (intro grow_iff) (auto simp: all_stages heaps_same_def)
next
  case data_proc
  then obtain dp rc dp' w1 where dp: "w_processors w a = Some dp" and i: "initlize pf dp w = Inr (rc, dp', w1)"
    and w': "w' = w1\<lparr>w_processors := (w_processors w1)(a \<mapsto> dp')\<rparr>"
    using assms by (auto simp: process_data_start_def result_simps)
  have "heaps_same w w1" using i by (rule initlize_same)
  then show ?thesis using dp unfolding w' by (intro grow_iff) (auto simp: all_stages heaps_same_def)
next
  case clean_proc
  then obtain dc where dc: "w_cleaners w a = Some dc" and w': "w' = w\<lparr>w_cleaners := (w_cleaners w)(a \<mapsto> snd (clean dc))\<rparr>"
    using assms by (auto simp: clean_data_start_def result_simps split_beta)
  then show ?thesis unfolding w' by (intro grow_iff) (auto simp: all_stages)
next
  case valdiate_data_process
  then show ?thesis using assms
    by (intro grow_iff) (auto simp: validate_data_start_process_def result_simps all_stages split: if_splits)
next
  case ce_algorithm
  then show ?thesis using assms
    by (intro grow_iff) (auto simp: candidate_elimination_start_process_def result_simps all_stages split: if_splits)
next
  case ce_finalize_proc
  then show ?thesis using assms
    by (intro grow_iff) (auto simp: ce_finalize_start_def result_simps all_stages split: if_splits)
qed (use assms in \<open>simp add: example_start_process_def grow_refl\<close>)

subsection \<open>End and fail handlers\<close>

definition drops :: "stage \<Rightarrow> ptr \<Rightarrow> 'db world \<Rightarrow> 'db world \<Rightarrow> bool" where
  "drops p a w w' \<longleftrightarrow> w_fresh w' = w_fresh w \<and> live_objects w - {(p, a)} \<subseteq> live_objects w' \<and> live_objects w' \<subseteq> live_objects w"

lemma dropsI:
  "w_fresh w' = w_fresh w \<Longrightarrow> (\<forall>q b. object_live q b w' \<longleftrightarrow> object_live q b w \<and> (q, b) \<noteq> (p, a)) \<Longrightarrow> drops p a w w'"
  by (auto simp: drops_def live_objects_def)

lemma drops_refl: "drops p a w w"
  by (auto simp: drops_def)

lemma notify_same: "notify_received r w = Inr w' \<Longrightarrow> heaps_same w w'"
  by (auto simp: notify_received_def result_simps heaps_same_refl dest: send_same split: if_splits)

lemma receiver_end_submits:
  assumes "receiver_finalize (Some a) w = Inr (w', subs)"
  shows "\<exists>w1. submits w w1 subs \<and> drops receiver_proc a w1 w'"
proof -
  obtain r w1 w2 where n: "notify_received r w = Inr w1"
    and i: "(if isFlagSet (isUserData r) then init_data_processor (dataProcContainer r) w1 else Inr (w1, [])) = Inr (w2, subs)"
    and w': "w' = w2\<lparr>w_receivers := (w_receivers w2)(a := None)\<rparr>"
    using assms by (auto simp: receiver_finalize_def result_simps)
  have "submits w1 w2 subs"
    using i init_data_processor_submits by (auto simp: submits_nil grow_refl split: if_splits)
  with grow_same [OF notify_same [OF n]] have "submits w w2 subs" by (rule submits_after)
  moreover have "drops receiver_proc a w2 w'" unfolding w' by (intro dropsI) (auto simp: all_stages)
  ultimately show ?thesis by blast
qed

lemma process_data_end_submits:
  assumes "process_data_finalize pf (Some a) w = Inr (w', subs)"
  shows "\<exists>w1. submits w w1 subs \<and> drops data_proc a w1 w'"
proof -
  obtain dp td inst w1 where "w_processors w a = Some dp" "dp_tableData dp = Some td" "dp_instanceData dp = Some inst"
    and i: "init_data_cleaner pf td inst w = Inr (w1, subs)" and d: "delete_DataProcessor pf a dp w1 = Inr w'"
    using assms by (fastforce simp: process_data_finalize_def result_simps split: option.split_asm)
  have "drops data_proc a w1 w'"
    using d by (intro dropsI) (auto simp: delete_DataProcessor_def all_stages split: option.splits if_splits)
  then show ?thesis using init_data_cleaner_submits [OF i] by blast
qed

lemma clean_end_submits:
  assumes "clean_data_finalize pf (Some a) w = Inr (w', subs)"
  shows "\<exists>w1. submits w w1 subs \<and> drops clean_proc a w1 w'"
proof -
  obtain dc w1 where s: "schedule_validate_phase pf (dc_tableData dc) (dc_instance dc) w = Inr (w1, subs)"
    and w': "w' = delete_DataCleaner pf a dc w1"
    using assms by (auto simp: clean_data_finalize_def result_simps)
  have "drops clean_proc a w1 w'" unfolding w' by (intro dropsI) (auto simp: delete_DataCleaner_def all_stages)
  then show ?thesis using schedule_validate_submits [OF s] by blast
qed

lemma validate_end_submits:
  assumes "validate_data_finalize pf (Some a) w = Inr (w', subs)"
  shows "\<exists>w1. submits w w1 subs \<and> drops valdiate_data_process a w1 w'"
proof -
  obtain v rc w1 where u: "update_clean_stages pf (Some (vd_tableData v)) w = Inr (rc, w1, subs)"
    and w': "w' = w1\<lparr>w_files := close_ValidateData (pf_writable pf) v (w_files w1),
               w_validators := (w_validators w1)(a := None)\<rparr>"
    using assms by (auto simp: validate_data_finalize_def result_simps)
  have "drops valdiate_data_process a w1 w'" unfolding w' by (intro dropsI) (auto simp: all_stages)
  then show ?thesis using update_clean_stages_submits [OF u] by blast
qed

lemma ce_end_submits:
  assumes "candidate_elimination_end pf (Some a) w = Inr (w', subs)"
  shows "\<exists>w1. submits w w1 subs \<and> drops ce_algorithm a w1 w'"
proof -
  obtain ce rc w1 where u: "update_algo_result pf (ce_tableId ce) (ce_result ce) w = Inr (rc, w1, subs)"
    and w': "w' = w1\<lparr>w_files := close_CandidateElimination (pf_writable pf) ce (w_files w1),
               w_ces := (w_ces w1)(a := None)\<rparr>"
    using assms by (auto simp: candidate_elimination_end_def result_simps)
  have "drops ce_algorithm a w1 w'" unfolding w' by (intro dropsI) (auto simp: all_stages)
  then show ?thesis using update_algo_result_submits [OF u] by blast
qed

lemma finalize_end_submits:
  assumes "ce_finalize_end_process (Some a) w = Inr (w', subs)"
  shows "\<exists>w1. submits w w1 subs \<and> drops ce_finalize_proc a w1 w'"
proof -
  obtain dat tid prio w1 where n: "send dat tid FRES_SEND prio w = Inr w1"
    and w': "w' = w1\<lparr>w_finals := (w_finals w1)(a := None)\<rparr>" and subs: "subs = []"
    using assms by (auto simp: ce_finalize_end_process_def result_simps)
  have "drops ce_finalize_proc a w1 w'" unfolding w' by (intro dropsI) (auto simp: all_stages)
  then show ?thesis using submits_nil [OF grow_same [OF send_same [OF n]]] subs by blast
qed

lemma fail_submits:
  assumes "fail_proc (worker_stage pf p) = Some g" and "g (Some a) w = Inr (w', subs)"
  shows "\<exists>w1. submits w w1 subs \<and> drops p a w1 w'"
proof (cases p)
  case receiver_proc
  then obtain tid w1 where n: "send [] tid RECV_ERR HIGH_PRIORITY w = Inr w1"
    and w': "w' = w1\<lparr>w_receivers := (w_receivers w1)(a := None)\<rparr>" and subs: "subs = []"
    using assms by (auto simp: receiver_fail_def result_simps)
  have "drops p a w1 w'" unfolding w' receiver_proc by (intro dropsI) (auto simp: all_stages)
  then show ?thesis using submits_nil [OF grow_same [OF send_same [OF n]]] subs by blast
next
  case data_proc
  then obtain s tid prio td w1 where n: "send s tid DAT_ERR prio w = Inr w1"
    and d: "dealloc_table_dat pf td w1 = Inr w'" and subs: "subs = []"
    using assms by (auto simp: process_data_failed_def result_simps)
  have "grow w w'" by (rule grow_same [OF heaps_same_trans [OF send_same [OF n] dealloc_same [OF d]]])
  then show ?thesis using submits_nil drops_refl subs by blast
next
  case clean_proc
  then obtain dc where w': "w' = delete_DataCleaner pf a dc w" and subs: "subs = []"
    using assms by (auto simp: clean_data_failed_def result_simps)
  have "drops p a w w'" unfolding w' clean_proc by (intro dropsI) (auto simp: delete_DataCleaner_def all_stages)
  then show ?thesis using submits_nil [OF grow_refl] subs by blast
qed (use assms in auto)

lemma end_submits:
  assumes "end_proc (worker_stage pf p) = Some g \<or> fail_proc (worker_stage pf p) = Some g"
    and "g (Some a) w = Inr (w', subs)"
  shows "\<exists>w1. submits w w1 subs \<and> drops p a w1 w'"
  using assms(1)
proof
  assume "end_proc (worker_stage pf p) = Some g"
  then show ?thesis
    using assms(2) receiver_end_submits process_data_end_submits clean_end_submits validate_end_submits
      ce_end_submits finalize_end_submits
    by (cases p) (auto simp: example_end_process_def intro: submits_nil grow_refl drops_refl)
qed (use fail_submits assms(2) in blast)

subsection \<open>The contract\<close>

definition worker_object :: "stage \<Rightarrow> ptr \<Rightarrow> 'db world \<Rightarrow> bool" where
  "worker_object p b w \<longleftrightarrow> heap_bound w \<and> object_live p b w"

lemma drops_bound: "drops p a w w' \<Longrightarrow> heap_bound w \<Longrightarrow> heap_bound w'"
  unfolding drops_def heap_bound_def by auto

lemma drops_live: "drops p a w w' \<Longrightarrow> object_live q b w \<Longrightarrow> (q, b) \<noteq> (p, a) \<Longrightarrow> object_live q b w'"
  unfolding drops_def live_objects_def by blast

lemma live_less: "heap_bound w \<Longrightarrow> object_live p b w \<Longrightarrow> b < w_fresh w"
  by (auto simp: heap_bound_def live_objects_def)

interpretation worker: stage_objects "worker_stage pf" worker_object for pf :: "'db platform"
proof unfold_locales
  fix p and b :: ptr and w :: "'db world"
  assume "worker_object p b w"
  then show "ps_type (worker_stage pf p) \<noteq> 0" by (cases p) (simp_all add: worker_object_def)
next
  fix p f a w st w' q b
  assume "start_proc (worker_stage pf p) = Some f" "f (Some a) w = Inr (st, w')"
    and "worker_object q b w"
  then show "worker_object q b w'"
    using start_grows [of pf p f a w st w'] grow_bound grow_live by (auto simp: worker_object_def)
next
  fix p g a w w' subs q b
  assume "end_proc (worker_stage pf p) = Some g \<or> fail_proc (worker_stage pf p) = Some g" "g (Some a) w = Inr (w', subs)"
    and "worker_object q b w" "(q, b) \<noteq> (p, a)"
  moreover from this(1,2) obtain w1 where "submits w w1 subs" "drops p a w1 w'" using end_submits by blast
  ultimately show "worker_object q b w'"
    unfolding worker_object_def submits_def using grow_bound grow_live drops_bound drops_live by blast
next
  fix p g a w w' subs q b
  assume g: "end_proc (worker_stage pf p) = Some g \<or> fail_proc (worker_stage pf p) = Some g" "g (Some a) w = Inr (w', subs)"
    and live: "worker_object p a w" and new: "(Some q, Some b) \<in> set (submitted_objects subs)"
  obtain w1 where s: "submits w w1 subs" and d: "drops p a w1 w'" using end_submits [OF g] by blast
  have b: "object_live q b w1" "w_fresh w \<le> b" using s new by (auto simp: submits_def)
  have "a < w_fresh w" using live live_less by (auto simp: worker_object_def)
  then have "object_live q b w'" using drops_live [OF d b(1)] b(2) by auto
  moreover have "grow w w1" "heap_bound w" using live s by (simp_all add: worker_object_def submits_def)
  then have "heap_bound w'" by (rule drops_bound [OF d grow_bound])
  moreover have "\<not> object_live q b w" using live b(2) live_less by (fastforce simp: worker_object_def)
  ultimately show "worker_object q b w' \<and> \<not> worker_object q b w" by (simp add: worker_object_def)
next
  fix p g a w w' subs
  assume "end_proc (worker_stage pf p) = Some g \<or> fail_proc (worker_stage pf p) = Some g" "g (Some a) w = Inr (w', subs)"
  then obtain w1 where "submits w w1 subs" using end_submits by blast
  then show "distinct (submitted_objects subs)" by (simp add: submits_def)
qed

subsection \<open>What holds in every reachable state\<close>




subsection \<open>A worker that has received a packet\<close>

definition play_received :: "unit world" where
  "play_received = play_world\<lparr>w_receivers := [1 \<mapsto> new_Receiver weather_data_packet], w_fresh := 2\<rparr>"

definition play_mem :: "(stage, ptr) sched_mem" where
  "play_mem = boot_mem\<lparr>proc_heap := [0 \<mapsto> \<lparr>pid = 0, processState = Some receiver_proc, pt_args = Some 1,
       jobStatus = 0, pt_priority = NON_PREEMTABLE\<rparr>], proc_next := 1, pidVector := [0],
     taskSink := [\<lparr>procTable = Some 0, poolPriority = NON_PREEMTABLE, starveCounter = 0\<rparr>]\<rparr>"

lemma play_received_eq:
  "init_receiver weather_data_packet play_world = (0, play_received, [(Some receiver_proc, Some 1, NON_PREEMTABLE)])"
  by (simp add: init_receiver_def play_received_def play_world_defs)

lemma play_reach:
  "sched_reach (worker_stage play_platform) worker_object play_mem (init_sched (\<lambda>_ _. None) 2 10) play_received"
proof (rule sched_reach.submit)
  show "sched_reach (worker_stage play_platform) worker_object boot_mem (init_sched (\<lambda>_ _. None) 2 10) play_world"
    by (rule sched_reach.boot)
  have none: "live_objects play_world = {}"
    by (auto simp: live_objects_def play_world_defs elim!: object_live.elims)
  have "live_objects play_received = {(receiver_proc, 1)}"
    using live_objects_insert(6) [where w = play_world and a = 1 and r = "new_Receiver weather_data_packet" and n = 2] none
    by (simp add: play_received_def play_world_defs)
  then show "worker_object receiver_proc 1 play_received"
    by (auto simp: worker_object_def heap_bound_def live_objects_def play_received_def)
  show "keeps_objects worker_object play_world play_received" "\<not> worker_object receiver_proc 1 play_world"
    using none by (auto simp: keeps_objects_def worker_object_def live_objects_def)
  show "scheduleTask (worker_stage play_platform) \<lparr>u_pid = 0, u_draws = [], u_priority = LOW_PRIORITY, u_starve = 0\<rparr>
      (Some receiver_proc) (Some 1) NON_PREEMTABLE boot_mem = Inr (0, play_mem)"
    by (simp add: scheduleTask_eq acceptable_def isProcessTypeValid_def play_mem_def boot_mem_def pool_push_def pushTask_def)
qed




end
