(* ===== verification/Packet_Validation.thy ===== *)
theory Packet_Validation
  imports Packet_Flow
begin

section \<open>What the schemas let through\<close>

text \<open>
  The schemas of the receiver, run by the validator: which documents they accept, and what that is
  worth to the code behind them.
\<close>

definition is_number :: "json \<Rightarrow> bool" where
  "is_number j \<longleftrightarrow> json_type j \<in> {number_integer, number_float}"

definition number_in :: "rat \<Rightarrow> rat \<Rightarrow> json \<Rightarrow> bool" where
  "number_in lo hi j \<longleftrightarrow> (is_number j \<longrightarrow> lo \<le> number_value j \<and> number_value j \<le> hi)"

subsection \<open>The validators of the three schemas\<close>

text \<open>The schema of a member, and what it means for a value.\<close>

definition number_validator :: schema where
  "number_validator =
     (let v = numeric_v (NumericSchema None False None False)
      in type_schema [(number_float, v), (number_integer, v)] [] None)"

definition string_validator :: schema where
  "string_validator = type_schema [(value_string, string_v (StringSchema None None))] [] None"

definition range_validator :: "rat \<Rightarrow> rat \<Rightarrow> schema" where
  "range_validator lo hi =
     (let v = numeric_v (NumericSchema (Some hi) False (Some lo) False)
      in type_schema
       [(value_null, null_v), (value_object, object_v None None [] [] None), (value_array, array_v None None None None),
        (value_string, string_v (StringSchema None None)), (value_boolean, boolean_v), (number_integer, v), (number_float, v)]
       [] None)"

lemma make_number: "schema_make (snd (typed_member k d ''number'')) = Some number_validator"
  by (subst schema_make_rec)
    (simp add: typed_member_def left_out_def type_keyword_def schema_types_def make_numeric_def number_keyword_def
      make_logic_def make_cond_def make_keyword_def make_list_def number_validator_def Let_def)

lemma make_text: "schema_make (snd (typed_member k d ''string'')) = Some string_validator"
  by (subst schema_make_rec)
    (simp add: typed_member_def left_out_def type_keyword_def schema_types_def make_string_def nat_keyword_def
      make_logic_def make_cond_def make_keyword_def make_list_def string_validator_def)

lemma make_range: "schema_make (snd (ranged_member k d lo hi)) = Some (range_validator (of_int lo) (of_int hi))"
  by (subst schema_make_rec)
    (simp add: ranged_member_def left_out_def type_keyword_def schema_types_def make_string_def make_numeric_def
      make_object_def make_array_def required_keyword_def members_keyword_def nat_keyword_def number_keyword_def
      make_logic_def make_cond_def make_keyword_def make_list_def range_validator_def Let_def)

lemma validate_number [simp]: "validate number_validator j \<longleftrightarrow> is_number j"
  by (cases j) (simp_all add: number_validator_def is_number_def Let_def)

lemma validate_text [simp]: "validate string_validator j \<longleftrightarrow> (\<exists>s. j = JStr s)"
  by (cases j) (simp_all add: string_validator_def)

lemma validate_range [simp]: "validate (range_validator lo hi) j \<longleftrightarrow> number_in lo hi j"
  by (cases j) (auto simp: range_validator_def number_in_def is_number_def size_ok_def Let_def)

lemma string_list_names: "string_list (map (\<lambda>p. JStr (fst p)) ps) = Some (map fst ps)"
  by (induction ps) simp_all

lemma make_object_schema:
  assumes "make_members schema_make ps = Some vs"
  shows "schema_make (object_schema title ps) =
     Some (type_schema [(value_object, object_v None None (map fst ps) vs None)] [] None)"
  using assms
  by (subst schema_make_rec)
    (simp add: object_schema_def left_out_def type_keyword_def schema_types_def make_object_def required_keyword_def
      members_keyword_def nat_keyword_def make_logic_def make_cond_def make_keyword_def make_list_def string_list_names)

lemma schema_valid_object:
  assumes "make_members schema_make ps = Some vs"
  shows "schema_valid (object_schema title ps) doc \<longleftrightarrow>
     (\<exists>kvs. doc = JObj kvs \<and> (\<forall>k \<in> set (map fst ps). map_of kvs k \<noteq> None) \<and>
        (\<forall>(k, s) \<in> set vs. \<forall>j. map_of kvs k = Some j \<longrightarrow> validate s j))"
  by (cases doc)
    (auto simp: schema_valid_def make_object_schema [OF assms] size_ok_def list_all_iff split: option.splits)

lemma make_members_single:
  "make_members mk (m # ms) = Option.bind (mk (snd m)) (\<lambda>s. map_option ((#) (fst m, s)) (make_members mk ms))"
  by (cases m) simp

lemma fst_members [simp]: "fst (typed_member k d t) = k" "fst (ranged_member k d lo hi) = k"
  by (simp_all add: typed_member_def ranged_member_def)

lemmas member_makes = make_members_single make_number make_text make_range

subsection \<open>The documents that are accepted\<close>

lemma packetSchema_accepts:
  "schema_valid packetSchema doc \<longleftrightarrow>
     (\<exists>kvs h i. doc = JObj kvs \<and> map_of kvs ''head'' = Some h \<and> is_number h \<and> map_of kvs ''id'' = Some (JStr i))"
  unfolding packetSchema_def by (subst schema_valid_object) (auto simp: member_makes)

lemma dataPacketSchema_accepts:
  "schema_valid dataPacketSchema doc \<longleftrightarrow>
     (\<exists>kvs t p i d. doc = JObj kvs \<and> map_of kvs ''tableid'' = Some (JStr t) \<and> map_of kvs ''priority'' = Some p \<and>
        number_in 0 3 p \<and> map_of kvs ''instancetype'' = Some (JStr i) \<and> map_of kvs ''data'' = Some (JStr d))"
  unfolding dataPacketSchema_def by (subst schema_valid_object) (auto simp: member_makes)

lemma instancePacketSchema_accepts:
  "schema_valid instancePacketSchema doc \<longleftrightarrow>
     (\<exists>kvs i a d. doc = JObj kvs \<and> map_of kvs ''instanceid'' = Some (JStr i) \<and> map_of kvs ''algotype'' = Some a \<and>
        number_in 0 3 a \<and> map_of kvs ''data'' = Some (JStr d))"
  unfolding instancePacketSchema_def by (subst schema_valid_object) (auto simp: member_makes)

text \<open>C19: The validator accepts exactly the packets the receiver means: a main packet is an object with
  a number \<open>head\<close> and a string \<open>id\<close>; a data body has the strings \<open>tableid\<close>, \<open>instancetype\<close> and
  \<open>data\<close> and a member \<open>priority\<close>, an instance body the strings \<open>instanceid\<close> and \<open>data\<close> and a
  member \<open>algotype\<close>. The last two have no type: when they are numbers, they are between 0 and 3,
  but any other value is accepted as well.\<close>

theorem packet_schemas_accept:
  "(schema_valid packetSchema doc \<longleftrightarrow>
     (\<exists>kvs h i. doc = JObj kvs \<and> map_of kvs ''head'' = Some h \<and> is_number h \<and> map_of kvs ''id'' = Some (JStr i))) \<and>
   (schema_valid dataPacketSchema doc \<longleftrightarrow>
     (\<exists>kvs t p i d. doc = JObj kvs \<and> map_of kvs ''tableid'' = Some (JStr t) \<and> map_of kvs ''priority'' = Some p \<and>
        number_in 0 3 p \<and> map_of kvs ''instancetype'' = Some (JStr i) \<and> map_of kvs ''data'' = Some (JStr d))) \<and>
   (schema_valid instancePacketSchema doc \<longleftrightarrow>
     (\<exists>kvs i a d. doc = JObj kvs \<and> map_of kvs ''instanceid'' = Some (JStr i) \<and> map_of kvs ''algotype'' = Some a \<and>
        number_in 0 3 a \<and> map_of kvs ''data'' = Some (JStr d)))"
  by (intro conjI packetSchema_accepts dataPacketSchema_accepts instancePacketSchema_accepts)

subsection \<open>Data packets that are let through\<close>

text \<open>A packet the receiver takes for a data packet, with the table \<open>text\<close>.\<close>

definition data_document :: "json \<Rightarrow> string \<Rightarrow> bool" where
  "data_document doc text \<longleftrightarrow> schema_valid packetSchema doc \<and>
     (\<exists>h. bindR (json_get ''head'' doc) json_int = Inr h \<and> \<not> has_bit (int32 h) SP_HANDSHAKE \<and> has_bit (int32 h) SP_DATA_SENT) \<and>
     (\<exists>b. json_get ''body'' doc = Inr b \<and> schema_valid dataPacketSchema b \<and> map_of (members b) ''data'' = Some (JStr text))"

lemma json_int_range:
  assumes "number_in 0 3 p"
  shows "(\<exists>e. json_int p = Inl e) \<or> (\<exists>n. json_int p = Inr n \<and> 0 \<le> n \<and> n \<le> 3)"
proof (cases p)
  case (JFloat q)
  then have "0 \<le> q" "q \<le> 3" using assms by (simp_all add: number_in_def is_number_def)
  then have "0 \<le> floor q" "floor q \<le> 3" by (simp_all add: floor_le_iff)
  then show ?thesis using \<open>0 \<le> q\<close> JFloat by (simp add: json_int_def truncate_rat_def)
qed (use assms in \<open>auto simp: json_int_def number_in_def is_number_def\<close>)

lemma getlines_ne: "s \<noteq> [] \<Longrightarrow> getlines s \<noteq> []"
  by (subst getlines.simps) simp

lemma processDataPacket_total:
  assumes "json_get ''body'' doc = Inr (JObj kvs)" and "map_of kvs ''tableid'' = Some (JStr t)"
    and "map_of kvs ''priority'' = Some p" and "number_in 0 3 p" and "map_of kvs ''instancetype'' = Some (JStr i)"
    and "map_of kvs ''data'' = Some (JStr d)" and "d \<noteq> []"
  shows "(\<exists>w'. processDataPacket pf doc out c w = Inr (P_ERROR, out, c, w')) \<or>
     (\<exists>w'. processDataPacket pf doc out c w = Inr (P_ERROR, t, c, w')) \<or>
     (\<exists>a tab w'. processDataPacket pf doc out c w = Inr (P_SUCCESS, t, \<lparr>tData = Some a\<rparr>, w') \<and> w_tables w' a = Some tab)"
proof -
  have f: "body_field doc k = json_get k (JObj kvs)" for k using assms(1) by (simp add: body_field_def)
  from json_int_range [OF assms(4)] show ?thesis
  proof (elim disjE exE conjE)
    fix e assume "json_int p = Inl e"
    then show ?thesis using assms(2,3,5,6) by (simp add: processDataPacket_def f)
  next
    fix n assume n: "json_int p = Inr n" "0 \<le> n" "n \<le> 3"
    obtain pr where pr: "indexOfTaskPriority (uint (word_of_int (int32 n) :: 8 word)) = Inr pr"
      using priority_of_number [OF n(2,3)] by blast
    let ?d = "open_database t RW_FILE (pf_writable pf) (w_files w)"
    have "accessMode ?d = RW_FILE" "\<not> fileDeleted ?d"
      by (simp_all add: open_database_def Let_def split: option.split)
    then obtain k where "getTotalColumns (snd (writeBlob d ?d)) = Inr k"
      using getlines_ne [OF assms(7)]
      by (cases "getlines d") (simp_all add: getTotalColumns_def writeBlob_def split_string_by_newline_def)
    then show ?thesis
      using assms(2,3,5,6) n(1) pr by (simp add: processDataPacket_def f Let_def constructDataObjects_def)
  qed
qed



subsection \<open>Instance packets with a short last row\<close>

lemma value_loop_end: "value_loop pre (Suc (Suc k)) (length pre) q = Inl UncaughtException"
proof -
  have "skip_field pre (length pre) = length pre" "skip_field pre (Suc (length pre)) = Suc (length pre)"
    by (subst skip_field.simps; simp)+
  then show ?thesis by (simp add: Let_def substr_def)
qed

lemma value_loop_short:
  assumes "\<forall>v \<in> set vs. \<forall>c \<in> set v. \<not> separator c"
  shows "value_loop (pre @ row_text vs) (length vs + Suc (Suc k)) (length pre) q = Inl UncaughtException"
  using assms
proof (induction vs arbitrary: pre q)
  case Nil
  then show ?case using value_loop_end [of pre k q] by simp
next
  case (Cons v vs)
  let ?s = "if vs = [] then newline else comma" and ?n = "length vs + Suc (Suc k)"
  let ?data = "pre @ v @ ?s # row_text vs"
  have e: "skip_field ?data (length pre) = length pre + length v"
    using Cons.prems by (intro skip_field_find) auto
  have s: "substr ?data (length pre) (length v) = Inr v" by (rule substr_mid)
  have "value_loop ((pre @ v @ [?s]) @ row_text vs) ?n (length (pre @ v @ [?s])) (q @ [quote] @ v @ [quote] @ '','') =
      Inl UncaughtException"
    using Cons.prems by (intro Cons.IH) simp
  then show ?case by (simp add: e s Let_def)
qed

lemma insert_loop_short:
  assumes "accepts_all exec" and "\<forall>vs \<in> set rs. length vs = Suc c \<and> (\<forall>v \<in> set vs. \<forall>x \<in> set v. \<not> separator x)"
    and "plain_fields us" and "length us < c"
  shows "insert_loop exec q (pre @ concat (map row_text rs) @ row_text us) c (length pre) n db = Inl UncaughtException"
  using assms(2)
proof (induction rs arbitrary: pre n db)
  case Nil
  obtain k where "Suc c = length us + Suc (Suc k)" using assms(4) less_imp_add_positive by (metis add_Suc_right gr0_implies_Suc)
  then have "value_loop (pre @ row_text us) (Suc c) (length pre) q = Inl UncaughtException"
    using value_loop_short [of us pre k q] assms(3) by (simp add: plain_fields_def)
  moreover have "row_text us \<noteq> []" using assms(3) by (cases us) (auto simp: plain_fields_def)
  ultimately show ?case by (subst insert_loop.simps) simp
next
  case (Cons vs rs)
  let ?rest = "concat (map row_text rs) @ row_text us"
  have "value_loop (pre @ row_text vs @ ?rest) (length vs) (length pre) q = Inr (q @ values_sql vs, length pre + length (row_text vs))"
    using Cons.prems by (intro value_loop_row) simp
  moreover have "length vs = Suc c" "row_text vs \<noteq> []" using Cons.prems by (cases vs; auto)+
  moreover have "insert_loop exec q ((pre @ row_text vs) @ ?rest) c (length (pre @ row_text vs)) (n + 1)
        (snd (writeValue exec (q @ values_sql vs @ '');'') db)) = Inl UncaughtException"
    using Cons.prems by (intro Cons.IH) simp
  ultimately show ?case by (subst insert_loop.simps) (simp add: insert_row_ok [OF assms(1)])
qed


text \<open>A header of three columns and a row with one value.\<close>

definition short_packet :: json where
  "short_packet = JObj [(''head'', JNum 2), (''id'', JStr ''CU1''), (''body'',
     JObj [(''instanceid'', JStr ''Weather''), (''algotype'', JNum 1),
       (''data'', JStr (''Sky,Wind,Play'' @ [newline] @ ''Sunny'' @ [newline]))])]"


end
