(* ===== verification/Stats_Engine.thy ===== *)
theory Stats_Engine
  imports Json Doubles File_Database
begin

section \<open>Statistics: services/stats\_engine.hpp and stats\_engine.cpp\<close>

text \<open>
  Time points are the nanoseconds of \<open>high_resolution_clock\<close>. Every lock of the class is taken
  and released by the call itself, so a call is one step. The sum of the samples, which are 32-bit
  numbers, is exact in a \<open>double\<close>; the average is the nearest double to the quotient.
\<close>

datatype TaskStatus = TASK_IN | TASK_OUT

record StatisticsEngine =
  statisticsArraySize :: int
  se_threadCount :: int
  averageQueueTime :: rat
  taskCountVector :: "int list"
  queueTimeVector :: "int list"
  timeBefore :: "int list"
  timeAfter :: int

definition new_StatisticsEngine :: "int \<Rightarrow> int \<Rightarrow> StatisticsEngine" where
  "new_StatisticsEngine threadCount arraySize =
     \<lparr>statisticsArraySize = arraySize, se_threadCount = threadCount, averageQueueTime = 0,
      taskCountVector = replicate (Suc (priority_value NR_TASK_PRIORITY)) 0, queueTimeVector = [],
      timeBefore = [], timeAfter = 0\<rparr>"

text \<open>The conversion from nanoseconds to milliseconds cuts off the fraction.\<close>

definition milliseconds :: "int \<Rightarrow> int" where
  "milliseconds ns = (if ns < 0 then - (- ns div 1000000) else ns div 1000000)"

definition calculateAvgTimerVector :: "StatisticsEngine \<Rightarrow> StatisticsEngine" where
  "calculateAvgTimerVector e =
     (let totalSize = length (queueTimeVector e) in
      if totalSize = 0 then e
      else let timerAggrigate = fold (\<lambda>i a. a + of_int i) (queueTimeVector e) (0 :: rat);
               finalAverage = the (to_double (timerAggrigate / of_nat totalSize))
           in e\<lparr>queueTimeVector := [int32 (truncate_rat finalAverage)], averageQueueTime := finalAverage\<rparr>)"

definition updateTimerBefore :: "int \<Rightarrow> StatisticsEngine \<Rightarrow> StatisticsEngine" where
  "updateTimerBefore now e = e\<lparr>timeBefore := timeBefore e @ [now]\<rparr>"

text \<open>
  \<open>front()\<close> of an empty list is undefined. The list is popped only when it is empty, as the
  source writes it. The size is compared as an unsigned number.
\<close>

definition updateTimerAfter :: "int \<Rightarrow> StatisticsEngine \<Rightarrow> StatisticsEngine result" where
  "updateTimerAfter now e =
     (if timeBefore e = [] then Inl OutOfRange
      else let e1 = e\<lparr>timeAfter := now,
                      queueTimeVector := queueTimeVector e @ [int32 (milliseconds (now - hd (timeBefore e)))]\<rparr>;
               e2 = (if length (timeBefore e1) = 0 then e1\<lparr>timeBefore := tl (timeBefore e1)\<rparr> else e1)
           in if int (length (queueTimeVector e2)) \<ge> statisticsArraySize e2 mod 2 ^ 64
              then Inr (calculateAvgTimerVector e2) else Inr e2)"

definition updateThreadStats :: "TaskPriority \<Rightarrow> TaskStatus \<Rightarrow> StatisticsEngine \<Rightarrow> StatisticsEngine result" where
  "updateThreadStats p st e =
     bindR (vec_at (taskCountVector e) (int (priority_value p))) (\<lambda>n.
       if st = TASK_IN then Inr (e\<lparr>taskCountVector := (taskCountVector e)[priority_value p := n + 1]\<rparr>)
       else if n \<noteq> 0 then Inr (e\<lparr>taskCountVector := (taskCountVector e)[priority_value p := n - 1]\<rparr>)
       else Inr e)"

fun thread_loop :: "int list \<Rightarrow> string \<Rightarrow> string" where
  "thread_loop [] thread = thread"
| "thread_loop (n # ns) thread = thread_loop ns (thread @ '','' @ int_string n)"

definition toJson :: "StatisticsEngine \<Rightarrow> (json \<times> StatisticsEngine) result" where
  "toJson e =
     bindR (json_put ''stats'' JNull JNull) (\<lambda>subPacket.
     bindR (vec_at (taskCountVector e) 0) (\<lambda>n.
     let thread = thread_loop (tl (taskCountVector e)) (int_string n) in
     bindR (json_put2 ''stats'' ''taskQueue'' (JStr thread) subPacket) (\<lambda>subPacket.
     let e1 = (if averageQueueTime e = 0 then calculateAvgTimerVector e else e) in
     bindR (json_put2 ''stats'' ''avgQueueTime'' (JFloat (averageQueueTime e1)) subPacket) (\<lambda>subPacket.
     bindR (json_put2 ''stats'' ''totalAvailableThreads'' (JNum (se_threadCount e1)) subPacket) (\<lambda>subPacket.
     bindR (json_get ''stats'' subPacket) (\<lambda>stats. Inr (stats, e1)))))))"

subsection \<open>Task counts\<close>

text \<open>What the counts mean: the bag of the priorities of the tasks that wait.\<close>

definition counts_ok :: "StatisticsEngine \<Rightarrow> bool" where
  "counts_ok e \<longleftrightarrow> length (taskCountVector e) = 4 \<and> (\<forall>n \<in> set (taskCountVector e). 0 \<le> n)"

definition task_bag :: "StatisticsEngine \<Rightarrow> TaskPriority multiset" where
  "task_bag e = (\<Sum>p \<leftarrow> [NON_PREEMTABLE, HIGH_PRIORITY, MEDIUM_PRIORITY, LOW_PRIORITY].
     replicate_mset (nat (taskCountVector e ! priority_value p)) p)"

fun bag_step :: "TaskStatus \<Rightarrow> TaskPriority \<Rightarrow> TaskPriority multiset \<Rightarrow> TaskPriority multiset" where
  "bag_step TASK_IN p B = add_mset p B"
| "bag_step TASK_OUT p B = B - {#p#}"

lemma count_task_bag: "count (task_bag e) p = nat (taskCountVector e ! priority_value p)"
  by (cases p) (simp_all add: task_bag_def)

lemma priority_value_less: "priority_value p < 4"
  by (cases p) simp_all

lemma updateThreadStats_eq:
  assumes "counts_ok e"
  shows "updateThreadStats p st e = Inr (e\<lparr>taskCountVector := (taskCountVector e)[priority_value p :=
     (if st = TASK_IN then taskCountVector e ! priority_value p + 1
      else if taskCountVector e ! priority_value p \<noteq> 0 then taskCountVector e ! priority_value p - 1
      else 0)]\<rparr>)"
  using assms priority_value_less [of p]
  by (auto simp: updateThreadStats_def counts_ok_def vec_at_def)
    (metis list_update_id StatisticsEngine.surjective StatisticsEngine.update_convs(4))

text \<open>\<open>updateThreadStats\<close> never fails and keeps the counts non-negative; the counts are exactly
  the bag of the waiting priorities, to which a task in adds its priority and from which a task
  out removes it, if it is there.\<close>

theorem task_counts_refine_bag:
  assumes "counts_ok e"
  shows "\<exists>e'. updateThreadStats p st e = Inr e' \<and> counts_ok e' \<and> task_bag e' = bag_step st p (task_bag e)"
proof -
  let ?v = "taskCountVector e" and ?k = "priority_value p"
  let ?n = "if st = TASK_IN then ?v ! ?k + 1 else if ?v ! ?k \<noteq> 0 then ?v ! ?k - 1 else 0"
  let ?e = "e\<lparr>taskCountVector := ?v[?k := ?n]\<rparr>"
  have len: "length ?v = 4" and pos: "0 \<le> ?v ! ?k"
    using assms priority_value_less [of p] by (auto simp: counts_ok_def)
  then have "counts_ok ?e"
    using assms by (auto simp: counts_ok_def dest!: set_update_subset_insert [THEN subsetD])
  moreover have "task_bag ?e = bag_step st p (task_bag e)"
  proof (rule multiset_eqI)
    fix q
    show "count (task_bag ?e) q = count (bag_step st p (task_bag e)) q"
      using len pos priority_value_less [of p]
      by (cases st; cases "q = p") (auto simp: count_task_bag nth_list_update nat_diff_distrib)
  qed
  ultimately show ?thesis using updateThreadStats_eq [OF assms] by blast
qed

theorem task_counts_refine_bag_witness:
  "\<exists>e'. updateThreadStats HIGH_PRIORITY TASK_OUT (new_StatisticsEngine 2 10) = Inr e' \<and> counts_ok e' \<and>
     task_bag e' = {#}"
  using task_counts_refine_bag [of "new_StatisticsEngine 2 10" HIGH_PRIORITY TASK_OUT]
  by (simp add: counts_ok_def new_StatisticsEngine_def task_bag_def)

subsection \<open>Timers\<close>

text \<open>The calls of the two timers, in the order they are made.\<close>

datatype timer_call = Before int | After int

fun timer_step :: "timer_call \<Rightarrow> StatisticsEngine \<Rightarrow> StatisticsEngine result" where
  "timer_step (Before now) e = Inr (updateTimerBefore now e)"
| "timer_step (After now) e = updateTimerAfter now e"

fun timer_run :: "timer_call list \<Rightarrow> StatisticsEngine \<Rightarrow> StatisticsEngine result" where
  "timer_run [] e = Inr e"
| "timer_run (c # cs) e = bindR (timer_step c e) (timer_run cs)"

fun pushed_times :: "timer_call list \<Rightarrow> int list" where
  "pushed_times [] = []"
| "pushed_times (Before now # cs) = now # pushed_times cs"
| "pushed_times (After now # cs) = pushed_times cs"

lemma calculateAvg_frame [simp]:
  "timeBefore (calculateAvgTimerVector e) = timeBefore e"
  "statisticsArraySize (calculateAvgTimerVector e) = statisticsArraySize e"
  "se_threadCount (calculateAvgTimerVector e) = se_threadCount e"
  by (simp_all add: calculateAvgTimerVector_def Let_def)

lemma calculateAvg_length: "length (queueTimeVector (calculateAvgTimerVector e)) = min 1 (length (queueTimeVector e))"
  by (cases "queueTimeVector e") (simp_all add: calculateAvgTimerVector_def Let_def)

lemma timer_step_frame:
  assumes "timer_step c e = Inr e'"
  shows "statisticsArraySize e' = statisticsArraySize e"
    and "timeBefore e' = timeBefore e @ pushed_times [c]"
    and "2 \<le> statisticsArraySize e \<Longrightarrow> statisticsArraySize e < 2 ^ 64 \<Longrightarrow>
      int (length (queueTimeVector e)) < statisticsArraySize e \<Longrightarrow> int (length (queueTimeVector e')) < statisticsArraySize e"
    and "se_threadCount e' = se_threadCount e"
  using assms
  by (cases c; auto simp: updateTimerBefore_def updateTimerAfter_def Let_def calculateAvg_length split: if_splits)+

lemma timer_run_frame:
  assumes "timer_run cs e = Inr e'"
  shows "statisticsArraySize e' = statisticsArraySize e"
    and "timeBefore e' = timeBefore e @ pushed_times cs"
    and "2 \<le> statisticsArraySize e \<Longrightarrow> statisticsArraySize e < 2 ^ 64 \<Longrightarrow>
      int (length (queueTimeVector e)) < statisticsArraySize e \<Longrightarrow> int (length (queueTimeVector e')) < statisticsArraySize e"
    and "se_threadCount e' = se_threadCount e"
  using assms
proof (induction cs arbitrary: e)
  case (Cons c cs)
  {
    case 1
    then show ?case using Cons.IH(1) timer_step_frame(1) by (fastforce simp: result_simps)
  next
    case 2
    then obtain e1 where step: "timer_step c e = Inr e1" and run: "timer_run cs e1 = Inr e'"
      by (auto simp: result_simps)
    show ?case
      using Cons.IH(2) [OF run] timer_step_frame(2) [OF step] by (cases c) simp_all
  next
    case 3
    then obtain e1 where step: "timer_step c e = Inr e1" and run: "timer_run cs e1 = Inr e'"
      by (auto simp: result_simps)
    show ?case
      using Cons.IH(3) [OF _ _ _ run] timer_step_frame(1) [OF step] timer_step_frame(3) [OF step 3(1-3)] 3(1,2) by simp
  next
    case 4
    then show ?case using Cons.IH(4) timer_step_frame(4) by (fastforce simp: result_simps)
  }
qed simp_all

text \<open>The time a task was pushed is never removed: \<open>updateTimerAfter\<close> pops the list of times only
  when it is empty. So after any calls the list holds every push so far, the samples stay fewer
  than the array's size, and the next sample is the time since the very first push, not the time
  the popped task has waited; with no push before, the call reads the front of an empty list.\<close>

theorem push_times_are_never_removed:
  assumes "timer_run cs (new_StatisticsEngine threads asize) = Inr e" and "2 \<le> asize" and "asize < 2 ^ 31"
  shows "timeBefore e = pushed_times cs \<and> int (length (queueTimeVector e)) < asize \<and>
    updateTimerAfter now e = (case pushed_times cs of [] \<Rightarrow> Inl OutOfRange
       | first # _ \<Rightarrow> let e1 = e\<lparr>timeAfter := now, queueTimeVector := queueTimeVector e @ [int32 (milliseconds (now - first))]\<rparr>
          in Inr (if int (length (queueTimeVector e1)) \<ge> asize then calculateAvgTimerVector e1 else e1))"
proof -
  have new: "timeBefore (new_StatisticsEngine threads asize) = []"
    "queueTimeVector (new_StatisticsEngine threads asize) = []"
    "statisticsArraySize (new_StatisticsEngine threads asize) = asize"
    by (simp_all add: new_StatisticsEngine_def)
  note frame = timer_run_frame [OF assms(1), unfolded new]
  then have arr: "statisticsArraySize e mod 18446744073709551616 = asize" and
    "timeBefore e = pushed_times cs" "int (length (queueTimeVector e)) < asize"
    using assms(2,3) by auto
  then show ?thesis by (auto simp: updateTimerAfter_def Let_def split: list.split)
qed

definition two_pushes :: "timer_call list" where
  "two_pushes = [Before 1000000, After 6000000, Before 8000000]"

theorem push_times_are_never_removed_witness:
  "\<exists>e. timer_run two_pushes (new_StatisticsEngine 2 10) = Inr e \<and> timeBefore e = [1000000, 8000000] \<and>
     updateTimerAfter 9000000 e = Inr (e\<lparr>timeAfter := 9000000, queueTimeVector := [5, 8]\<rparr>)"
proof -
  obtain e where run: "timer_run two_pushes (new_StatisticsEngine 2 10) = Inr e" and q: "queueTimeVector e = [5]"
    by (simp add: two_pushes_def updateTimerBefore_def updateTimerAfter_def new_StatisticsEngine_def milliseconds_def
        int32_def)
  then show ?thesis
    using push_times_are_never_removed [OF run, of 9000000]
    by (simp add: two_pushes_def milliseconds_def int32_def q)
qed

subsection \<open>The statistics of a packet\<close>

lemma int_string_zero: "int_string 0 = ''0''"
  by (simp add: int_string_def nat_string.simps digit_def) code_simp

text \<open>Samples are 32-bit numbers, and the average is a double.\<close>

definition timers_ok :: "StatisticsEngine \<Rightarrow> bool" where
  "timers_ok e \<longleftrightarrow> (\<forall>i \<in> set (queueTimeVector e). - (2 ^ 31) \<le> i \<and> i < 2 ^ 31) \<and> is_double (averageQueueTime e)"

lemma fold_sum: "fold (\<lambda>i a. a + of_int i) is (a :: rat) = a + of_int (sum_list is)"
  by (induction "is" arbitrary: a) simp_all

lemma sum_list_bounds:
  assumes "\<forall>i \<in> set is. - b \<le> i \<and> i \<le> (b :: int)"
  shows "\<bar>sum_list is\<bar> \<le> int (length is) * b"
  using assms
proof (induction "is")
  case (Cons i "is")
  then have "\<bar>sum_list is\<bar> \<le> int (length is) * b" "\<bar>i\<bar> \<le> b" by auto
  then show ?case by (simp add: algebra_simps)
qed simp

lemma average_is_double:
  assumes "timers_ok e"
  shows "is_double (averageQueueTime (calculateAvgTimerVector e))"
proof (cases "queueTimeVector e = []")
  case True
  then show ?thesis using assms by (simp add: timers_ok_def calculateAvgTimerVector_def)
next
  case False
  let ?is = "queueTimeVector e"
  let ?n = "of_nat (length ?is) :: rat"
  have "\<bar>sum_list ?is\<bar> \<le> int (length ?is) * 2 ^ 31"
    using assms by (intro sum_list_bounds) (auto simp: timers_ok_def)
  then have "of_int \<bar>sum_list ?is\<bar> \<le> (of_int (int (length ?is) * 2 ^ 31) :: rat)" by (simp only: of_int_le_iff)
  then have "\<bar>of_int (sum_list ?is)\<bar> / ?n \<le> 2 ^ 31" using False by (simp add: pos_divide_le_eq mult.commute)
  then have "\<bar>of_int (sum_list ?is) / ?n\<bar> \<le> 2 ^ 53" by simp
  then obtain d where "to_double (of_int (sum_list ?is) / ?n) = Some d" "is_double d" by (rule to_double_finite)
  then show ?thesis using False by (simp add: calculateAvgTimerVector_def Let_def fold_sum)
qed

lemma int32_range: "- (2 ^ 31) \<le> int32 k \<and> int32 k < 2 ^ 31"
  using sint_ge [of "word_of_int k :: 32 word"] sint_less [of "word_of_int k :: 32 word"] by (simp add: int32_def)

lemma calculateAvg_ok: "timers_ok e \<Longrightarrow> timers_ok (calculateAvgTimerVector e)"
  using average_is_double [of e] int32_range by (auto simp: timers_ok_def calculateAvgTimerVector_def Let_def)

lemma timer_step_ok:
  assumes "timers_ok e" and "timer_step c e = Inr e'"
  shows "timers_ok e'"
proof (cases c)
  case (Before now)
  then show ?thesis using assms by (auto simp: updateTimerBefore_def timers_ok_def)
next
  case (After now)
  let ?e = "e\<lparr>timeAfter := now, queueTimeVector := queueTimeVector e @ [int32 (milliseconds (now - hd (timeBefore e)))]\<rparr>"
  have "timers_ok ?e" using assms(1) int32_range by (auto simp: timers_ok_def)
  moreover have "e' = ?e \<or> e' = calculateAvgTimerVector ?e"
    using assms(2) After by (auto simp: updateTimerAfter_def Let_def split: if_splits)
  ultimately show ?thesis using calculateAvg_ok by blast
qed

lemma timers_ok_new: "timers_ok (new_StatisticsEngine threads asize)"
  by (simp add: timers_ok_def new_StatisticsEngine_def)

lemma timer_run_ok: "timer_run cs e = Inr e' \<Longrightarrow> timers_ok e \<Longrightarrow> timers_ok e'"
  by (induction cs arbitrary: e) (auto simp: result_simps dest: timer_step_ok)

text \<open>No code of the worker calls the timers or the counters, so the engine stays as \<open>main\<close> made
  it: every packet reports an idle worker, whatever waits in the task pool.\<close>

theorem statistics_are_constant:
  "toJson (new_StatisticsEngine threads asize) =
     Inr (JObj [(''taskQueue'', JStr ''0,0,0,0''), (''avgQueueTime'', JFloat 0),
                (''totalAvailableThreads'', JNum threads)], new_StatisticsEngine threads asize)"
  by (simp add: toJson_def new_StatisticsEngine_def vec_at_def json_put2_def calculateAvgTimerVector_def
      int_string_zero numeral_eq_Suc)

end
