(* ===== verification/Exchange.thy ===== *)
theory Exchange
  imports Socket_Task Worker_System Packet_Validation Stats_Engine
begin

section \<open>Exchanges and the stages they start\<close>

text \<open>
  The socket's exchange threads and the scheduler's task threads together: what the client reads
  becomes a receiver stage, and a task thread runs it.
\<close>

text \<open>\<open>launch_client_socket\<close> on the state of the stages, with the submissions it makes.\<close>

definition received ::
  "json \<Rightarrow> 'db world \<times> (stage, ptr) submission list \<Rightarrow> 'db world \<times> (stage, ptr) submission list"
where
  "received packet ws = (case init_receiver packet (fst ws) of (rc, w', subs) \<Rightarrow> (w', snd ws @ subs))"

definition world_exchange ::
  "transport \<Rightarrow> JsonContainer \<Rightarrow> 'db world \<Rightarrow> Socket \<Rightarrow>
   (('db world \<times> (stage, ptr) submission list) \<times> Socket) result"
where
  "world_exchange tr c w soc =
     launch_client_socket tr (getHostName (w_config w)) (getPortNumber (w_config w)) received c (w, []) soc"

text \<open>Several turns of a task thread, with nothing else going on.\<close>

fun turns ::
  "nat \<Rightarrow> nat \<Rightarrow> ('p \<Rightarrow> ('p, 'a, 'w) ProcessStates) \<Rightarrow> uninit \<Rightarrow> ('p, 'a, 'z) sched_mem_scheme \<Rightarrow> ThreadQueue \<Rightarrow> 'w \<Rightarrow>
   ((('p, 'a, 'z) sched_mem_scheme \<times> ThreadQueue \<times> 'w) result) option"
where
  "turns 0 fuel env u m q w = Some (Inr (m, q, w))"
| "turns (Suc n) fuel env u m q w =
     (case thread_turn fuel env u m q w of
        Some (Inr (m', q', w')) \<Rightarrow> turns n fuel env u m' q' w'
      | r \<Rightarrow> r)"

subsection \<open>Packets of the sender\<close>

lemma utf8_ascii: "list_all (\<lambda>c. byte c \<le> 0x7F) s \<Longrightarrow> utf8_valid s"
  by (induction s) simp_all

lemma nat_string_ascii: "list_all (\<lambda>c. byte c \<le> 0x7F) (nat_string n)"
proof (rule list_all_iff [THEN iffD2], rule ballI)
  fix c assume "c \<in> set (nat_string n)"
  then have "is_digit c" by (rule nat_string_digits)
  then show "byte c \<le> 0x7F" by (simp add: is_digit_def)
qed

lemma int_string_ascii: "list_all (\<lambda>c. byte c \<le> 0x7F) (int_string k)"
  using nat_string_ascii by (simp add: int_string_def)

lemma thread_loop_ascii:
  "list_all (\<lambda>c. byte c \<le> 0x7F) s \<Longrightarrow> list_all (\<lambda>c. byte c \<le> 0x7F) (thread_loop ns s)"
  by (induction ns arbitrary: s) (simp_all add: int_string_ascii)

text \<open>What the statistics engine reports, after any calls of its timers, can be written and read back.\<close>

theorem statistics_can_be_sent:
  assumes "timer_run cs (new_StatisticsEngine nt asize) = Inr e" and "toJson e = Inr (stats, e')"
    and "- (2 ^ 31) \<le> nt" and "nt < 2 ^ 31"
  shows "json_ok stats"
proof -
  have "timers_ok e" using timer_run_ok [OF assms(1) timers_ok_new] .
  moreover have "se_threadCount e = nt"
    using timer_run_frame(4) [OF assms(1)] by (simp add: new_StatisticsEngine_def)
  ultimately show ?thesis
    using assms(2-4) utf8_ascii [OF thread_loop_ascii [OF int_string_ascii]] average_is_double [of e]
    by (auto simp: toJson_def result_simps vec_at_def json_put2_def Let_def timers_ok_def split: if_splits)
qed

text \<open>
  The packets \<open>create_packet\<close> makes can be written and read back when the strings of the package and
  the worker's identifier are UTF-8 and the statistics can.
\<close>

lemma create_packet_ok:
  assumes "create_packet stats item workerId sink soc = Inr (packet, soc')"
    and "utf8_valid (fp_tableID item)" and "utf8_valid (fp_data item)" and "utf8_valid workerId" and "json_ok stats"
    and "0 \<le> fp_priority item" and "fp_priority item < 2 ^ 31"
  shows "json_ok packet"
  using assms
  by (cases "fp_statusCode item")
    (auto simp: create_packet_def packet_head_eq packet_body_eq body_fields_def packet_status)


definition small_package :: ForwardStackPackage where
  "small_package = \<lparr>fp_statusCode = FRES_SEND, fp_priority = 2, fp_tableID = ''T1'', fp_data = ''Sunny,Yes''\<rparr>"


subsection \<open>An exchange that fails\<close>

lemma null_packet_fails:
  assumes "w_receivers w a = Some (new_Receiver JNull)"
  shows "receiver_proccess pf (Some a) w = Inr (JOB_FAILED, w)"
proof -
  have "\<not> schema_valid packetSchema JNull" by (simp add: packetSchema_accepts)
  then have "identifyPacketType pf (new_Receiver JNull) w = Inr (P_ERROR, new_Receiver JNull, w)"
    by (simp add: identifyPacketType_def validatePacketHead_def new_Receiver_def)
  moreover have "(w_receivers w)(a \<mapsto> new_Receiver JNull) = w_receivers w" using assms by auto
  ultimately show ?thesis using assms by (simp add: receiver_proccess_def)
qed

lemma failing_receiver_turns:
  assumes "getNextTask q = (Some j, q)" and "live_job m j job a t"
    and "processState t = Some receiver_proc" and "pt_args t = Some r" and "cpuSliceMs job = 0"
    and "\<not> status_isset JOB_DONE (jobStatus t)" and "\<not> status_isset JOB_PENDING (jobStatus t)"
    and "w_receivers w r = Some (new_Receiver JNull)"
  shows "\<exists>m' job' s. turns n (Suc fuel) (worker_stage pf) u m q w = Some (Inr (m', q, w)) \<and>
     live_job m' j job' a (t\<lparr>jobStatus := s\<rparr>) \<and> \<not> status_isset JOB_DONE s \<and> taskSink m' = taskSink m"
  using assms(2-7)
proof (induction n arbitrary: m job t)
  case 0
  have "t\<lparr>jobStatus := jobStatus t\<rparr> = t" by simp
  then show ?case using 0 by (metis turns.simps(1))
next
  case (Suc n)
  obtain m1 job1 s where one: "thread_turn (Suc fuel) (worker_stage pf) u m q w = Some (Inr (m1, q, w))"
      "live_job m1 j job1 a (t\<lparr>jobStatus := s\<rparr>)" "cpuSliceMs job1 = 0" "\<not> status_isset JOB_DONE s"
      "\<not> status_isset JOB_PENDING s" "taskSink m1 = taskSink m"
    using failed_job_turn [where f = "receiver_proccess pf" and env = "worker_stage pf" and fuel = fuel and u = u
        and w = w and w' = w, OF assms(1) Suc.prems(1,2) _ Suc.prems(4-6)] null_packet_fails [OF assms(8)] Suc.prems(3) by auto
  obtain m' job' s' where "turns n (Suc fuel) (worker_stage pf) u m1 q w = Some (Inr (m', q, w))"
      "live_job m' j job' a (t\<lparr>jobStatus := s'\<rparr>)" "\<not> status_isset JOB_DONE s'" "taskSink m' = taskSink m1"
    using Suc.IH [OF one(2)] Suc.prems one by auto
  then show ?case using one(1,6) by auto
qed


text \<open>A host that is not known.\<close>

definition no_server :: transport where
  "no_server = echo_server\<lparr>resolve := \<lambda>_ _. None\<rparr>"

definition null_table :: "(stage, ptr) ProcessTable" where
  "null_table = new_ProcessTable\<lparr>processState := Some receiver_proc, pt_args := Some 1\<rparr>"

definition null_mem :: "(stage, ptr) sched_mem" where
  "null_mem = \<lparr>proc_heap = [7 \<mapsto> null_table], proc_next = 8, pidVector = [7], taskSink = [],
     job_heap = [3 \<mapsto> new_QueueJob (Some 7)], job_next = 4, freed_write = False\<rparr>"

lemma example_queue_again: "getNextTask example_queue = (Some 3, example_queue)"
proof -
  have four: "QUEUE_SIZE = Suc (Suc (Suc (Suc 0)))" by simp
  show ?thesis unfolding getNextTask_def four next_loop.simps example_queue_eq by (simp add: Let_def)
qed


end
