(* ===== verification/Startup.thy ===== *)
theory Startup
  imports Scheduler Worker_State Stats_Engine
begin

section \<open>Starting the worker: main.cpp\<close>

text \<open>
  \<open>hostname\<close>, \<open>port\<close> and \<open>threadCount\<close> are what was read from the terminal (empty strings and 0 when
  reading failed); \<open>config_rc\<close> and \<open>open_rc\<close> are the answers of SQLite. A failed assertion ends the
  program: \<open>None\<close>. The local array \<open>net\<close> holds the address with its default.
\<close>

record startup =
  net :: "string list"
  su_globalConfigs :: Configs
  su_threadQueueList :: "ThreadQueue list"
  su_statsEngine :: StatisticsEngine

definition main_start ::
  "int \<Rightarrow> int \<Rightarrow> (nat \<Rightarrow> nat \<Rightarrow> ptr option) \<Rightarrow> string \<Rightarrow> string \<Rightarrow> int \<Rightarrow> startup option"
where
  "main_start config_rc open_rc g hostname port threadCount =
     (let net0 = [''0.0.0.0'', ''8080''];
          net1 = (if hostname = [] \<or> port = [] then net0 else [hostname, port])
      in if config_rc \<noteq> SQLITE_OK then None
         else let rc = initDatabase open_rc;
                  configs = new_Configs threadCount hostname port;
                  threadCount1 = (if threadCount > MAX_THREAD \<or> threadCount \<le> 0 then 2 else threadCount);
                  queues = init_sched g (getTotalThreadCount configs) (nat threadCount1);
                  stats = new_StatisticsEngine threadCount1 10
              in Some \<lparr>net = net1, su_globalConfigs = configs, su_threadQueueList = queues, su_statsEngine = stats\<rparr>)"

lemma main_start_outcome:
  "main_start SQLITE_OK open_rc g hostname port threadCount = Some su \<Longrightarrow>
   length (su_threadQueueList su) = nat threadCount \<and> getTotalThreadCount (su_globalConfigs su) = threadCount \<and>
   getHostName (su_globalConfigs su) = hostname \<and> getPortNumber (su_globalConfigs su) = port"
  by (auto simp: main_start_def Let_def config_defs init_sched_def)

text \<open>\<open>main\<close> checks its input without effect. It limits the number of threads only in a local
  variable, after the configuration has been written, and \<open>init_sched\<close> ignores its argument; the
  default address goes to an array nobody reads. So with a number of threads that is zero, negative
  or unreadable no thread is started while the statistics announce two, the scheduler's rounds
  leave every task in the pool, and an empty host name stays empty.\<close>

theorem main_checks_have_no_effect:
  assumes "main_start SQLITE_OK open_rc g [] port threadCount = Some su" and "threadCount \<le> 0"
  shows "su_threadQueueList su = [] \<and> se_threadCount (su_statsEngine su) = 2 \<and>
    sched_round env td0 m (su_threadQueueList su) = Inr (m, []) \<and>
    net su = [''0.0.0.0'', ''8080''] \<and> getHostName (su_globalConfigs su) = []"
  using assms
  by (auto simp: main_start_def Let_def config_defs init_sched_def new_StatisticsEngine_def sched_round_def
      get_total_empty_slots_def rebalance_thread_queues_def)

theorem main_checks_have_no_effect_witness:
  "\<exists>su. main_start SQLITE_OK 0 (\<lambda>_ _. None) [] ''80'' 0 = Some su \<and> su_threadQueueList su = [] \<and>
     se_threadCount (su_statsEngine su) = 2"
proof -
  obtain su where su: "main_start SQLITE_OK 0 (\<lambda>_ _. None) [] ''80'' 0 = Some su"
    by (simp add: main_start_def Let_def)
  show ?thesis using su main_checks_have_no_effect [OF su] by auto
qed

end
