(* ===== verification/Regex.thy ===== *)
theory Regex
  imports Prelude
begin

section \<open>Regular expressions: std::regex\<close>

text \<open>
  The format checks and the keyword \<open>pattern\<close> of the schema validator use \<open>std::regex\<close> with the
  ECMAScript grammar. Modelled are alternatives, groups (capturing or not), character classes,
  escapes, the anchors and the quantifiers; a lazy quantifier matches the same words. Reading answers
  \<open>None\<close> for what the grammar does not allow, and also for lookahead, back references and word
  boundaries, which are outside the model. Matching answers whether there is a match; where a caller looks
  at groups, they have fixed places.
\<close>

datatype rexp =
    REps
  | RSet bool "(char \<times> char) list"
  | RBegin
  | REnd
  | RSeq rexp rexp
  | RAlt rexp rexp
  | RStar rexp

text \<open>A class of characters by its ranges; the flag is that of a class that is negated.\<close>

definition in_class :: "bool \<Rightarrow> (char \<times> char) list \<Rightarrow> char \<Rightarrow> bool" where
  "in_class neg cs c \<longleftrightarrow> list_ex (\<lambda>(a, b). of_char a \<le> (of_char c :: nat) \<and> (of_char c :: nat) \<le> of_char b) cs \<noteq> neg"

fun seq_of :: "rexp list \<Rightarrow> rexp" where
  "seq_of [] = REps"
| "seq_of [r] = r"
| "seq_of (r # rs) = RSeq r (seq_of rs)"

fun alt_of :: "rexp list list \<Rightarrow> rexp" where
  "alt_of [] = REps"
| "alt_of [rs] = seq_of rs"
| "alt_of (rs # rss) = RAlt (seq_of rs) (alt_of rss)"

primrec up_to :: "rexp \<Rightarrow> nat \<Rightarrow> rexp" where
  "up_to r 0 = REps"
| "up_to r (Suc n) = RAlt REps (RSeq r (up_to r n))"

definition repeated :: "rexp \<Rightarrow> nat \<Rightarrow> nat option \<Rightarrow> rexp" where
  "repeated r lo hi =
     seq_of (replicate lo r @ (case hi of None \<Rightarrow> [RStar r] | Some m \<Rightarrow> if m = lo then [] else [up_to r (m - lo)]))"

subsection \<open>Reading\<close>

text \<open>The characters of a class escape; a control escape is a class of one character.\<close>

definition class_escape :: "char \<Rightarrow> (char \<times> char) list option" where
  "class_escape c =
     (if c = CHR ''d'' then Some [(CHR ''0'', CHR ''9'')]
      else if c = CHR ''w'' then Some [(CHR ''A'', CHR ''Z''), (CHR ''a'', CHR ''z''), (CHR ''0'', CHR ''9''), (CHR ''_'', CHR ''_'')]
      else if c = CHR ''s'' then Some [(CHR 0x09, CHR 0x0D), (CHR '' '', CHR '' '')]
      else if c = CHR ''t'' then Some [(CHR 0x09, CHR 0x09)]
      else if c = CHR ''n'' then Some [(CHR 0x0A, CHR 0x0A)]
      else if c = CHR ''v'' then Some [(CHR 0x0B, CHR 0x0B)]
      else if c = CHR ''f'' then Some [(CHR 0x0C, CHR 0x0C)]
      else if c = CHR ''r'' then Some [(CHR 0x0D, CHR 0x0D)]
      else if c \<in> set ''DWSbBcxu0123456789'' then None
      else Some [(c, c)])"

definition atom_escape :: "char \<Rightarrow> rexp option" where
  "atom_escape c =
     (if c = CHR ''D'' then map_option (RSet True) (class_escape (CHR ''d''))
      else if c = CHR ''W'' then map_option (RSet True) (class_escape (CHR ''w''))
      else if c = CHR ''S'' then map_option (RSet True) (class_escape (CHR ''s''))
      else map_option (RSet False) (class_escape c))"

text \<open>The rest of a bracketed class, behind its opening.\<close>

fun class_items :: "string \<Rightarrow> (char \<times> char) list \<Rightarrow> ((char \<times> char) list \<times> string) option" where
  "class_items [] acc = None"
| "class_items (c # s) acc =
     (if c = CHR '']'' then Some (acc, s)
      else if c = CHR 0x5C then
        (case s of
           [] \<Rightarrow> None
         | d # s' \<Rightarrow> (case class_escape d of None \<Rightarrow> None | Some cs \<Rightarrow> class_items s' (acc @ cs)))
      else (case s of
          m # d # s' \<Rightarrow>
            if m = CHR ''-'' \<and> d \<noteq> CHR '']'' then
              (if d = CHR 0x5C \<or> (of_char d :: nat) < of_char c then None else class_items s' (acc @ [(c, d)]))
            else class_items s (acc @ [(c, c)])
        | _ \<Rightarrow> class_items s (acc @ [(c, c)])))"

definition one_atom :: "char \<Rightarrow> string \<Rightarrow> (rexp \<times> string) option" where
  "one_atom c s =
     (if c = CHR ''['' then
        (case s of
           d # s' \<Rightarrow> if d = CHR ''^'' then map_option (\<lambda>(cs, s'). (RSet True cs, s')) (class_items s' [])
                       else map_option (\<lambda>(cs, s'). (RSet False cs, s')) (class_items s [])
         | [] \<Rightarrow> None)
      else if c = CHR 0x5C then
        (case s of [] \<Rightarrow> None | d # s' \<Rightarrow> map_option (\<lambda>r. (r, s')) (atom_escape d))
      else if c = CHR ''.'' then Some (RSet True [(CHR 0x0A, CHR 0x0A), (CHR 0x0D, CHR 0x0D)], s)
      else if c \<in> set ''*+?{'' then None
      else Some (RSet False [(c, c)], s))"

text \<open>A number of repetitions: the digits in front, and what follows them.\<close>

fun repeat_count :: "string \<Rightarrow> nat option \<Rightarrow> nat option \<times> string" where
  "repeat_count [] n = (n, [])"
| "repeat_count (c # s) n =
     (if c \<in> set ''0123456789''
      then repeat_count s (Some (10 * (case n of None \<Rightarrow> 0 | Some m \<Rightarrow> m) + (of_char c - 0x30))) else (n, c # s))"

text \<open>The bounds of a quantifier and the text behind it; \<open>None\<close> when it is malformed.\<close>

definition bounds :: "string \<Rightarrow> ((nat \<times> nat option) option \<times> string) option" where
  "bounds s =
     (case s of
        [] \<Rightarrow> Some (None, s)
      | c # s1 \<Rightarrow>
          if c = CHR ''*'' then Some (Some (0, None), s1)
          else if c = CHR ''+'' then Some (Some (1, None), s1)
          else if c = CHR ''?'' then Some (Some (0, Some 1), s1)
          else if c = CHR ''{'' then
            (case repeat_count s1 None of
               (Some lo, d # s2) \<Rightarrow>
                 if d = CHR ''}'' then Some (Some (lo, Some lo), s2)
                 else if d = CHR '','' then
                   (case repeat_count s2 None of
                      (None, d # s3) \<Rightarrow> if d = CHR ''}'' then Some (Some (lo, None), s3) else None
                    | (Some hi, d # s3) \<Rightarrow> if d = CHR ''}'' \<and> lo \<le> hi then Some (Some (lo, Some hi), s3) else None
                    | (_, []) \<Rightarrow> None)
                 else None
             | _ \<Rightarrow> None)
          else Some (None, s))"

definition quantified :: "rexp \<Rightarrow> string \<Rightarrow> (rexp \<times> string) option" where
  "quantified r s =
     (case bounds s of
        None \<Rightarrow> None
      | Some (None, s') \<Rightarrow> Some (r, s')
      | Some (Some (lo, hi), s') \<Rightarrow>
          Some (repeated r lo hi, (case s' of c # s'' \<Rightarrow> if c = CHR ''?'' then s'' else s' | [] \<Rightarrow> s')))"

lemma class_items_shorter: "class_items s acc = Some (cs, s') \<Longrightarrow> length s' < length s"
proof (induction s acc rule: class_items.induct)
  case (2 c s acc)
  have esc: "length s' < length t" if "s = d # t" "c = CHR 0x5C" "class_escape d = Some x" "class_items t (acc @ x) = Some (cs, s')" for d t x
    using 2(1) that by simp
  show ?case
    using 2 by (simp split: if_splits list.splits option.splits) (auto dest: esc)
qed simp

lemma one_atom_shorter: "one_atom c s = Some (r, s') \<Longrightarrow> length s' \<le> length s"
  by (auto simp: one_atom_def split: if_splits list.splits simp del: class_items.simps dest!: class_items_shorter)

lemma repeat_count_shorter: "repeat_count s n = (m, s') \<Longrightarrow> length s' \<le> length s"
  by (induction s n rule: repeat_count.induct) (auto split: if_splits)

lemma bounds_shorter: "bounds s = Some (q, s') \<Longrightarrow> length s' \<le> length s"
  by (auto simp: bounds_def split: list.splits if_splits option.splits prod.splits dest!: repeat_count_shorter)

lemma quantified_shorter: "quantified r s = Some (t, s') \<Longrightarrow> length s' \<le> length s"
  by (auto simp: quantified_def split: option.splits prod.splits list.splits if_splits dest!: bounds_shorter)

text \<open>
  The reader keeps the alternatives that are complete and the terms of the one under way, and a stack of
  them for the groups that are open.
\<close>

function regex_loop :: "string \<Rightarrow> (rexp list list \<times> rexp list) list \<Rightarrow> rexp list list \<Rightarrow> rexp list \<Rightarrow> rexp option" where
  "regex_loop [] st alts terms = (if st = [] then Some (alt_of (alts @ [terms])) else None)"
| "regex_loop (c # s) st alts terms =
     (if c = CHR ''('' then
        (case s of
           d # e # s' \<Rightarrow>
             if d = CHR ''?'' then (if e = CHR '':'' then regex_loop s' ((alts, terms) # st) [] [] else None)
             else regex_loop s ((alts, terms) # st) [] []
         | _ \<Rightarrow> regex_loop s ((alts, terms) # st) [] [])
      else if c = CHR '')'' then
        (case st of
           [] \<Rightarrow> None
         | (alts', terms') # st' \<Rightarrow>
             (case quantified (alt_of (alts @ [terms])) s of
                None \<Rightarrow> None
              | Some (r, s') \<Rightarrow> regex_loop s' st' alts' (terms' @ [r])))
      else if c = CHR ''|'' then regex_loop s st (alts @ [terms]) []
      else if c = CHR ''^'' then regex_loop s st alts (terms @ [RBegin])
      else if c = CHR ''$'' then regex_loop s st alts (terms @ [REnd])
      else (case one_atom c s of
          None \<Rightarrow> None
        | Some (a, s1) \<Rightarrow>
            (case quantified a s1 of None \<Rightarrow> None | Some (r, s') \<Rightarrow> regex_loop s' st alts (terms @ [r]))))"
  by pat_completeness auto
termination
  by (relation "measure (\<lambda>(s, _). length s)") (auto dest!: one_atom_shorter quantified_shorter)

definition regex :: "string \<Rightarrow> rexp option" where
  "regex s = regex_loop s [] [] []"

text \<open>A literal of HOL cannot hold a backslash; in the patterns of the source a backquote stands for it.\<close>

definition pat :: "string \<Rightarrow> string" where
  "pat = map (\<lambda>c. if c = CHR 0x60 then CHR 0x5C else c)"

subsection \<open>Matching\<close>

text \<open>What an expression matches in a text: pairs of positions, with composition and iteration of relations.\<close>

primrec spans :: "string \<Rightarrow> rexp \<Rightarrow> (nat \<times> nat) set" where
  "spans s REps = Id"
| "spans s (RSet neg cs) = {(i, Suc i) | i. i < length s \<and> in_class neg cs (s ! i)}"
| "spans s RBegin = {(0, 0)}"
| "spans s REnd = {(length s, length s)}"
| "spans s (RSeq r t) = spans s r O spans s t"
| "spans s (RAlt r t) = spans s r \<union> spans s t"
| "spans s (RStar r) = (spans s r)\<^sup>*"

text \<open>The executable matcher: the ends of the matches that begin at a position.\<close>

primrec iterate :: "nat \<Rightarrow> (nat \<Rightarrow> nat list) \<Rightarrow> nat list \<Rightarrow> nat list" where
  "iterate 0 f is = is"
| "iterate (Suc n) f is = iterate n f (remdups (is @ concat (map f is)))"

primrec ends :: "string \<Rightarrow> rexp \<Rightarrow> nat \<Rightarrow> nat list" where
  "ends s REps i = [i]"
| "ends s (RSet neg cs) i = (if i < length s \<and> in_class neg cs (s ! i) then [Suc i] else [])"
| "ends s RBegin i = (if i = 0 then [i] else [])"
| "ends s REnd i = (if i = length s then [i] else [])"
| "ends s (RSeq r t) i = remdups (concat (map (ends s t) (ends s r i)))"
| "ends s (RAlt r t) i = remdups (ends s r i @ ends s t i)"
| "ends s (RStar r) i = iterate (length s) (ends s r) [i]"

definition regex_match :: "rexp \<Rightarrow> string \<Rightarrow> bool" where
  "regex_match r s \<longleftrightarrow> length s \<in> set (ends s r 0)"

definition regex_search :: "rexp \<Rightarrow> string \<Rightarrow> bool" where
  "regex_search r s \<longleftrightarrow> list_ex (\<lambda>i. ends s r i \<noteq> []) [0..<Suc (length s)]"

lemma spans_mono: "(i, j) \<in> spans s r \<Longrightarrow> i \<le> j \<and> (i \<le> length s \<longrightarrow> j \<le> length s)"
proof (induction r arbitrary: i j)
  case (RSeq r t)
  then obtain k where "(i, k) \<in> spans s r" "(k, j) \<in> spans s t" by auto
  then show ?case using RSeq.IH by fastforce
next
  case (RStar r)
  have "(i, j) \<in> (spans s r)\<^sup>*" using RStar.prems by simp
  then show ?case by induction (use RStar.IH in fastforce)+
qed auto

text \<open>Passes that do not advance can be left out, so there are no more passes than positions.\<close>

lemma bounded_passes:
  assumes "(i, j) \<in> R\<^sup>*" and "\<And>a b. (a, b) \<in> R \<Longrightarrow> a \<le> b"
  shows "\<exists>n. n + i \<le> j \<and> (i, j) \<in> R ^^ n"
  using assms(1)
proof induction
  case base
  show ?case by (rule exI [of _ 0]) simp
next
  case (step j k)
  then obtain n where n: "n + i \<le> j" "(i, j) \<in> R ^^ n" by blast
  show ?case
  proof (cases "j = k")
    case False
    then have "Suc n + i \<le> k" "(i, k) \<in> R ^^ Suc n" using n step.hyps(2) assms(2) [OF step.hyps(2)] by auto
    then show ?thesis by blast
  qed (use n in blast)
qed

lemma iterate_steps: "set (iterate n f is) = {j. \<exists>i \<in> set is. \<exists>m \<le> n. (i, j) \<in> {(a, b). b \<in> set (f a)} ^^ m}"
proof (induction n arbitrary: "is")
  case (Suc n)
  let ?R = "{(a, b). b \<in> set (f a)}"
  have "(\<exists>i \<in> set is \<union> (\<Union>i \<in> set is. set (f i)). \<exists>m \<le> n. (i, j) \<in> ?R ^^ m) \<longleftrightarrow>
      (\<exists>i \<in> set is. \<exists>m \<le> Suc n. (i, j) \<in> ?R ^^ m)" for j
  proof (intro iffI; elim bexE exE conjE UnE)
    fix i m assume "m \<le> n" "(i, j) \<in> ?R ^^ m" "i \<in> (\<Union>i \<in> set is. set (f i))"
    then obtain k where k: "k \<in> set is" "(k, i) \<in> ?R" by auto
    from relpow_Suc_I2 [OF k(2) \<open>(i, j) \<in> ?R ^^ m\<close>] k(1)
    show "\<exists>i \<in> set is. \<exists>m \<le> Suc n. (i, j) \<in> ?R ^^ m" using \<open>m \<le> n\<close> by (meson Suc_le_mono)
  next
    fix i m assume a: "i \<in> set is" "m \<le> Suc n" "(i, j) \<in> ?R ^^ m"
    show "\<exists>i \<in> set is \<union> (\<Union>i \<in> set is. set (f i)). \<exists>m \<le> n. (i, j) \<in> ?R ^^ m"
    proof (cases m)
      case 0
      then show ?thesis using a by (intro bexI [of _ i] exI [of _ 0]) auto
    next
      case (Suc k)
      then obtain b where "(i, b) \<in> ?R" "(b, j) \<in> ?R ^^ k" using a(3) by (metis relpow_Suc_E2)
      then show ?thesis using a(1,2) Suc by auto
    qed
  next
    fix i m assume "m \<le> n" "(i, j) \<in> ?R ^^ m" "i \<in> set is"
    then show "\<exists>i \<in> set is. \<exists>m \<le> Suc n. (i, j) \<in> ?R ^^ m" by (meson le_SucI)
  qed
  then show ?case by (simp add: Suc.IH)
qed auto

lemma ends_correct: "i \<le> length s \<Longrightarrow> set (ends s r i) = {j. (i, j) \<in> spans s r}"
proof (induction r arbitrary: i)
  case (RSeq r t)
  have "set (ends s t k) = {j. (k, j) \<in> spans s t}" if "k \<in> set (ends s r i)" for k
    using that RSeq.IH RSeq.prems spans_mono by blast
  then show ?case using RSeq by auto
next
  case (RStar r)
  let ?R = "{(a, b). b \<in> set (ends s r a)}"
  have agree: "(i, j) \<in> ?R ^^ n \<longleftrightarrow> (i, j) \<in> spans s r ^^ n" for n j
  proof (induction n arbitrary: j)
    case (Suc n)
    have "k \<le> length s" if "(i, k) \<in> spans s r ^^ n" for k
      using that RStar.prems spans_mono [of i k s "RStar r"] by (auto simp: relpow_imp_rtrancl)
    then show ?case using Suc.IH RStar.IH by (fastforce simp: relcomp_unfold)
  qed simp
  have "(i, j) \<in> (spans s r)\<^sup>* \<longleftrightarrow> (\<exists>m \<le> length s. (i, j) \<in> spans s r ^^ m)" for j
  proof
    assume star: "(i, j) \<in> (spans s r)\<^sup>*"
    obtain n where "n + i \<le> j" "(i, j) \<in> spans s r ^^ n"
      using bounded_passes [OF star] spans_mono by blast
    moreover have "j \<le> length s" using spans_mono [of i j s "RStar r"] star RStar.prems by simp
    ultimately have "n \<le> length s" "(i, j) \<in> spans s r ^^ n" by simp_all
    then show "\<exists>m \<le> length s. (i, j) \<in> spans s r ^^ m" by blast
  qed (auto simp: relpow_imp_rtrancl)
  then show ?case by (simp add: iterate_steps agree)
qed auto

text \<open>The matcher finds a match exactly when there is one.\<close>

lemma regex_match_spans: "regex_match r s \<longleftrightarrow> (0, length s) \<in> spans s r"
  by (simp add: regex_match_def ends_correct)

lemma regex_search_spans: "regex_search r s \<longleftrightarrow> (\<exists>i \<le> length s. \<exists>j. (i, j) \<in> spans s r)"
proof -
  have "ends s r i \<noteq> [] \<longleftrightarrow> (\<exists>j. (i, j) \<in> spans s r)" if "i \<le> length s" for i
    using ends_correct [OF that, of r] by (metis empty_Collect_eq set_empty)
  then show ?thesis unfolding regex_search_def list_ex_iff by (auto simp: less_Suc_eq_le simp del: upt_Suc)
qed
subsection \<open>Words\<close>

text \<open>Apart from the anchors, what is matched depends on the characters between two positions only.\<close>

primrec anchor_free :: "rexp \<Rightarrow> bool" where
  "anchor_free REps \<longleftrightarrow> True"
| "anchor_free (RSet neg cs) \<longleftrightarrow> True"
| "anchor_free RBegin \<longleftrightarrow> False"
| "anchor_free REnd \<longleftrightarrow> False"
| "anchor_free (RSeq r t) \<longleftrightarrow> anchor_free r \<and> anchor_free t"
| "anchor_free (RAlt r t) \<longleftrightarrow> anchor_free r \<and> anchor_free t"
| "anchor_free (RStar r) \<longleftrightarrow> anchor_free r"

primrec lang :: "rexp \<Rightarrow> string set" where
  "lang REps = {[]}"
| "lang (RSet neg cs) = {[c] | c. in_class neg cs c}"
| "lang RBegin = {[]}"
| "lang REnd = {[]}"
| "lang (RSeq r t) = {u @ w | u w. u \<in> lang r \<and> w \<in> lang t}"
| "lang (RAlt r t) = lang r \<union> lang t"
| "lang (RStar r) = {concat ws | ws. set ws \<subseteq> lang r}"

definition between :: "string \<Rightarrow> nat \<Rightarrow> nat \<Rightarrow> string" where
  "between s i j = take (j - i) (drop i s)"

lemma between_append: "i \<le> k \<Longrightarrow> k \<le> j \<Longrightarrow> between s i j = between s i k @ between s k j"
  using take_add [of "k - i" "j - k" "drop i s"] by (simp add: between_def add.commute)

lemma length_between: "i \<le> j \<Longrightarrow> j \<le> length s \<Longrightarrow> length (between s i j) = j - i"
  by (simp add: between_def)

lemma between_parts:
  assumes "between s i j = u @ w" and "i \<le> j" and "j \<le> length s"
  shows "between s i (i + length u) = u" and "between s (i + length u) j = w" and "i + length u \<le> j"
proof -
  have l: "length u + length w = j - i" using length_between [OF assms(2,3)] by (simp add: assms(1))
  then show k: "i + length u \<le> j" using assms(2) by simp
  have "between s i (i + length u) @ between s (i + length u) j = u @ w" using assms(1) between_append [of i "i + length u" j s] k by simp
  moreover have "length (between s i (i + length u)) = length u" using k assms(3) by (simp add: between_def)
  ultimately show "between s i (i + length u) = u" "between s (i + length u) j = w" by simp_all
qed

lemma spans_lang:
  "anchor_free r \<Longrightarrow> i \<le> length s \<Longrightarrow> (i, j) \<in> spans s r \<longleftrightarrow> i \<le> j \<and> j \<le> length s \<and> between s i j \<in> lang r"
proof (induction r arbitrary: i j)
  case REps
  have "between s i j = [] \<longleftrightarrow> j \<le> i \<or> length s \<le> i" by (auto simp: between_def)
  then show ?case using REps by auto
next
  case (RSet neg cs)
  show ?case
  proof
    assume "(i, j) \<in> spans s (RSet neg cs)"
    then show "i \<le> j \<and> j \<le> length s \<and> between s i j \<in> lang (RSet neg cs)"
      by (auto simp: between_def take_Suc_conv_app_nth hd_drop_conv_nth take_Suc)
  next
    assume a: "i \<le> j \<and> j \<le> length s \<and> between s i j \<in> lang (RSet neg cs)"
    then obtain c where c: "between s i j = [c]" "in_class neg cs c" by auto
    have "length (between s i j) = j - i" using a by (simp add: length_between)
    then have j: "j = Suc i" using c a by simp
    then have "i < length s" using a by simp
    then have "c = s ! i" using c(1) j by (simp add: between_def take_Suc hd_drop_conv_nth)
    then show "(i, j) \<in> spans s (RSet neg cs)" using c j \<open>i < length s\<close> by simp
  qed
next
  case (RSeq r t)
  show ?case
  proof
    assume "(i, j) \<in> spans s (RSeq r t)"
    then obtain k where k: "(i, k) \<in> spans s r" "(k, j) \<in> spans s t" by auto
    have r: "i \<le> k" "k \<le> length s" "between s i k \<in> lang r" using RSeq.IH(1) RSeq.prems k(1) by auto
    then have t: "k \<le> j" "j \<le> length s" "between s k j \<in> lang t" using RSeq.IH(2) RSeq.prems k(2) by auto
    show "i \<le> j \<and> j \<le> length s \<and> between s i j \<in> lang (RSeq r t)" using r t between_append [of i k j s] by auto
  next
    assume a: "i \<le> j \<and> j \<le> length s \<and> between s i j \<in> lang (RSeq r t)"
    then obtain u w where u: "between s i j = u @ w" "u \<in> lang r" "w \<in> lang t" by auto
    have "(i, i + length u) \<in> spans s r" "(i + length u, j) \<in> spans s t"
      using RSeq between_parts [OF u(1)] a u(2,3) by auto
    then show "(i, j) \<in> spans s (RSeq r t)" by auto
  qed
next
  case (RStar r)
  have step: "(i, j) \<in> (spans s r)\<^sup>*" if "i \<le> j" "j \<le> length s" "between s i j = concat ws" "set ws \<subseteq> lang r" for ws i j
    using that
  proof (induction ws arbitrary: i)
    case Nil
    then have "i = j" by (auto simp: between_def)
    then show ?case by simp
  next
    case (Cons u ws)
    have p: "between s i j = u @ concat ws" using Cons.prems(3) by simp
    note q = between_parts [OF p Cons.prems(1,2)]
    have "(i, i + length u) \<in> spans s r" using RStar q(1,3) Cons.prems by auto
    moreover have "(i + length u, j) \<in> (spans s r)\<^sup>*" using Cons q by auto
    ultimately show ?case by (rule converse_rtrancl_into_rtrancl)
  qed
  show ?case
  proof
    assume "(i, j) \<in> spans s (RStar r)"
    then have "(i, j) \<in> (spans s r)\<^sup>*" by simp
    then show "i \<le> j \<and> j \<le> length s \<and> between s i j \<in> lang (RStar r)"
    proof induction
      case base
      have "between s i i = concat [] \<and> set [] \<subseteq> lang r" by (simp add: between_def)
      then show ?case using RStar.prems by (simp only: lang.simps) blast
    next
      case (step j k)
      then obtain ws where ws: "between s i j = concat ws" "set ws \<subseteq> lang r" by auto
      have "j \<le> k" "k \<le> length s" "between s j k \<in> lang r" using RStar.IH RStar.prems step by auto
      then have "between s i k = concat (ws @ [between s j k])" "set (ws @ [between s j k]) \<subseteq> lang r"
        using between_append [of i j k s] ws step.IH by auto
      then have "between s i k \<in> lang (RStar r)" by (simp only: lang.simps) blast
      then show ?case using step.IH \<open>j \<le> k\<close> \<open>k \<le> length s\<close> order_trans by blast
    qed
  qed (use step in auto)
qed auto

text \<open>Anchors at the edges of a pattern say nothing when the whole text is matched.\<close>

fun trim_end :: "rexp \<Rightarrow> rexp" where
  "trim_end REnd = REps"
| "trim_end (RSeq r t) = RSeq r (trim_end t)"
| "trim_end r = r"

fun trim_edges :: "rexp \<Rightarrow> rexp" where
  "trim_edges (RSeq RBegin r) = trim_end r"
| "trim_edges r = trim_end r"

lemma spans_trim_end: "(i, length s) \<in> spans s (trim_end r) \<longleftrightarrow> (i, length s) \<in> spans s r"
  by (induction r arbitrary: i rule: trim_end.induct) auto

lemma regex_match_lang: "anchor_free (trim_edges r) \<Longrightarrow> regex_match r s \<longleftrightarrow> s \<in> lang (trim_edges r)"
proof -
  have "regex_match r s \<longleftrightarrow> (0, length s) \<in> spans s (trim_edges r)"
  proof (cases "\<exists>t. r = RSeq RBegin t")
    case True
    then obtain t where "r = RSeq RBegin t" by blast
    moreover have "(0, j) \<in> spans s (RSeq RBegin t) \<longleftrightarrow> (0, j) \<in> spans s t" for j by auto
    ultimately show ?thesis by (simp only: trim_edges.simps regex_match_spans spans_trim_end)
  next
    case False
    then have "trim_edges r = trim_end r" by (cases r rule: trim_edges.cases) auto
    then show ?thesis by (simp only: regex_match_spans spans_trim_end)
  qed
  moreover assume "anchor_free (trim_edges r)"
  ultimately show ?thesis using spans_lang [of "trim_edges r" 0 s "length s"] by (simp add: between_def)
qed

lemma lang_set_seq [simp]:
  "w \<in> lang (RSeq (RSet neg cs) r) \<longleftrightarrow> (\<exists>c v. w = c # v \<and> in_class neg cs c \<and> v \<in> lang r)"
proof
  assume "\<exists>c v. w = c # v \<and> in_class neg cs c \<and> v \<in> lang r"
  then obtain c v where "w = [c] @ v" "in_class neg cs c" "v \<in> lang r" by auto
  then show "w \<in> lang (RSeq (RSet neg cs) r)" by (simp only: lang.simps) blast
qed auto

lemma lang_star_set: "w \<in> lang (RStar (RSet neg cs)) \<longleftrightarrow> list_all (in_class neg cs) w"
proof
  assume "w \<in> lang (RStar (RSet neg cs))"
  then obtain ws where "w = concat ws" "set ws \<subseteq> {[c] | c. in_class neg cs c}" by auto
  then show "list_all (in_class neg cs) w" by (auto simp: list_all_iff)
next
  assume "list_all (in_class neg cs) w"
  then have "w = concat (map (\<lambda>c. [c]) w) \<and> set (map (\<lambda>c. [c]) w) \<subseteq> lang (RSet neg cs)" by (auto simp: list_all_iff)
  then show "w \<in> lang (RStar (RSet neg cs))" by (simp only: lang.simps) blast
qed

end
