(* ===== verification/String_Format.thy ===== *)
theory String_Format
  imports Regex Json_Lexer
begin

section \<open>The formats of strings: lib/string-format-check.cpp\<close>

text \<open>
  \<open>default_string_format_check\<close> throws unless a text has the format that is named; here it answers
  whether it returns. The patterns are those of the source, word for word. The groups a check looks
  at have fixed places in a text that matches. \<open>std::stoi\<close> is applied to two or four digits.
\<close>

definition matches :: "string \<Rightarrow> string \<Rightarrow> bool" where
  "matches pattern s = (case regex pattern of None \<Rightarrow> False | Some r \<Rightarrow> regex_match r s)"

definition range_check :: "int \<Rightarrow> int \<Rightarrow> int \<Rightarrow> bool" where
  "range_check v lo hi \<longleftrightarrow> v \<ge> lo \<and> v \<le> hi"

text \<open>\<open>std::stoi\<close> on digits behind an optional sign.\<close>

definition stoi :: "string \<Rightarrow> int" where
  "stoi s =
     (case s of
        c # ds \<Rightarrow> if c = CHR ''-'' then - int (digits_value ds) else if c = CHR ''+'' then int (digits_value ds)
                    else int (digits_value s)
      | [] \<Rightarrow> 0)"

subsection \<open>Dates and times\<close>

definition date_regex :: string where
  "date_regex = pat ''^([0-9]{4})`-([0-9]{2})`-([0-9]{2})$''"

definition rfc3339_date_check :: "string \<Rightarrow> bool" where
  "rfc3339_date_check s \<longleftrightarrow>
     matches date_regex s \<and>
     (let year = stoi (take 4 s); month = stoi (take 2 (drop 5 s)); mday = stoi (drop 8 s);
          isLeapYear = (year mod 4 = 0 \<and> (year mod 100 \<noteq> 0 \<or> year mod 400 = 0))
      in range_check month 1 12 \<and>
         (if month = 2 then range_check mday 1 (if isLeapYear then 29 else 28)
          else if month \<le> 7 then range_check mday 1 (if month mod 2 = 0 then 30 else 31)
          else range_check mday 1 (if month mod 2 = 0 then 31 else 30)))"

definition time_regex :: string where
  "time_regex = pat ''^([0-9]{2})`:([0-9]{2})`:([0-9]{2})(`.[0-9]+)?(?:[Zz]|((?:`+|`-)[0-9]{2})`:([0-9]{2}))$''"

text \<open>The group of the offset's hours is empty when the text ends with a letter; else the offset has six characters.\<close>

definition offset_parts :: "string \<Rightarrow> string \<times> string" where
  "offset_parts s =
     (if last s \<in> set ''Zz'' then ([], [])
      else (take 3 (drop (length s - 6) s), drop (length s - 2) s))"

definition rfc3339_time_check :: "string \<Rightarrow> bool" where
  "rfc3339_time_check s \<longleftrightarrow>
     matches time_regex s \<and>
     (let hour = stoi (take 2 s); minute = stoi (take 2 (drop 3 s)); second = stoi (take 2 (drop 6 s))
      in range_check hour 0 23 \<and> range_check minute 0 59 \<and>
      (case offset_parts s of (group5, group6) \<Rightarrow>
        let offsetHour = (if group5 \<noteq> [] then stoi group5 else 0);
            offsetMinute0 = (if group5 \<noteq> [] then stoi group6 else 0);
            offsetMinute = (if offsetHour < 0 then offsetMinute0 * - 1 else offsetMinute0);
            day_minutes0 = hour * 60 + minute - (offsetHour * 60 + offsetMinute);
            day_minutes = (if day_minutes0 < 0 then day_minutes0 + 60 * 24 else day_minutes0);
            hour = day_minutes mod 24; minute = day_minutes div 24
        in (group5 \<noteq> [] \<longrightarrow> range_check offsetHour (- 23) 23 \<and> range_check offsetMinute0 0 59) \<and>
           (if hour = 23 \<and> minute = 59 then range_check second 0 60 else range_check second 0 59)))"

definition date_time_regex :: string where
  "date_time_regex = pat
     ''^([0-9]{4}`-[0-9]{2}`-[0-9]{2})[Tt]([0-9]{2}`:[0-9]{2}`:[0-9]{2}(?:`.[0-9]+)?(?:[Zz]|(?:`+|`-)[0-9]{2}`:[0-9]{2}))$''"

definition rfc3339_date_time_check :: "string \<Rightarrow> bool" where
  "rfc3339_date_time_check s \<longleftrightarrow>
     matches date_time_regex s \<and> rfc3339_date_check (take 10 s) \<and> rfc3339_time_check (drop 11 s)"

subsection \<open>Addresses and identifiers\<close>

definition decOctet :: string where
  "decOctet = pat ''(?:25[0-5]|2[0-4][0-9]|1[0-9][0-9]|[1-9]?[0-9])''"

definition ipv4Address :: string where
  "ipv4Address = ''(?:'' @ decOctet @ pat ''`.){3}'' @ decOctet"

definition h16 :: string where
  "h16 = ''[0-9A-Fa-f]{1,4}''"

definition h16Left :: string where
  "h16Left = ''(?:'' @ h16 @ '':)''"

definition ipv6Address :: string where
  "ipv6Address =
     ''(?:'' @
     ''(?:'' @
     h16Left @ ''{6}'' @
     ''|::'' @ h16Left @ ''{5}'' @
     ''|(?:'' @ h16 @ '')?::'' @ h16Left @ ''{4}'' @
     ''|(?:'' @ h16Left @ ''{0,1}'' @ h16 @ '')?::'' @ h16Left @ ''{3}'' @
     ''|(?:'' @ h16Left @ ''{0,2}'' @ h16 @ '')?::'' @ h16Left @ ''{2}'' @
     ''|(?:'' @ h16Left @ ''{0,3}'' @ h16 @ '')?::'' @ h16Left @
     ''|(?:'' @ h16Left @ ''{0,4}'' @ h16 @ '')?::'' @
     '')(?:'' @ h16Left @ h16 @ ''|'' @ ipv4Address @ '')'' @
     ''|(?:'' @ h16Left @ ''{0,5}'' @ h16 @ '')?::'' @ h16 @
     ''|(?:'' @ h16Left @ ''{0,6}'' @ h16 @ '')?::'' @
     '')''"

definition uuid :: string where
  "uuid = pat ''[0-9a-fA-F]{8}`-[0-9a-fA-F]{4}`-[0-9a-fA-F]{4}`-[0-9a-fA-F]{4}`-[0-9a-fA-F]{12}''"

definition hostname :: string where
  "hostname = pat ''^([a-zA-Z0-9]|[a-zA-Z0-9][a-zA-Z0-9`-]{0,61}[a-zA-Z0-9])(`.([a-zA-Z0-9]|[a-zA-Z0-9][a-zA-Z0-9`-]{0,61}[a-zA-Z0-9]))*$''"

text \<open>The patterns of an URI of RFC 3986.\<close>

definition uri_scheme :: string where
  "uri_scheme = pat
    (''([A-Za-z][A-Za-z0-9+`-.]*):'')"

definition uri_hierPart :: string where
  "uri_hierPart = pat
    (''(?:(`/`/)(?:((?:[A-Za-z0-9`-._~!$&'()*+,;=:]|'' @
     ''%[0-9A-Fa-f]{2})*)@)?((?:`[(?:(?:(?:(?:[0-9A-Fa-f]{1,4}:){6}|'' @
     ''::(?:[0-9A-Fa-f]{1,4}:){5}|'' @
     ''(?:[0-9A-Fa-f]{1,4})?::(?:[0-9A-Fa-f]{1,4}:){4}|'' @
     ''(?:(?:[0-9A-Fa-f]{1,4}:){0,1}[0-9A-Fa-f]{1,4})?::(?:[0-9A-Fa-f]{1,4}:){3}|'' @
     ''(?:(?:[0-9A-Fa-f]{1,4}:){0,2}[0-9A-Fa-f]{1,4})?::(?:[0-9A-Fa-f]{1,4}:){2}|'' @
     ''(?:(?:[0-9A-Fa-f]{1,4}:){0,3}[0-9A-Fa-f]{1,4})?::[0-9A-Fa-f]{1,4}:|'' @
     ''(?:(?:[0-9A-Fa-f]{1,4}:){0,4}[0-9A-Fa-f]{1,4})?::)(?:[0-9A-Fa-f]{1,4}:[0-9A-Fa-f]{1,4}|'' @
     ''(?:(?:25[0-5]|2[0-4][0-9]|'' @
     ''[01]?[0-9][0-9]?)`.){3}(?:25[0-5]|'' @
     ''2[0-4][0-9]|'' @
     ''[01]?[0-9][0-9]?))|'' @
     ''(?:(?:[0-9A-Fa-f]{1,4}:){0,5}[0-9A-Fa-f]{1,4})?::[0-9A-Fa-f]{1,4}|'' @
     ''(?:(?:[0-9A-Fa-f]{1,4}:){0,6}[0-9A-Fa-f]{1,4})?::)|'' @
     ''[Vv][0-9A-Fa-f]+`.[A-Za-z0-9`-._~!$&'()*+,;=:]+)`]|'' @
     ''(?:(?:25[0-5]|'' @
     ''2[0-4][0-9]|'' @
     ''[01]?[0-9][0-9]?)`.){3}(?:25[0-5]|'' @
     ''2[0-4][0-9]|'' @
     ''[01]?[0-9][0-9]?)|'' @
     ''(?:[A-Za-z0-9`-._~!$&'()*+,;=]|'' @
     ''%[0-9A-Fa-f]{2})*))(?::([0-9]*))?((?:`/(?:[A-Za-z0-9`-._~!$&'()*+,;=:@]|'' @
     ''%[0-9A-Fa-f]{2})*)*)|'' @
     ''`/((?:(?:[A-Za-z0-9`-._~!$&'()*+,;=:@]|'' @
     ''%[0-9A-Fa-f]{2})+(?:`/(?:[A-Za-z0-9`-._~!$&'()*+,;=:@]|'' @
     ''%[0-9A-Fa-f]{2})*)*)?)|'' @
     ''((?:[A-Za-z0-9`-._~!$&'()*+,;=:@]|'' @
     ''%[0-9A-Fa-f]{2})+(?:`/(?:[A-Za-z0-9`-._~!$&'()*+,;=:@]|'' @
     ''%[0-9A-Fa-f]{2})*)*)|)'')"

definition uri_query :: string where
  "uri_query = pat
    (''(?:`?((?:[A-Za-z0-9`-._~!$&'()*+,;=:@`/?]|%[0-9A-Fa-f]{2})*))?'')"

definition uri_fragment :: string where
  "uri_fragment = pat
    (''(?:`#((?:[A-Za-z0-9`-._~!$&'()*+,;=:@`/?]|%[0-9A-Fa-f]{2})*))?'')"

definition rfc3986_uri_check :: "string \<Rightarrow> bool" where
  "rfc3986_uri_check s \<longleftrightarrow> matches (uri_scheme @ uri_hierPart @ uri_query @ uri_fragment) s"

definition is_ascii :: "string \<Rightarrow> bool" where
  "is_ascii s \<longleftrightarrow> list_all (\<lambda>ch. (of_char ch AND (0x80 :: 8 word)) = 0) s"

subsection \<open>The format that is named\<close>

text \<open>
  \<open>email\<close> and \<open>idn-email\<close>, which call the generated scanner \<open>is_address\<close>, are outside the model: then the
  answer is \<open>None\<close>. A name that is not known throws. For \<open>regex\<close>, lookahead, back references and word
  boundaries count as not readable, as theory Regex leaves them out.
\<close>

definition default_string_format_check :: "string \<Rightarrow> string \<Rightarrow> bool option" where
  "default_string_format_check format s =
     (if format = ''date-time'' then Some (rfc3339_date_time_check s)
      else if format = ''date'' then Some (rfc3339_date_check s)
      else if format = ''time'' then Some (rfc3339_time_check s)
      else if format = ''uri'' then Some (rfc3986_uri_check s)
      else if format = ''email'' then (if \<not> is_ascii s then Some False else None)
      else if format = ''idn-email'' then None
      else if format = ''hostname'' then Some (matches hostname s)
      else if format = ''ipv4'' then Some (matches (''^'' @ ipv4Address @ ''$'') s)
      else if format = ''ipv6'' then Some (matches ipv6Address s)
      else if format = ''uuid'' then Some (matches uuid s)
      else if format = ''regex'' then Some (regex s \<noteq> None)
      else Some False)"

subsection \<open>What the checks accept\<close>

abbreviation digit_set :: rexp where
  "digit_set \<equiv> RSet False [(CHR ''0'', CHR ''9'')]"

abbreviation char_set :: "char \<Rightarrow> rexp" where
  "char_set c \<equiv> RSet False [(c, c)]"

abbreviation digit_sets :: "nat \<Rightarrow> rexp" where
  "digit_sets n \<equiv> seq_of (replicate n digit_set)"

definition digits :: "nat \<Rightarrow> string \<Rightarrow> bool" where
  "digits n w \<longleftrightarrow> length w = n \<and> list_all is_digit w"

lemma in_class_digit: "in_class False [(CHR ''0'', CHR ''9'')] = is_digit"
  by (rule ext) (simp add: in_class_def is_digit_def)

lemma in_class_char: "in_class False [(c, c)] d \<longleftrightarrow> d = c"
proof -
  have "of_char d = (of_char c :: nat) \<longleftrightarrow> d = c" by simp
  then show ?thesis by (auto simp: in_class_def)
qed

lemma matches_lang:
  assumes "regex p = Some r" and "anchor_free (trim_edges r)"
  shows "matches p s \<longleftrightarrow> s \<in> lang (trim_edges r)"
  using regex_match_lang [OF assms(2)] by (simp add: matches_def assms(1))

lemma lang_digits: "w \<in> lang (digit_sets n) \<longleftrightarrow> digits n w"
proof (induction n arbitrary: w)
  case (Suc n)
  show ?case
  proof (cases n)
    case 0
    then show ?thesis by (auto simp: digits_def in_class_digit length_Suc_conv)
  next
    case (Suc m)
    then have "digit_sets (Suc n) = RSeq digit_set (digit_sets n)" by simp
    then show ?thesis
      by (cases w) (auto simp: Suc.IH in_class_digit digits_def simp del: seq_of.simps replicate.simps lang.simps)
  qed
qed (auto simp: digits_def)

lemma anchor_free_digits: "anchor_free (digit_sets n)"
  by (induction n rule: induct_nat_012) simp_all

lemma lang_digits_seq: "w \<in> lang (RSeq (digit_sets n) r) \<longleftrightarrow> (\<exists>u v. w = u @ v \<and> digits n u \<and> v \<in> lang r)"
  by (auto simp: lang_digits)

lemma lang_char_seq: "w \<in> lang (RSeq (char_set c) r) \<longleftrightarrow> (\<exists>v. w = c # v \<and> v \<in> lang r)"
  by (auto simp: in_class_char simp del: lang.simps)

lemma lang_seq: "w \<in> lang (RSeq r t) \<longleftrightarrow> (\<exists>u v. w = u @ v \<and> u \<in> lang r \<and> v \<in> lang t)"
  by auto

lemma lang_seq_eps: "w \<in> lang (RSeq r REps) \<longleftrightarrow> w \<in> lang r"
  by simp

lemma lang_alt: "w \<in> lang (RAlt r t) \<longleftrightarrow> w \<in> lang r \<or> w \<in> lang t"
  by simp

lemma lang_char: "w \<in> lang (char_set c) \<longleftrightarrow> w = [c]"
  by (auto simp: in_class_char)

lemma lang_eps: "w \<in> lang REps \<longleftrightarrow> w = []"
  by simp

lemmas lang_parts = lang_digits_seq lang_char_seq lang_eps

lemma date_words:
  "matches date_regex s \<longleftrightarrow> (\<exists>y m d. s = y @ CHR ''-'' # m @ CHR ''-'' # d \<and> digits 4 y \<and> digits 2 m \<and> digits 2 d)"
proof -
  let ?r = "\<lambda>e. RSeq (digit_sets 4) (RSeq (char_set (CHR ''-'')) (RSeq (digit_sets 2) (RSeq (char_set (CHR ''-'')) (RSeq (digit_sets 2) e))))"
  have "regex date_regex = Some (RSeq RBegin (?r REnd))" by code_simp
  moreover have "trim_edges (RSeq RBegin (?r REnd)) = ?r REps" by (simp only: trim_edges.simps trim_end.simps)
  ultimately have "matches date_regex s \<longleftrightarrow> s \<in> lang (?r REps)"
    using matches_lang anchor_free_digits by simp
  also have "\<dots> \<longleftrightarrow> (\<exists>y m d. s = y @ CHR ''-'' # m @ CHR ''-'' # d \<and> digits 4 y \<and> digits 2 m \<and> digits 2 d)"
    unfolding lang_parts by blast
  finally show ?thesis .
qed

text \<open>The digits of a number, with zeros in front up to a given width.\<close>

primrec padded :: "nat \<Rightarrow> nat \<Rightarrow> string" where
  "padded 0 n = []"
| "padded (Suc k) n = padded k (n div 10) @ [digit (n mod 10)]"

lemma digit_value: "is_digit c \<Longrightarrow> digit (byte c - 0x30) = c"
  by (simp add: is_digit_def digit_def)

lemma padded_value: "digits k w \<Longrightarrow> padded k (digits_value w) = w \<and> digits_value w < 10 ^ k"
proof (induction k arbitrary: w)
  case (Suc k)
  then obtain v c where w: "w = v @ [c]" by (cases w rule: rev_cases) (auto simp: digits_def)
  then have v: "digits k v" "is_digit c" using Suc.prems by (simp_all add: digits_def)
  then have "byte c - 0x30 < 10" by (auto simp: is_digit_def)
  moreover have "digits_value w = 10 * digits_value v + (byte c - 0x30)" by (simp add: w digits_value_def)
  moreover have "padded k (digits_value v) = v \<and> digits_value v < 10 ^ k" by (rule Suc.IH [OF v(1)])
  ultimately show ?case by (simp add: w digit_value [OF v(2)])
qed (simp add: digits_def digits_value_def)

lemma padded_digits: "digits k (padded k n)"
proof (induction k arbitrary: n)
  case (Suc k)
  have "n mod 10 < 10" by simp
  then have "is_digit (digit (n mod 10))" by (simp add: is_digit_def digit_def)
  then show ?case using Suc.IH [of "n div 10"] by (simp add: digits_def)
qed (simp add: digits_def)

lemma value_padded: "n < 10 ^ k \<Longrightarrow> digits_value (padded k n) = n"
proof (induction k arbitrary: n)
  case (Suc k)
  then have "digits_value (padded k (n div 10)) = n div 10" by (intro Suc.IH) (simp add: div_less_iff_less_mult mult.commute)
  moreover have "byte (digit (n mod 10)) = 0x30 + n mod 10" by (simp add: digit_def)
  ultimately show ?case by (simp add: digits_value_def)
qed (simp add: digits_value_def)

lemma stoi_digits: "digits (Suc k) w \<Longrightarrow> stoi w = int (digits_value w)"
  by (cases w) (auto simp: stoi_def digits_def is_digit_def)

text \<open>The days of a month of the Gregorian calendar.\<close>

definition leap_year :: "nat \<Rightarrow> bool" where
  "leap_year y \<longleftrightarrow> 4 dvd y \<and> (100 dvd y \<longrightarrow> 400 dvd y)"

definition month_days :: "nat \<Rightarrow> nat \<Rightarrow> nat" where
  "month_days y m = (if m = 2 then (if leap_year y then 29 else 28) else if m \<in> {4, 6, 9, 11} then 30 else 31)"

lemma month_lengths:
  assumes "1 \<le> m" and "m \<le> 12"
  shows "int (month_days y m) =
     (if int m = 2 then (if int y mod 4 = 0 \<and> (int y mod 100 \<noteq> 0 \<or> int y mod 400 = 0) then 29 else 28)
      else if int m \<le> 7 then (if int m mod 2 = 0 then 30 else 31) else (if int m mod 2 = 0 then 31 else 30))"
proof -
  have "int y mod int k = 0 \<longleftrightarrow> k dvd y" for k by (simp add: dvd_eq_mod_eq_0 flip: of_nat_mod)
  from this [of 4] this [of 100] this [of 400]
  have leap: "int y mod 4 = 0 \<and> (int y mod 100 \<noteq> 0 \<or> int y mod 400 = 0) \<longleftrightarrow> leap_year y"
    by (auto simp: leap_year_def)
  have "m \<in> {1, 2, 3, 4, 5, 6, 7, 8, 9, 10, 11, 12}"
    using assms unfolding insert_iff empty_iff by presburger
  then show ?thesis unfolding leap by (auto simp: month_days_def)
qed

lemma date_check_parts:
  assumes "digits 4 y" and "digits 2 m" and "digits 2 d"
  shows "rfc3339_date_check (y @ CHR ''-'' # m @ CHR ''-'' # d) \<longleftrightarrow>
     1 \<le> digits_value m \<and> digits_value m \<le> 12 \<and> 1 \<le> digits_value d \<and> digits_value d \<le> month_days (digits_value y) (digits_value m)"
proof -
  let ?s = "y @ CHR ''-'' # m @ CHR ''-'' # d"
  have "matches date_regex ?s" using assms date_words by blast
  moreover have "length y = 4" "length m = 2" using assms by (simp_all add: digits_def)
  then have parts: "take 4 ?s = y" "take 2 (drop 5 ?s) = m" "drop 8 ?s = d" by simp_all
  moreover have "stoi y = int (digits_value y)" "stoi m = int (digits_value m)" "stoi d = int (digits_value d)"
    using assms stoi_digits [of 3 y] stoi_digits [of 1 m] stoi_digits [of 1 d] by (simp_all add: numeral_eq_Suc)
  ultimately have "rfc3339_date_check ?s \<longleftrightarrow> 1 \<le> digits_value m \<and> digits_value m \<le> 12 \<and>
      1 \<le> digits_value d \<and> int (digits_value d) \<le> int (month_days (digits_value y) (digits_value m))"
    using month_lengths [of "digits_value m" "digits_value y"]
    by (auto simp: rfc3339_date_check_def range_check_def Let_def)
  then show ?thesis by simp
qed

text \<open>A text has the format \<open>date\<close> exactly when it is a day of the Gregorian calendar, with four digits for
  the year and two each for the month and the day.\<close>

theorem date_check_accepts:
  "rfc3339_date_check s \<longleftrightarrow> (\<exists>y m d. s = padded 4 y @ ''-'' @ padded 2 m @ ''-'' @ padded 2 d \<and> y < 10 ^ 4 \<and>
     1 \<le> m \<and> m \<le> 12 \<and> 1 \<le> d \<and> d \<le> month_days y m)"
proof
  assume c: "rfc3339_date_check s"
  then obtain y m d where s: "s = y @ CHR ''-'' # m @ CHR ''-'' # d" "digits 4 y" "digits 2 m" "digits 2 d"
    unfolding rfc3339_date_check_def date_words by blast
  note p = padded_value [OF s(2)] padded_value [OF s(3)] padded_value [OF s(4)]
  show "\<exists>y m d. s = padded 4 y @ ''-'' @ padded 2 m @ ''-'' @ padded 2 d \<and> y < 10 ^ 4 \<and>
     1 \<le> m \<and> m \<le> 12 \<and> 1 \<le> d \<and> d \<le> month_days y m"
    using c p s(1) date_check_parts [OF s(2-4)]
    by (intro exI [of _ "digits_value y"] exI [of _ "digits_value m"] exI [of _ "digits_value d"]) simp
next
  assume "\<exists>y m d. s = padded 4 y @ ''-'' @ padded 2 m @ ''-'' @ padded 2 d \<and> y < 10 ^ 4 \<and>
     1 \<le> m \<and> m \<le> 12 \<and> 1 \<le> d \<and> d \<le> month_days y m"
  then obtain y m d where s: "s = padded 4 y @ CHR ''-'' # padded 2 m @ CHR ''-'' # padded 2 d" and
    b: "y < 10 ^ 4" "1 \<le> m" "m \<le> 12" "1 \<le> d" "d \<le> month_days y m" by auto
  have "m < 10 ^ 2" "d < 10 ^ 2" using b by (auto simp: month_days_def split: if_splits)
  then have "digits_value (padded 4 y) = y" "digits_value (padded 2 m) = m" "digits_value (padded 2 d) = d"
    using b(1) value_padded by blast+
  then show "rfc3339_date_check s" using b unfolding s by (subst date_check_parts) (simp_all add: padded_digits)
qed

definition fraction :: "string \<Rightarrow> bool" where
  "fraction w \<longleftrightarrow> w = [] \<or> (\<exists>f. w = CHR ''.'' # f \<and> f \<noteq> [] \<and> list_all is_digit f)"

definition zone_words :: "string \<Rightarrow> bool" where
  "zone_words z \<longleftrightarrow> z = ''Z'' \<or> z = ''z'' \<or>
     (\<exists>sg oh om. z = sg # oh @ CHR '':'' # om \<and> (sg = CHR ''+'' \<or> sg = CHR ''-'') \<and> digits 2 oh \<and> digits 2 om)"

abbreviation fraction_set :: rexp where
  "fraction_set \<equiv> RAlt REps (RSeq (RSeq (char_set (CHR ''.'')) (RSeq digit_set (RStar digit_set))) REps)"

abbreviation zone_set :: rexp where
  "zone_set \<equiv> RAlt (RSet False [(CHR ''Z'', CHR ''Z''), (CHR ''z'', CHR ''z'')])
     (RSeq (RSeq (RAlt (char_set (CHR ''+'')) (char_set (CHR ''-''))) (digit_sets 2)) (RSeq (char_set (CHR '':'')) (digit_sets 2)))"

lemma lang_fraction: "w \<in> lang fraction_set \<longleftrightarrow> fraction w"
proof -
  have "v \<in> lang (RSeq digit_set (RStar digit_set)) \<longleftrightarrow> v \<noteq> [] \<and> list_all is_digit v" for v
    by (cases v) (auto simp: lang_star_set in_class_digit simp del: lang.simps)
  then show ?thesis unfolding lang_alt lang_seq_eps lang_char_seq lang_eps fraction_def by auto
qed

lemma lang_zone: "z \<in> lang zone_set \<longleftrightarrow> zone_words z"
proof -
  have letter: "in_class False [(CHR ''Z'', CHR ''Z''), (CHR ''z'', CHR ''z'')] c \<longleftrightarrow> c = CHR ''Z'' \<or> c = CHR ''z''" for c
    using in_class_char [of "CHR ''Z''" c] in_class_char [of "CHR ''z''" c] by (simp add: in_class_def)
  have d: "v \<in> lang (RSeq (char_set (CHR '':'')) (digit_sets 2)) \<longleftrightarrow> (\<exists>om. v = CHR '':'' # om \<and> digits 2 om)" for v
    unfolding lang_char_seq lang_digits ..
  have sg: "u \<in> lang (RSeq (RAlt (char_set (CHR ''+'')) (char_set (CHR ''-''))) (digit_sets 2)) \<longleftrightarrow>
      (\<exists>sg oh. u = sg # oh \<and> (sg = CHR ''+'' \<or> sg = CHR ''-'') \<and> digits 2 oh)" for u
  proof -
    have "u \<in> lang (RSeq (RAlt (char_set (CHR ''+'')) (char_set (CHR ''-''))) (digit_sets 2)) \<longleftrightarrow>
      (\<exists>p oh. u = p @ oh \<and> (p = ''+'' \<or> p = ''-'') \<and> digits 2 oh)"
      unfolding lang_seq lang_alt lang_char lang_digits ..
    also have "\<dots> \<longleftrightarrow> (\<exists>sg oh. u = [sg] @ oh \<and> (sg = CHR ''+'' \<or> sg = CHR ''-'') \<and> digits 2 oh)" by blast
    finally show ?thesis by simp
  qed
  have "z \<in> lang zone_set \<longleftrightarrow> z \<in> lang (RSet False [(CHR ''Z'', CHR ''Z''), (CHR ''z'', CHR ''z'')]) \<or>
      (\<exists>u v. z = u @ v \<and> u \<in> lang (RSeq (RAlt (char_set (CHR ''+'')) (char_set (CHR ''-''))) (digit_sets 2)) \<and>
        v \<in> lang (RSeq (char_set (CHR '':'')) (digit_sets 2)))"
    unfolding lang_alt lang_seq [of z] ..
  also have "z \<in> lang (RSet False [(CHR ''Z'', CHR ''Z''), (CHR ''z'', CHR ''z'')]) \<longleftrightarrow> z = ''Z'' \<or> z = ''z''"
    by (auto simp: letter)
  also have "(\<exists>u v. z = u @ v \<and> u \<in> lang (RSeq (RAlt (char_set (CHR ''+'')) (char_set (CHR ''-''))) (digit_sets 2)) \<and>
        v \<in> lang (RSeq (char_set (CHR '':'')) (digit_sets 2))) \<longleftrightarrow>
      (\<exists>sg oh om. z = (sg # oh) @ CHR '':'' # om \<and> (sg = CHR ''+'' \<or> sg = CHR ''-'') \<and> digits 2 oh \<and> digits 2 om)"
    unfolding sg d by blast
  finally show ?thesis unfolding zone_words_def append_Cons disj_assoc .
qed

lemma time_words:
  "matches time_regex s \<longleftrightarrow> (\<exists>h m sec f z. s = h @ CHR '':'' # m @ CHR '':'' # sec @ f @ z \<and>
     digits 2 h \<and> digits 2 m \<and> digits 2 sec \<and> fraction f \<and> zone_words z)"
proof -
  let ?r = "\<lambda>e. RSeq (digit_sets 2) (RSeq (char_set (CHR '':'')) (RSeq (digit_sets 2) (RSeq (char_set (CHR '':''))
      (RSeq (digit_sets 2) (RSeq fraction_set (RSeq zone_set e))))))"
  have "regex time_regex = Some (RSeq RBegin (?r REnd))" by code_simp
  moreover have "trim_edges (RSeq RBegin (?r REnd)) = ?r REps" by (simp only: trim_edges.simps trim_end.simps)
  ultimately have "matches time_regex s \<longleftrightarrow> s \<in> lang (?r REps)"
    using matches_lang anchor_free_digits by simp
  also have "\<dots> \<longleftrightarrow> (\<exists>h v. s = h @ v \<and> digits 2 h \<and> (\<exists>v1. v = CHR '':'' # v1 \<and> (\<exists>m v2. v1 = m @ v2 \<and> digits 2 m \<and>
      (\<exists>v3. v2 = CHR '':'' # v3 \<and> (\<exists>sec v4. v3 = sec @ v4 \<and> digits 2 sec \<and> (\<exists>f z. v4 = f @ z \<and> fraction f \<and> zone_words z))))))"
  proof -
    have rest: "v \<in> lang (RSeq fraction_set (RSeq zone_set REps)) \<longleftrightarrow> (\<exists>f z. v = f @ z \<and> fraction f \<and> zone_words z)" for v
      unfolding lang_seq [of v] lang_seq_eps lang_fraction lang_zone ..
    show ?thesis unfolding lang_parts(1,2) rest ..
  qed
  also have "\<dots> \<longleftrightarrow> (\<exists>h m sec f z. s = h @ CHR '':'' # m @ CHR '':'' # sec @ f @ z \<and>
     digits 2 h \<and> digits 2 m \<and> digits 2 sec \<and> fraction f \<and> zone_words z)"
  proof (intro iffI; elim exE conjE)
    fix h v v1 m v2 v3 sec v4 f z
    assume "s = h @ v" "v = CHR '':'' # v1" "v1 = m @ v2" "v2 = CHR '':'' # v3" "v3 = sec @ v4" "v4 = f @ z"
      and p: "digits 2 h" "digits 2 m" "digits 2 sec" "fraction f" "zone_words z"
    then have "s = h @ CHR '':'' # m @ CHR '':'' # sec @ f @ z" by simp
    then show "\<exists>h m sec f z. s = h @ CHR '':'' # m @ CHR '':'' # sec @ f @ z \<and>
        digits 2 h \<and> digits 2 m \<and> digits 2 sec \<and> fraction f \<and> zone_words z" using p by blast
  qed (intro exI conjI; (assumption | rule refl))
  finally show ?thesis .
qed

text \<open>The offset from UTC in minutes, as the check reads it: the sign of an offset of no hours is lost.\<close>

definition zone_offset :: "string \<Rightarrow> int" where
  "zone_offset z =
     (if z = ''Z'' \<or> z = ''z'' then 0
      else let oh = digits_value (take 2 (tl z)); om = digits_value (drop 4 z); n = 60 * int oh + int om
           in if hd z = CHR ''-'' \<and> oh \<noteq> 0 then - n else n)"

definition zone :: "string \<Rightarrow> bool" where
  "zone z \<longleftrightarrow> z = ''Z'' \<or> z = ''z'' \<or>
     (\<exists>sg oh om. z = sg # padded 2 oh @ CHR '':'' # padded 2 om \<and> (sg = CHR ''+'' \<or> sg = CHR ''-'') \<and> oh < 24 \<and> om < 60)"

text \<open>Dividing by 24 where 60 is meant does no harm: 1439 is the only number of minutes for which both give 23 and 59.\<close>

lemma leap_minute:
  assumes "0 \<le> d" and "d < 2880"
  shows "d mod 24 = 23 \<and> d div 24 = 59 \<longleftrightarrow> (d :: int) = 1439"
proof
  assume "d mod 24 = 23 \<and> d div 24 = 59"
  then show "d = 1439" using div_mult_mod_eq [of d 24] by simp
qed simp

lemma utc_minute:
  assumes "- 1440 < (d :: int)" and "d < 2879"
  shows "(if d < 0 then d + 60 * 24 else d) mod 24 = 23 \<and> (if d < 0 then d + 60 * 24 else d) div 24 = 59 \<longleftrightarrow> d mod 1440 = 1439"
proof (cases "d < 0")
  case True
  have "(d + 1440) mod 1440 = d + 1440" using True assms(1) by (intro mod_pos_pos_trivial) auto
  then have "d mod 1440 = d + 1440" by simp
  then show ?thesis using True leap_minute [of "d + 1440"] assms(1) by simp
next
  case False
  have "d mod 1440 = 1439 \<longleftrightarrow> d = 1439"
  proof (cases "d < 1440")
    case True
    then have "d mod 1440 = d" using False by (intro mod_pos_pos_trivial) auto
    then show ?thesis by simp
  next
    case 1440: False
    then have "(d - 1440) mod 1440 = d - 1440" using assms(2) by (intro mod_pos_pos_trivial) auto
    then have "d mod 1440 = d - 1440" by simp
    then show ?thesis using assms(2) 1440 by simp
  qed
  then show ?thesis using False leap_minute [of d] assms by simp
qed

lemma offset_parts_letter: "z = ''Z'' \<or> z = ''z'' \<Longrightarrow> offset_parts (p @ z) = ([], [])"
  by (auto simp: offset_parts_def)

lemma digits_two: "digits 2 w \<longleftrightarrow> (\<exists>a b. w = [a, b] \<and> is_digit a \<and> is_digit b)"
  by (auto simp: digits_def length_Suc_conv numeral_eq_Suc)

lemma offset_parts_number:
  assumes "digits 2 oh" and "digits 2 om"
  shows "offset_parts (p @ sg # oh @ CHR '':'' # om) = (sg # oh, om)"
proof -
  obtain a b c d where w: "oh = [a, b]" "om = [c, d]" "is_digit d" using assms by (auto simp: digits_two)
  then show ?thesis by (auto simp: offset_parts_def is_digit_def)
qed

definition zone_ranges :: "string \<Rightarrow> bool" where
  "zone_ranges z \<longleftrightarrow> z = ''Z'' \<or> z = ''z'' \<or> digits_value (take 2 (tl z)) \<le> 23 \<and> digits_value (drop 4 z) \<le> 59"

lemma time_check_parts:
  assumes d: "digits 2 h" "digits 2 m" "digits 2 sec" and "fraction f" and z: "zone_words z"
  shows "rfc3339_time_check (h @ CHR '':'' # m @ CHR '':'' # sec @ f @ z) \<longleftrightarrow>
     digits_value h \<le> 23 \<and> digits_value m \<le> 59 \<and> zone_ranges z \<and>
     digits_value sec \<le> (if (60 * int (digits_value h) + int (digits_value m) - zone_offset z) mod 1440 = 1439 then 60 else 59)"
proof -
  let ?s = "h @ CHR '':'' # m @ CHR '':'' # sec @ f @ z"
  define H M S where "H = int (digits_value h)" and "M = int (digits_value m)" and "S = int (digits_value sec)"
  have words: "matches time_regex ?s" using assms time_words by blast
  have "length h = 2" "length m = 2" "length sec = 2" using d by (simp_all add: digits_def)
  then have parts: "take 2 ?s = h" "take 2 (drop 3 ?s) = m" "take 2 (drop 6 ?s) = sec" by simp_all
  have "stoi h = H" "stoi m = M" "stoi sec = S"
    using d stoi_digits [of 1] by (simp_all add: H_def M_def S_def numeral_eq_Suc)
  note st = this
  have nn: "0 \<le> H" "0 \<le> M" "0 \<le> S" by (simp_all add: H_def M_def S_def)
  define oH oM where "oH = (if fst (offset_parts ?s) \<noteq> [] then stoi (fst (offset_parts ?s)) else 0)"
    and "oM = (if fst (offset_parts ?s) \<noteq> [] then stoi (snd (offset_parts ?s)) else 0)"
  define off where "off = oH * 60 + (if oH < 0 then oM * - 1 else oM)"
  have zone: "(fst (offset_parts ?s) \<noteq> [] \<longrightarrow> range_check oH (- 23) 23 \<and> range_check oM 0 59) \<longleftrightarrow> zone_ranges z"
      and off: "off = zone_offset z" and small: "zone_ranges z \<Longrightarrow> \<bar>off\<bar> < 1440"
  proof -
    have app: "?s = (h @ CHR '':'' # m @ CHR '':'' # sec @ f) @ z" by simp
    consider (letter) "z = ''Z'' \<or> z = ''z''"
      | (number) sg oh om where "z = sg # oh @ CHR '':'' # om" "sg = CHR ''+'' \<or> sg = CHR ''-''" "digits 2 oh" "digits 2 om"
      using z by (auto simp: zone_words_def)
    then have "((fst (offset_parts ?s) \<noteq> [] \<longrightarrow> range_check oH (- 23) 23 \<and> range_check oM 0 59) \<longleftrightarrow> zone_ranges z) \<and>
        off = zone_offset z \<and> (zone_ranges z \<longrightarrow> \<bar>off\<bar> < 1440)"
    proof cases
      case letter
      then have "offset_parts ?s = ([], [])" unfolding app by (rule offset_parts_letter)
      then show ?thesis using letter by (auto simp: oH_def oM_def off_def zone_ranges_def zone_offset_def)
    next
      case number
      have o: "offset_parts ?s = (sg # oh, om)" 
        using offset_parts_number [OF number(3,4), of "h @ CHR '':'' # m @ CHR '':'' # sec @ f" sg] by (simp add: number(1))
      have "stoi (sg # oh) = (if sg = CHR ''-'' then - int (digits_value oh) else int (digits_value oh))"
        using number(2) by (auto simp: stoi_def)
      moreover have "stoi om = int (digits_value om)" using number(4) stoi_digits [of 1 om] by (simp add: numeral_eq_Suc)
      ultimately have oo: "oH = (if sg = CHR ''-'' then - int (digits_value oh) else int (digits_value oh))" "oM = int (digits_value om)"
        by (simp_all add: oH_def oM_def o)
      have l: "length oh = 2" using number(3) by (simp add: digits_def)
      then have z: "take 2 (tl z) = oh" "drop 4 z = om" "hd z = sg" "z \<noteq> ''Z''" "z \<noteq> ''z''"
        by (simp_all add: number(1))
      show ?thesis
        using oo by (auto simp: o z off_def zone_ranges_def zone_offset_def range_check_def Let_def)
    qed
    then show "(fst (offset_parts ?s) \<noteq> [] \<longrightarrow> range_check oH (- 23) 23 \<and> range_check oM 0 59) \<longleftrightarrow> zone_ranges z"
      and "off = zone_offset z" and "zone_ranges z \<Longrightarrow> \<bar>off\<bar> < 1440" by blast+
  qed
  let ?d = "H * 60 + M - off"
  let ?e = "if ?d < 0 then ?d + 60 * 24 else ?d"
  have check: "rfc3339_time_check ?s \<longleftrightarrow> H \<le> 23 \<and> M \<le> 59 \<and> zone_ranges z \<and>
      S \<le> (if ?e mod 24 = 23 \<and> ?e div 24 = 59 then 60 else 59)"
    unfolding rfc3339_time_check_def parts st Let_def split_beta oH_def [symmetric] oM_def [symmetric] off_def [symmetric] zone
    using words nn by (simp add: range_check_def)
  show ?thesis
  proof (cases "H \<le> 23 \<and> M \<le> 59 \<and> zone_ranges z")
    case True
    then have "- 1440 < ?d" "?d < 2879" using small nn by auto
    then have "?e mod 24 = 23 \<and> ?e div 24 = 59 \<longleftrightarrow> ?d mod 1440 = 1439" by (rule utc_minute)
    then show ?thesis using check True unfolding off by (auto simp: H_def M_def S_def mult.commute)
  next
    case False
    then show ?thesis using check by (auto simp: H_def M_def)
  qed
qed

lemma digits_padded: "digits k w \<longleftrightarrow> (\<exists>n < 10 ^ k. w = padded k n)"
  using padded_value padded_digits by metis

lemma zone_iff: "zone z \<longleftrightarrow> zone_words z \<and> zone_ranges z"
proof -
  have two: "take 2 (padded 2 n) = padded 2 n" "length (padded 2 n) = 2" for n
    using padded_digits [of 2 n] by (simp_all add: digits_def)
  have r: "zone_ranges (sg # padded 2 oh @ CHR '':'' # padded 2 om) \<longleftrightarrow> oh < 24 \<and> om < 60"
    if "sg = CHR ''+'' \<or> sg = CHR ''-''" "oh < 10 ^ 2" "om < 10 ^ 2" for sg oh om
    using that value_padded [OF that(2)] value_padded [OF that(3)] by (auto simp: zone_ranges_def two)
  have letters: "zone_words ''Z''" "zone_words ''z''" "zone_ranges ''Z''" "zone_ranges ''z''"
    by (simp_all add: zone_words_def zone_ranges_def)
  show ?thesis
  proof
    assume "zone z"
    then consider "z = ''Z'' \<or> z = ''z''"
      | sg oh om where "z = sg # padded 2 oh @ CHR '':'' # padded 2 om" "sg = CHR ''+'' \<or> sg = CHR ''-''" "oh < 24" "om < 60"
      unfolding zone_def by blast
    then show "zone_words z \<and> zone_ranges z"
    proof cases
      case 2
      have "zone_words z" unfolding zone_words_def 2(1) using 2(2) padded_digits by blast
      then show ?thesis using r [OF 2(2)] 2 by simp
    qed (use letters in blast)
  next
    assume a: "zone_words z \<and> zone_ranges z"
    then consider "z = ''Z'' \<or> z = ''z''"
      | sg oh om where "z = sg # padded 2 oh @ CHR '':'' # padded 2 om" "sg = CHR ''+'' \<or> sg = CHR ''-''" "oh < 10 ^ 2" "om < 10 ^ 2"
      unfolding zone_words_def digits_padded by blast
    then show "zone z"
    proof cases
      case 2
      then have "oh < 24" "om < 60" using a r [OF 2(2-4)] by simp_all
      then show ?thesis unfolding zone_def using 2(1,2) by blast
    qed (unfold zone_def, blast)
  qed
qed

text \<open>A text has the format \<open>time\<close> exactly when it is an hour below 24, a minute and a second below 60, two digits
  each, perhaps a fraction, and \<open>Z\<close> or an offset below 24 hours; the second may be 60 when the time
  is 23:59 in UTC. For the offset, \<open>-00:mm\<close> counts as \<open>+00:mm\<close>. That the check takes hours and minutes
  from the minutes of the day by dividing by 24 makes no difference.\<close>

theorem time_check_accepts:
  "rfc3339_time_check s \<longleftrightarrow> (\<exists>h m sec f z. s = padded 2 h @ '':'' @ padded 2 m @ '':'' @ padded 2 sec @ f @ z \<and>
     h < 24 \<and> m < 60 \<and> fraction f \<and> zone z \<and>
     sec \<le> (if (60 * int h + int m - zone_offset z) mod 1440 = 1439 then 60 else 59))"
  (is "_ \<longleftrightarrow> (\<exists>h m sec f z. ?ok h m sec f z)")
proof
  assume c: "rfc3339_time_check s"
  then obtain h m sec f z where s: "s = h @ CHR '':'' # m @ CHR '':'' # sec @ f @ z"
      "digits 2 h" "digits 2 m" "digits 2 sec" "fraction f" "zone_words z"
    unfolding rfc3339_time_check_def time_words by blast
  note p = padded_value [OF s(2)] padded_value [OF s(3)] padded_value [OF s(4)]
  have "?ok (digits_value h) (digits_value m) (digits_value sec) f z"
    using c [unfolded s(1) time_check_parts [OF s(2-6)]] s(5,6) p by (auto simp: zone_iff s(1))
  then show "\<exists>h m sec f z. ?ok h m sec f z" by blast
next
  assume "\<exists>h m sec f z. ?ok h m sec f z"
  then obtain h m sec f z where s: "s = padded 2 h @ CHR '':'' # padded 2 m @ CHR '':'' # padded 2 sec @ f @ z"
      and b: "h < 24" "m < 60" "fraction f" "zone z"
        "sec \<le> (if (60 * int h + int m - zone_offset z) mod 1440 = 1439 then 60 else 59)" by auto
  have "sec \<le> 60" using b(5) by (simp split: if_splits)
  then have "h < 10 ^ 2" "m < 10 ^ 2" "sec < 10 ^ 2" using b(1,2) by simp_all
  then have "digits_value (padded 2 h) = h" "digits_value (padded 2 m) = m" "digits_value (padded 2 sec) = sec"
    using value_padded by blast+
  then show "rfc3339_time_check s"
    using b unfolding s by (subst time_check_parts) (simp_all add: padded_digits zone_iff)
qed

subsection \<open>Addresses\<close>

definition octet_set :: rexp where
  "octet_set =
     RAlt (RSeq (char_set (CHR ''2'')) (RSeq (char_set (CHR ''5'')) (RSet False [(CHR ''0'', CHR ''5'')])))
     (RAlt (RSeq (char_set (CHR ''2'')) (RSeq (RSet False [(CHR ''0'', CHR ''4'')]) digit_set))
     (RAlt (RSeq (char_set (CHR ''1'')) (RSeq digit_set digit_set))
     (RSeq (RAlt REps (RSeq (RSet False [(CHR ''1'', CHR ''9'')]) REps)) digit_set)))"

lemma in_class_range:
  assumes "i \<le> j" and "j < 10"
  shows "in_class False [(digit i, digit j)] c \<longleftrightarrow> (\<exists>k. i \<le> k \<and> k \<le> j \<and> c = digit k)"
proof
  assume a: "in_class False [(digit i, digit j)] c"
  then have b: "0x30 + i \<le> byte c" "byte c \<le> 0x30 + j" using assms by (simp_all add: in_class_def digit_def)
  then have "c = digit (byte c - 0x30)" by (simp add: digit_def)
  moreover have "i \<le> byte c - 0x30" "byte c - 0x30 \<le> j" using b by arith+
  ultimately show "\<exists>k. i \<le> k \<and> k \<le> j \<and> c = digit k" by blast
qed (use assms in \<open>auto simp: in_class_def digit_def\<close>)

lemma digit_chars:
  "digit 0 = CHR ''0''" "digit 1 = CHR ''1''" "digit 2 = CHR ''2''" "digit 4 = CHR ''4''" "digit 5 = CHR ''5''" "digit 9 = CHR ''9''"
  by code_simp+

lemma nat_string_two: "0 < a \<Longrightarrow> a < 10 \<Longrightarrow> b < 10 \<Longrightarrow> nat_string (10 * a + b) = [digit a, digit b]"
  by (simp add: nat_string.simps [of "10 * a + b"] nat_string.simps [of a])

lemma nat_string_three:
  "0 < a \<Longrightarrow> a < 10 \<Longrightarrow> b < 10 \<Longrightarrow> c < 10 \<Longrightarrow> nat_string (100 * a + 10 * b + c) = [digit a, digit b, digit c]"
proof -
  assume a: "0 < a" "a < 10" "b < 10" "c < 10"
  have "(100 * a + 10 * b + c) div 10 = 10 * a + b"
    using div_mult_self2 [of 10 c "10 * a + b"] a(4) by (simp add: algebra_simps)
  moreover have "(100 * a + 10 * b + c) mod 10 = c"
    using mod_mult_self2 [of c 10 "10 * a + b"] a(4) by (simp add: algebra_simps)
  ultimately show ?thesis using nat_string_two [OF a(1-3)] a(1) by (subst nat_string.simps) simp
qed

lemma octet_words:
  "w \<in> lang octet_set \<longleftrightarrow>
     (\<exists>k \<le> 5. w = [digit 2, digit 5, digit k]) \<or> (\<exists>j \<le> 4. \<exists>k \<le> 9. w = [digit 2, digit j, digit k]) \<or>
     (\<exists>j \<le> 9. \<exists>k \<le> 9. w = [digit 1, digit j, digit k]) \<or> (\<exists>k \<le> 9. w = [digit k]) \<or>
     (\<exists>j k. 1 \<le> j \<and> j \<le> 9 \<and> k \<le> 9 \<and> w = [digit j, digit k])"
proof -
  have cl: "in_class False [(CHR ''0'', CHR ''5'')] c \<longleftrightarrow> (\<exists>k \<le> 5. c = digit k)"
      "in_class False [(CHR ''0'', CHR ''4'')] c \<longleftrightarrow> (\<exists>k \<le> 4. c = digit k)"
      "in_class False [(CHR ''0'', CHR ''9'')] c \<longleftrightarrow> (\<exists>k \<le> 9. c = digit k)"
      "in_class False [(CHR ''1'', CHR ''9'')] c \<longleftrightarrow> (\<exists>k. 1 \<le> k \<and> k \<le> 9 \<and> c = digit k)" for c
    using in_class_range [of 0 5 c] in_class_range [of 0 4 c] in_class_range [of 0 9 c] in_class_range [of 1 9 c]
    by (simp_all add: digit_chars del: One_nat_def)
  have one: "v \<in> lang (RSet False cs) \<longleftrightarrow> (\<exists>c. v = [c] \<and> in_class False cs c)" for v cs by auto
  have opt: "w \<in> lang (RSeq (RAlt REps (RSeq (RSet False [(CHR ''1'', CHR ''9'')]) REps)) digit_set) \<longleftrightarrow>
      w \<in> lang digit_set \<or> w \<in> lang (RSeq (RSet False [(CHR ''1'', CHR ''9'')]) digit_set)"
    unfolding lang_seq [of w "RAlt _ _"] lang_alt lang_eps lang_seq_eps lang_seq [of w "RSet _ _"] by auto
  show ?thesis
    unfolding octet_set_def lang_alt opt lang_set_seq lang_char_seq one in_class_char cl digit_chars by fastforce
qed

lemma octet_numbers: "w \<in> lang octet_set \<longleftrightarrow> (\<exists>n \<le> 255. w = nat_string n)"
proof
  have three: "[digit a, digit b, digit c] = nat_string (100 * a + 10 * b + c)" if "0 < a" "a < 10" "b < 10" "c < 10" for a b c
    using nat_string_three that by simp
  assume "w \<in> lang octet_set"
  then consider k where "k \<le> 5" "w = [digit 2, digit 5, digit k]" | j k where "j \<le> 4" "k \<le> 9" "w = [digit 2, digit j, digit k]"
    | j k where "j \<le> 9" "k \<le> 9" "w = [digit 1, digit j, digit k]" | k where "k \<le> 9" "w = [digit k]"
    | j k where "1 \<le> j" "j \<le> 9" "k \<le> 9" "w = [digit j, digit k]"
    unfolding octet_words by blast
  then show "\<exists>n \<le> 255. w = nat_string n"
  proof cases
    case 1
    then show ?thesis using three [of 2 5 k] by (intro exI [of _ "100 * 2 + 10 * 5 + k"]) simp
  next
    case 2
    then show ?thesis using three [of 2 j k] by (intro exI [of _ "100 * 2 + 10 * j + k"]) simp
  next
    case 3
    then show ?thesis using three [of 1 j k] by (intro exI [of _ "100 * 1 + 10 * j + k"]) simp
  next
    case 4
    then show ?thesis by (intro exI [of _ k]) (simp add: nat_string.simps)
  next
    case 5
    then show ?thesis using nat_string_two [of j k] by (intro exI [of _ "10 * j + k"]) simp
  qed
next
  assume "\<exists>n \<le> 255. w = nat_string n"
  then obtain n where n: "n \<le> 255" "w = nat_string n" by blast
  consider "n < 10" | "10 \<le> n" "n < 100" | "100 \<le> n" by linarith
  then show "w \<in> lang octet_set"
  proof cases
    case 1
    then have "w = [digit n]" using n(2) by (simp add: nat_string.simps)
    moreover have "n \<le> 9" using 1 by simp
    ultimately show ?thesis unfolding octet_words by blast
  next
    case 2
    define j k where "j = n div 10" and "k = n mod 10"
    have "n = 10 * j + k" "1 \<le> j" "j \<le> 9" "k \<le> 9" using 2 by (simp_all add: j_def k_def less_Suc_eq_le [symmetric] less_mult_imp_div_less div_greater_zero_iff Suc_le_eq)
    then have "w = [digit j, digit k]" using n(2) nat_string_two [of j k] by simp
    then show ?thesis using \<open>1 \<le> j\<close> \<open>j \<le> 9\<close> \<open>k \<le> 9\<close> unfolding octet_words by blast
  next
    case 3
    define a b c where "a = n div 100" and "b = n mod 100 div 10" and "c = n mod 100 mod 10"
    have "n = a * 100 + n mod 100" "n mod 100 = b * 10 + c" unfolding a_def b_def c_def by (rule div_mult_mod_eq [symmetric])+
    then have e: "n = 100 * a + 10 * b + c" by simp
    have "n mod 100 < 100" "c < 10" by (simp_all add: c_def)
    have abc: "a = 1 \<or> a = 2" "b \<le> 9" "c \<le> 9"
      using 3 n(1) \<open>n = a * 100 + n mod 100\<close> \<open>n mod 100 = b * 10 + c\<close> \<open>n mod 100 < 100\<close> \<open>c < 10\<close> by linarith+
    then have w: "w = [digit a, digit b, digit c]" using n(2) e nat_string_three [of a b c] by auto
    show ?thesis
    proof (cases "a = 1")
      case True
      then show ?thesis using w abc unfolding octet_words by blast
    next
      case False
      then have "a = 2" "b \<le> 4 \<or> b = 5 \<and> c \<le> 5" using abc e n(1) by auto
      then show ?thesis using w abc unfolding octet_words by blast
    qed
  qed
qed

text \<open>A text has the format \<open>ipv4\<close> exactly when it is four numbers up to 255, each without a sign or leading zeros,
  with points between them.\<close>

theorem ipv4_accepts:
  "matches (''^'' @ ipv4Address @ ''$'') s \<longleftrightarrow>
     (\<exists>a b c d. a \<le> 255 \<and> b \<le> 255 \<and> c \<le> 255 \<and> d \<le> 255 \<and>
        s = nat_string a @ ''.'' @ nat_string b @ ''.'' @ nat_string c @ ''.'' @ nat_string d)"
proof -
  let ?o = "RSeq octet_set (char_set (CHR ''.''))"
  let ?r = "\<lambda>e. RSeq (RSeq ?o (RSeq ?o ?o)) (RSeq octet_set e)"
  have "regex (''^'' @ ipv4Address @ ''$'') = Some (RSeq RBegin (?r REnd))" by code_simp
  moreover have "trim_edges (RSeq RBegin (?r REnd)) = ?r REps" by (simp only: trim_edges.simps trim_end.simps)
  moreover have "anchor_free (?r REps)" by (simp add: octet_set_def)
  ultimately have "matches (''^'' @ ipv4Address @ ''$'') s \<longleftrightarrow> s \<in> lang (?r REps)" using matches_lang by simp
  also have "\<dots> \<longleftrightarrow> (\<exists>a b c d. a \<le> 255 \<and> b \<le> 255 \<and> c \<le> 255 \<and> d \<le> 255 \<and>
      s = ((nat_string a @ ''.'') @ (nat_string b @ ''.'') @ (nat_string c @ ''.'')) @ nat_string d)"
  proof -
    have o: "w \<in> lang ?o \<longleftrightarrow> (\<exists>n \<le> 255. w = nat_string n @ ''.'')" for w
      unfolding lang_seq lang_char octet_numbers by blast
    show ?thesis
      unfolding lang_seq [of s] lang_seq [of _ ?o "RSeq ?o ?o"] lang_seq [of _ ?o ?o] o lang_seq_eps octet_numbers by blast
  qed
  finally show ?thesis by simp
qed

text \<open>The sign of an offset of less than an hour is lost: at 23:29:60 half an hour behind UTC it is 23:59:60 in UTC, but
  the check rejects it, and it accepts 00:29:60, which is 00:59:60 in UTC.\<close>

theorem negative_minutes_read_as_positive:
  "\<not> rfc3339_time_check ''23:29:60-00:30'' \<and> rfc3339_time_check ''00:29:60-00:30''"
  by code_simp

end
