(* ===== verification/Spec2Isabelle.thy ===== *)
theory Spec2Isabelle
  imports Exchange Startup String_Format
begin

text \<open>
  This library models the worker of the Miniature Distributed System (everything under src/ but
  the tests, the logger and the third-party code its packets do not pass through), and proves
  what its parts promise.

  The program. \<open>main\<close> asks for a host, a port and a number of threads, builds the configuration,
  and starts three kinds of threads: the scheduler with its task threads, the socket thread, and
  one short thread for each exchange with the server. A packet from the server becomes a receiver
  stage. It is checked against a schema and parsed: an instance packet becomes a table of the
  SQLite database and an entry of the registry of instances, a data packet becomes a table file.
  A table then passes a chain of stages, each submitted by the end handler of the one before: the
  data processor loads the instance, the cleaner drops duplicate rows, one validator per thread
  replaces values the instance does not allow, the tracker counts the validators and at the last
  one sends the cleaned table back and calls the algorithm scheduler, which cuts the table into
  one chunk per thread, runs candidate elimination on each, collects the results, and submits the
  aggregation, whose result is sent to the server too. Stages are values of type \<open>stage\<close>; a
  submission is a task of the pool, which the scheduler turns into a job of a thread queue.

  How the code is modelled. Structs and classes are records, enumerations are datatypes with
  the numbers of the source, fixed arrays are lists of slots. \<open>'a result\<close> is the value of a
  computation that may leave the defined behaviour of C++: \<open>Inl\<close> names what went wrong (a null or
  dangling pointer, an index out of range, a division by zero, a semaphore the thread itself
  holds, an exception nothing catches), \<open>Inr\<close> carries the value. Objects that are shared
  through pointers live on explicit heaps (maps from addresses): process tables and jobs on the
  scheduler's side, one heap per class on the side of the stages. Return codes are the ints of
  the source. Integers whose width matters are words or go through \<open>int32\<close>, \<open>as_size\<close> and
  \<open>word_of_int\<close>; indeterminate members and random numbers are arguments. The state is
  passed explicitly; calls that hold the lock of their class are single steps.

  Which theory models which part:
    \<^item> Prelude: results, slots, lists, bounded integers; the collections \<open>result_simps\<close> and others.
    \<^item> Queue_Interface, Row_Table, Barrier: the interfaces, as locales. A task queue (a view in
      service order that pushing and popping change as promised) is interpreted for the task
      pool and for the sender's sink, a job store (slots that keep the jobs put into them) for the
      thread queues; a row table (rows that are read, rewritten and deduplicated) for table
      files; a barrier (the last of n arrivals releases what waits) for the tracker's count of
      validators and the collection of results.
    \<^item> Process_Types, Process_Manager (include/flag.h, task.hpp, process.hpp,
      scheduler/process_manager.cpp): job states, priorities, process tables and their registry.
    \<^item> Task_Pool (scheduler/task_pool.cpp): the pool of submitted stages.
    \<^item> Thread_Queue, Scheduler (scheduler/sched.cpp): a thread's queue of jobs, and the functions
      on all queues with one round of the scheduler and one turn of a task thread. Sched_Queues
      and Sched_Jobs hold the lemmas on choosing and balancing queues and on running
      a job to its end, Sched_Round the refinement of a round by an abstract scheduler,
      Sched_Ownership who owns a process table and that every operation keeps it so, Sched_System
      the histories of submissions, rounds and turns (\<open>sched_reach\<close>).
    \<^item> Forward_Stack (sender_proc/forward_stack.cpp, include/packet.hpp), Sender
      (sender_proc/sender.cpp), Socket_State and Socket_Task (socket/socket.cpp): packets that
      wait to be sent and to be acknowledged, how they are made, and the socket's threads as a
      step relation. Ws_Client (socket/ws_client.cpp): one exchange with the server.
    \<^item> File_Database (services/file_database_access.cpp), Sqlite_Access
      (services/sqlite_database_access.cpp), Stats_Engine (services/stats_engine.cpp).
    \<^item> Instances (instance/): instances, their versions and reference counts.
    \<^item> Instance_Data, Data_Validator, Data_Stages, Data_Flow (data_processor/): comparing a
      table with its instance, validating rows, and the stages in front of the algorithm with
      the tracker. Worker_State holds the globals these stages share.
    \<^item> Candidate_Elimination, Ce_Finalize, Algorithm_Scheduler (algorithm/): learning from a
      chunk, joining the results, cutting a table and collecting what comes back.
    \<^item> Json (the values the worker builds and reads); Json_Lexer, Json_Parser and Json_Dump
      (include/json.hpp: \<open>json::parse\<close> and \<open>json::dump\<close>) with Doubles (which rationals are doubles, and
      rounding to the nearest) and Grisu (include/json.hpp, namespace \<open>dtoa_impl\<close>: the text of a
      double). Grisu_Digits, Grisu_Powers and Grisu_Bounds hold the correctness of Grisu2: its 64-bit
      products and digit loops, its table of powers of ten, and that its digits fall between the
      neighbours of the number; Json_Utf8, Json_Numbers and Json_Text what reading and
      writing do together, for strings, numbers and values; Json_Schema (the part of
      lib/json-validator.cpp that the worker's schemas use: \<open>schema::make\<close> builds a tree of
      validators, \<open>validate\<close> runs it).
    \<^item> Regex (\<open>std::regex\<close>: reading a pattern, matching, and that the matcher finds a match exactly when
      the relation a pattern stands for has one) and String_Format (lib/string-format-check.cpp: the
      formats of strings the validator's library offers; the worker gives its validators no format checker).
    \<^item> Packet_Parsers, Receiver_Stage, Packet_Flow, Packet_Validation (receiver_proc/): parsing
      both kinds of packets, the receiver's handlers, and what becomes of a valid packet.
    \<^item> Pipeline: the stage structs as the environment the scheduler runs, its world being the
      state of the stages. Worker_System: the scheduler on that environment, with the locale
      \<open>stage_objects\<close> for what it relies on of the stages. Exchange: the socket's exchange threads
      and the task threads together. Startup (main.cpp, configs.hpp): what is read before all this.

  What is shown. For the scheduler: the pool serves tasks in a stable order by priority; a round
  of the concrete scheduler implements a round of an abstract one that fills free slots from the
  front of the pool; the quickest queue has the least load; rebalancing keeps the bag of jobs; a
  thread serves the jobs of its queue fairly; a job's loop ends after as many passes as its
  handler asks for. For the data: reading back a written row and a closed file gives what was
  written; the cleaner keeps exactly the first occurrence of each row; the algorithm starts exactly
  when the last validator has finished; the chunks of a table follow each other without a gap or an
  overlap up to the last line; the final stage is submitted exactly once, with all results.
  Candidate elimination gives the most specific hypothesis over the positive examples; aggregation
  keeps the columns on which all chunks agree. For the packets: which documents the schemas accept, and
  that every accepted data packet is turned into a table and handed on; what each operation of
  the stacks answers; no two exchanges of the same mode run at once. For the text of packets: what
  \<open>dump\<close> writes \<open>parse\<close> reads back, up to the order of keys, and what \<open>parse\<close> has read can always
  be written; the text Grisu2 finds for a double is read back as this double and fits into its buffer. For the formats of strings: which texts are dates, times and addresses. For the composition: every submission any handler makes carries the address of an
  object of the class its stage expects; in every history of the worker the arguments of all
  waiting and running stages are live objects, the scheduler never faults, and tables, jobs and
  slots belong to each other one to one (the arrays of job pointers are assumed to be zero at
  the start, which the code leaves to chance: \<open>first_flush_deletes_garbage\<close> shows what happens
  else); a packet of the worker reaches the server whole and its answer becomes a receiver stage.

  The code also does things it does not mean to do, and the model keeps them: among others, the
  finished job's status is written into a table that has been freed, a failed job is run for
  ever (an exchange that fails blocks a slot of a queue in this way), no job is ever paused, the validated rows are never saved, the sixth acknowledgement
  blocks its thread, and the removal of duplicates leaves a row count that makes the last chunk
  read behind the end of its table. Each has a theorem that shows it on the definitions.

  Fuel and termination. Recursion that is not structural has a termination proof: normalising a
  significand by the room above it, \<open>grisu2_round\<close> by the distance that is left, \<open>fractional_loop\<close> by the
  factors 2 its fraction lacks (each pass adds one, so it ends even without the bound on the digits), the scans over
  text (\<open>skip_field\<close>, \<open>insert_loop\<close>) by the rest of the text, \<open>move_loop\<close> by the jobs left in the
  busy queue. \<open>schema_make\<close> runs with \<open>make_fuel\<close>, the size of the schema, and every nested
  schema is smaller; the schemas of the receiver are shown to be built. \<open>run_loop\<close>, the
  loop of a task thread over one job, may run for ever, and its fuel is a bound on the passes;
  \<open>run_loop_finishes\<close> shows that the passes the handler needs are enough. \<open>clean_run\<close> is called
  once more than the file has lines, which is shown to be enough.

  Parameters. \<open>boost::iequals\<close>, \<open>sqlite3_exec\<close>, the file system's answer to whether a name can be
  written and the byte in front of a string's buffer are fields of \<open>platform\<close>; the calls of
  boost::asio and boost::beast that can fail are fields of \<open>transport\<close>. What a theorem relies on of them is a hypothesis, and its
  witness gives a concrete function.

  Not modelled: the logger and its formats (output only), the tests, of the JSON library pretty printing, comments, binary formats,
  pointers and the sign of a negative zero, and of the schema validator references between schemas,
  regular expressions, formats, \<open>enum\<close> and \<open>const\<close>, dependencies and default values, none of which
  the worker's schemas use; of the string formats \<open>email\<close>, whose scanner is generated. Condition variables and the creation of threads are left out: a
  thread is the sequence of its steps.
\<close>

end
